(* ===== verification/Prelude.thy ===== *)
theory Prelude
  imports Complex_Main "HOL-Library.State_Monad" "HOL-Library.Multiset"
begin

text \<open>
  What every theory of the development shares: the collections of rewrite rules, the names of
  the model's basic types, and the generic lemmas on lists, options and the state monad that the
  component proofs use.
\<close>

named_theorems trace_simps \<open>what an operation adds to the history of a workflow execution\<close>
named_theorems option_defs \<open>the constants of the retry presets\<close>
named_theorems frame_intros \<open>operations that only extend the history\<close>

subsection \<open>Names of the basic types\<close>

text \<open>
  A Go string and a Go byte slice are sequences of bytes; \<open>char\<close> is a byte. A byte slice that
  may be nil is \<open>bytes option\<close>.
\<close>

type_synonym bytes = string

text \<open>
  \<open>time.Time\<close> is an instant in nanoseconds and \<open>time.Duration\<close> a signed number of nanoseconds.
\<close>

type_synonym time = int
type_synonym duration = int

text \<open>How a call ends: it returns, or it panics with a value.\<close>

datatype ('p, 'a) outcome = Returned 'a | Panicked 'p

subsection \<open>Lists\<close>

lemma mset_remove_nth:
  assumes "k < length xs"
  shows "mset (take k xs @ drop (Suc k) xs) + {#xs ! k#} = mset xs"
proof -
  have "mset (take k xs @ xs ! k # drop (Suc k) xs) = mset xs"
    using assms by (simp add: id_take_nth_drop [symmetric])
  then show ?thesis by simp
qed

lemma length_remove_nth [simp]:
  "k < length xs \<Longrightarrow> length (take k xs @ drop (Suc k) xs) = length xs - 1"
  by simp

subsection \<open>The state monad\<close>

lemma run_state_if [simp]:
  "run_state (if b then m else n) s = (if b then run_state m s else run_state n s)"
  by simp

lemma snd_run_state_bind:
  "snd (run_state (m \<bind> f) s) = snd (run_state (f (fst (run_state m s))) (snd (run_state m s)))"
  by (simp add: split_beta)

lemma state_io_rel_bindI:
  assumes "state_io_rel P m" and "\<And>x. state_io_rel Q (f x)"
    and "\<And>s t u. P s t \<Longrightarrow> Q t u \<Longrightarrow> R s u"
  shows "state_io_rel R (m \<bind> f)"
  using assms unfolding state_io_rel_def snd_run_state_bind by blast

lemma state_eqI: "(\<And>s. run_state m s = run_state n s) \<Longrightarrow> m = n"
  by (cases m; cases n) auto

end
