(* ===== verification/GoLib.thy ===== *)
theory GoLib
  imports Prelude
begin

text \<open>
  The parts of Go's standard library that the source uses: the durations of package \<open>time\<close>,
  integer division, the formatting verbs \<open>%d\<close> and \<open>%q\<close> of \<open>fmt.Sprintf\<close>, \<open>strings.Split\<close>,
  and error values with \<open>fmt.Errorf("... %w", err)\<close>, \<open>Error()\<close> and \<open>errors.As\<close>.
\<close>

subsection \<open>Time\<close>

text \<open>
  The source only adds a duration to an instant, compares, subtracts two instants and halves a
  duration. \<open>time.Time.Sub\<close> saturates at the ends of the int64 range; nothing else can leave it.
\<close>

definition Nanosecond :: duration where "Nanosecond = 1"
definition Millisecond :: duration where "Millisecond = 1000000"
definition Second :: duration where "Second = 1000000000"
definition Minute :: duration where "Minute = 60000000000"
definition Hour :: duration where "Hour = 3600000000000"

lemmas duration_units = Nanosecond_def Millisecond_def Second_def Minute_def Hour_def

definition maxDuration :: duration where "maxDuration = 2 ^ 63 - 1"
definition minDuration :: duration where "minDuration = - (2 ^ 63)"

text \<open>Instants count from the zero \<open>time.Time\<close>.\<close>

definition zero_time :: time where
  "zero_time = 0"

definition time_IsZero :: "time \<Rightarrow> bool" where
  "time_IsZero t \<longleftrightarrow> t = zero_time"

definition time_After :: "time \<Rightarrow> time \<Rightarrow> bool" where
  "time_After t u \<longleftrightarrow> u < t"

definition time_Add :: "time \<Rightarrow> duration \<Rightarrow> time" where
  "time_Add t d = t + d"

definition time_Sub :: "time \<Rightarrow> time \<Rightarrow> duration" where
  "time_Sub t u = max minDuration (min maxDuration (t - u))"

text \<open>Go's \<open>/\<close> on integers truncates towards zero.\<close>

definition go_div :: "int \<Rightarrow> int \<Rightarrow> int" where
  "go_div a b = sgn a * sgn b * (\<bar>a\<bar> div \<bar>b\<bar>)"

subsection \<open>Formatting\<close>

definition digit_char :: "nat \<Rightarrow> char" where
  "digit_char d = ''0123456789abcdef'' ! d"

fun show_nat :: "nat \<Rightarrow> string" where
  "show_nat n = (if n < 10 then [digit_char n] else show_nat (n div 10) @ [digit_char (n mod 10)])"

declare show_nat.simps [simp del]

text \<open>The verb \<open>%d\<close>.\<close>

definition show_int :: "int \<Rightarrow> string" where
  "show_int i = (if i < 0 then ''-'' @ show_nat (nat (- i)) else show_nat (nat i))"

lemma digit_char_inj: "d < 16 \<Longrightarrow> e < 16 \<Longrightarrow> digit_char d = digit_char e \<longleftrightarrow> d = e"
  unfolding digit_char_def by (rule nth_eq_iff_index_eq) auto

lemma digit_char_in: "d < 16 \<Longrightarrow> digit_char d \<in> set ''0123456789abcdef''"
  unfolding digit_char_def by (rule nth_mem) simp

lemma show_nat_nonempty: "show_nat n \<noteq> []"
  by (subst show_nat.simps) simp

lemma show_nat_chars: "set (show_nat n) \<subseteq> set ''0123456789abcdef''"
proof (induction n rule: show_nat.induct)
  case (1 n)
  show ?case
  proof (cases "n < 10")
    case True
    then show ?thesis using digit_char_in [of n] by (subst show_nat.simps) simp
  next
    case False
    moreover have "n mod 10 < 16" by (rule order_less_trans [of _ 10]) simp_all
    ultimately show ?thesis
      using "1.IH" digit_char_in [of "n mod 10"] by (subst show_nat.simps) simp
  qed
qed

lemma show_nat_inj: "show_nat m = show_nat n \<Longrightarrow> m = n"
proof (induction m arbitrary: n rule: show_nat.induct)
  case (1 m)
  have small: "k mod 10 < 16" for k :: nat by (rule order_less_trans [of _ 10]) simp_all
  show ?case
  proof (cases "m < 10 \<or> n < 10")
    case True
    with "1.prems" show ?thesis
      by (auto simp: show_nat.simps [of m] show_nat.simps [of n] show_nat_nonempty
          show_nat_nonempty [symmetric] digit_char_inj
          split: if_splits)
  next
    case False
    with "1.prems" have eq: "show_nat (m div 10) = show_nat (n div 10)"
      and "digit_char (m mod 10) = digit_char (n mod 10)"
      by (simp_all add: show_nat.simps [of m] show_nat.simps [of n])
    then have "m mod 10 = n mod 10" by (simp add: digit_char_inj small)
    moreover have "m div 10 = n div 10" using "1.IH" False eq by simp
    ultimately show ?thesis by (metis mult_div_mod_eq)
  qed
qed

lemma show_nat_no_char: "c \<notin> set ''0123456789abcdef'' \<Longrightarrow> c \<notin> set (show_nat n)"
  using show_nat_chars by blast

lemma show_int_inj: "show_int i = show_int j \<longleftrightarrow> i = j"
proof
  have minus: "show_nat n \<noteq> CHR ''-'' # s" for n s
    using show_nat_no_char [of "CHR ''-''" n] by auto
  assume "show_int i = show_int j"
  then show "i = j"
    by (auto simp: show_int_def minus minus [symmetric] dest!: show_nat_inj split: if_splits)
qed simp

lemma show_int_no_slash: "CHR ''/'' \<notin> set (show_int i)"
  by (simp add: show_int_def show_nat_no_char)

text \<open>
  \<open>time.Duration.String\<close>: the fraction is written without trailing zeros, units below a second
  are ns, us (with the sign for micro, two bytes in UTF-8) and ms.
\<close>

fun frac_digits :: "nat \<Rightarrow> nat \<Rightarrow> string" where
  "frac_digits 0 v = []"
| "frac_digits (Suc p) v =
     (let rest = frac_digits p (v div 10)
      in rest @ [digit_char (v mod 10)])"

definition fmt_frac :: "nat \<Rightarrow> nat \<Rightarrow> string" where
  "fmt_frac prec v =
     (let ds = rev (dropWhile (\<lambda>c. c = CHR ''0'') (rev (frac_digits prec v)))
      in if ds = [] then [] else CHR ''.'' # ds)"

definition duration_String :: "duration \<Rightarrow> string" where
  "duration_String d =
     (let u = nat \<bar>d\<bar>; neg = (if d < 0 then ''-'' else '''') in
      if u = 0 then ''0s''
      else if u < 1000 then neg @ show_nat u @ ''ns''
      else if u < 1000000 then neg @ show_nat (u div 1000) @ fmt_frac 3 u @ [CHR 0xC2, CHR 0xB5] @ ''s''
      else if u < 1000000000 then neg @ show_nat (u div 1000000) @ fmt_frac 6 u @ ''ms''
      else (let s = u div 1000000000; m = s div 60; h = m div 60 in
        neg @ (if 0 < h then show_nat h @ ''h'' else '''')
            @ (if 0 < m then show_nat (m mod 60) @ ''m'' else '''')
            @ show_nat (s mod 60) @ fmt_frac 9 u @ ''s''))"

lemma frac_digits_numeral [simp]:
  "frac_digits (numeral k) v = frac_digits (pred_numeral k) (v div 10) @ [digit_char (v mod 10)]"
  by (subst numeral_eq_Suc [of k]) (simp add: Let_def)

lemma show_nat_digit: "n < 10 \<Longrightarrow> show_nat n = [digit_char n]"
  by (subst show_nat.simps) simp

lemma duration_String_samples:
  "duration_String (48 * Hour) = ''48h0m0s''" "duration_String (1500 * Millisecond) = ''1.5s''"
  "duration_String (- 30 * Second) = ''-30s''" "duration_String (90 * Second) = ''1m30s''"
  by (simp_all add: duration_String_def duration_units fmt_frac_def show_nat_digit
      show_nat_digit [of 1, simplified] show_nat.simps [of 48] show_nat.simps [of 30] digit_char_def)

text \<open>
  The verb \<open>%q\<close> (\<open>strconv.Quote\<close>). Bytes of multi-byte UTF-8 sequences are taken to be
  printable and pass through, as they do in valid text.
\<close>

definition quote_byte :: "char \<Rightarrow> string" where
  "quote_byte c =
     (if c = CHR 0x22 \<or> c = CHR 0x5C then [CHR 0x5C, c]
      else if c = CHR 0x07 then [CHR 0x5C, CHR ''a'']
      else if c = CHR 0x08 then [CHR 0x5C, CHR ''b'']
      else if c = CHR 0x0C then [CHR 0x5C, CHR ''f'']
      else if c = CHR 0x0A then [CHR 0x5C, CHR ''n'']
      else if c = CHR 0x0D then [CHR 0x5C, CHR ''r'']
      else if c = CHR 0x09 then [CHR 0x5C, CHR ''t'']
      else if c = CHR 0x0B then [CHR 0x5C, CHR ''v'']
      else if of_char c < (32 :: nat) \<or> c = CHR 0x7F
        then [CHR 0x5C, CHR ''x'', digit_char (of_char c div 16), digit_char (of_char c mod 16)]
      else [c])"

definition go_quote :: "string \<Rightarrow> string" where
  "go_quote s = [CHR 0x22] @ concat (map quote_byte s) @ [CHR 0x22]"

text \<open>The dash U+2014 in the source's messages, as its UTF-8 bytes.\<close>

definition em_dash :: string where
  "em_dash = [CHR 0xE2, CHR 0x80, CHR 0x94]"

subsection \<open>Splitting\<close>

text \<open>\<open>strings.Split\<close> with a one-byte separator: never an empty list.\<close>

fun go_split :: "char \<Rightarrow> string \<Rightarrow> string list" where
  "go_split c [] = [[]]"
| "go_split c (x # xs) =
     (if x = c then [] # go_split c xs
      else case go_split c xs of [] \<Rightarrow> [[x]] | p # ps \<Rightarrow> (x # p) # ps)"

lemma go_split_nonempty [simp]: "go_split c s \<noteq> []"
  by (induction s) (auto split: list.split)

lemma go_split_no_sep: "c \<notin> set s \<Longrightarrow> go_split c s = [s]"
  by (induction s) auto

lemma go_split_append_sep: "go_split c (s @ c # t) = go_split c s @ go_split c t"
  by (induction s) (auto split: list.split)

lemma last_go_split: "c \<notin> set t \<Longrightarrow> last (go_split c (s @ c # t)) = t"
  by (simp add: go_split_append_sep go_split_no_sep)

subsection \<open>Error values\<close>

text \<open>
  A Go error is one of: a text (\<open>errors.New\<close>, or \<open>fmt.Errorf\<close> without \<open>%w\<close>); a text followed
  by another error's text that wraps it (\<open>fmt.Errorf("...: %w", err)\<close>; the source writes \<open>%w\<close>
  last everywhere); one of the two constructor calls of the Temporal SDK that the source makes,
  kept with its arguments as they are (\<open>temporal.NewApplicationError(msg, errType, details...)\<close>
  and \<open>temporal.NewNonRetryableApplicationError(msg, errType, cause)\<close>; an absent error value is
  nil); or any other error of the SDK or of a library, of which only its text and what it
  unwraps to are visible.
\<close>

datatype go_error =
    ErrorString string
  | WrapError string go_error
  | NewApplicationError string string "go_error option list"
  | NewNonRetryableApplicationError string string "go_error option"
  | ForeignError string "go_error option"

text \<open>
  \<open>err.Error()\<close>. How the SDK renders an application error (from its message, type, flag and
  the text of its cause) is not under src/: it is the parameter \<open>tx\<close>.
\<close>

type_synonym app_text = "string \<Rightarrow> string \<Rightarrow> bool \<Rightarrow> string option \<Rightarrow> string"

primrec error_text :: "app_text \<Rightarrow> go_error \<Rightarrow> string" where
  "error_text tx (ErrorString s) = s"
| "error_text tx (WrapError p e) = p @ error_text tx e"
| "error_text tx (NewApplicationError m t ds) = tx m t False None"
| "error_text tx (NewNonRetryableApplicationError m t c) =
     tx m t True (map_option (error_text tx) c)"
| "error_text tx (ForeignError s c) = s"

text \<open>
  What the accessors of \<open>*temporal.ApplicationError\<close> are documented to return: \<open>Message()\<close>,
  \<open>Type()\<close>, \<open>NonRetryable()\<close> and \<open>Unwrap()\<close>. Details are not part of the chain.
\<close>

record app_error =
  ae_Message :: string
  ae_Type :: string
  ae_NonRetryable :: bool
  ae_Unwrap :: "go_error option"

text \<open>
  \<open>errors.As(err, &appErr)\<close>: the first application error on the chain of wrapped errors.
  A nil error has none.
\<close>

fun as_application_error :: "go_error \<Rightarrow> app_error option" where
  "as_application_error (ErrorString s) = None"
| "as_application_error (WrapError p e) = as_application_error e"
| "as_application_error (NewApplicationError m t ds) =
     Some \<lparr>ae_Message = m, ae_Type = t, ae_NonRetryable = False, ae_Unwrap = None\<rparr>"
| "as_application_error (NewNonRetryableApplicationError m t c) =
     Some \<lparr>ae_Message = m, ae_Type = t, ae_NonRetryable = True, ae_Unwrap = c\<rparr>"
| "as_application_error (ForeignError s None) = None"
| "as_application_error (ForeignError s (Some e)) = as_application_error e"

text \<open>Layers of \<open>fmt.Errorf\<close> around an error, outermost first.\<close>

fun wrap_all :: "string list \<Rightarrow> go_error \<Rightarrow> go_error" where
  "wrap_all [] e = e"
| "wrap_all (p # ps) e = WrapError p (wrap_all ps e)"

lemma as_application_error_wrap_all [simp]:
  "as_application_error (wrap_all ps e) = as_application_error e"
  by (induction ps) simp_all

lemma error_text_wrap_all [simp]:
  "error_text tx (wrap_all ps e) = concat ps @ error_text tx e"
  by (induction ps) simp_all

subsection \<open>Floating point\<close>

text \<open>
  A float64 the program only stores, compares with a constant or prints: a finite value is the
  rational it denotes.
\<close>

datatype f64 = Fin rat | NegZero | PosInf | NegInf | NaN

fun f64_greater :: "f64 \<Rightarrow> rat \<Rightarrow> bool" where
  "f64_greater (Fin x) c = (c < x)"
| "f64_greater NegZero c = (c < 0)"
| "f64_greater PosInf c = True"
| "f64_greater NegInf c = False"
| "f64_greater NaN c = False"

fun f64_le :: "f64 \<Rightarrow> rat \<Rightarrow> bool" where
  "f64_le (Fin x) c = (x \<le> c)"
| "f64_le NegZero c = (0 \<le> c)"
| "f64_le PosInf c = False"
| "f64_le NegInf c = True"
| "f64_le NaN c = False"

end
