(* ===== verification/ActivityErrors.thy ===== *)
theory ActivityErrors
  imports GoLib
begin

text \<open>
  The error taxonomy of \<open>activity/errors.go\<close>: the three constructors and the two predicates
  that callers use to tell them apart, through any number of \<open>fmt.Errorf\<close> layers.
\<close>

definition NewRetryableError :: "string \<Rightarrow> go_error option \<Rightarrow> go_error" where
  "NewRetryableError msg cause = NewApplicationError msg ''RetryableError'' [cause]"

definition NewBusinessError :: "string \<Rightarrow> string \<Rightarrow> go_error option \<Rightarrow> go_error" where
  "NewBusinessError code msg cause =
     NewNonRetryableApplicationError (''['' @ code @ ''] '' @ msg) code cause"

definition NewCompensationError ::
    "string \<Rightarrow> string \<Rightarrow> string \<Rightarrow> go_error option \<Rightarrow> go_error" where
  "NewCompensationError msg sagaID step cause =
     (let details = ''sagaID='' @ sagaID @ '' step='' @ step in
      NewNonRetryableApplicationError
        (''compensation failed: '' @ msg @ '' ['' @ details @ '']'')
        ''CompensationError''
        cause)"

text \<open>The error argument of the predicates may be nil.\<close>

definition IsBusinessError :: "go_error option \<Rightarrow> string \<Rightarrow> bool" where
  "IsBusinessError err code =
     (case Option.bind err as_application_error of
        None \<Rightarrow> False
      | Some appErr \<Rightarrow> ae_Type appErr = code)"

definition IsCompensationError :: "go_error option \<Rightarrow> bool" where
  "IsCompensationError err =
     (case Option.bind err as_application_error of
        None \<Rightarrow> False
      | Some appErr \<Rightarrow> ae_Type appErr = ''CompensationError'')"

lemma as_application_error_constructors [simp]:
  "as_application_error (NewRetryableError msg cause) =
     Some \<lparr>ae_Message = msg, ae_Type = ''RetryableError'', ae_NonRetryable = False,
           ae_Unwrap = None\<rparr>"
  "as_application_error (NewBusinessError code msg cause) =
     Some \<lparr>ae_Message = ''['' @ code @ ''] '' @ msg, ae_Type = code, ae_NonRetryable = True,
           ae_Unwrap = cause\<rparr>"
  "as_application_error (NewCompensationError msg sagaID step cause) =
     Some \<lparr>ae_Message = ''compensation failed: '' @ msg @ '' [sagaID='' @ sagaID @ '' step='' @ step @ '']'',
           ae_Type = ''CompensationError'', ae_NonRetryable = True, ae_Unwrap = cause\<rparr>"
  by (simp_all add: NewRetryableError_def NewBusinessError_def NewCompensationError_def Let_def)

lemma IsBusinessError_wrap_all [simp]:
  "IsBusinessError (Some (wrap_all ps e)) code = IsBusinessError (Some e) code"
  by (simp add: IsBusinessError_def)

subsection \<open>Properties\<close>

text \<open>
  C40. What the predicates answer for the three kinds of error, after any number of
  \<open>fmt.Errorf("...: %w")\<close> layers. Only the type of the application error counts: a business error has the
  code it was made with and no other, a compensation error has the code "CompensationError" and a
  retryable one the code "RetryableError", although its non-retryable flag is not set; a compensation
  error is recognised as one, a retryable error is not, and a business error only if its code is
  "CompensationError". The non-retryable flag is set for business and compensation errors only.
\<close>

theorem taxonomy_survives_wrapping:
  "let business = wrap_all ps (NewBusinessError code msg cause);
       compensation = wrap_all ps (NewCompensationError msg sagaID step cause);
       retryable = wrap_all ps (NewRetryableError msg cause);
       flag = (\<lambda>e. map_option ae_NonRetryable (as_application_error e)) in
   IsBusinessError (Some business) c = (c = code) \<and>
   IsBusinessError (Some compensation) c = (c = ''CompensationError'') \<and>
   IsBusinessError (Some retryable) c = (c = ''RetryableError'') \<and>
   IsCompensationError (Some business) = (code = ''CompensationError'') \<and>
   IsCompensationError (Some compensation) \<and> \<not> IsCompensationError (Some retryable) \<and>
   flag business = Some True \<and> flag compensation = Some True \<and> flag retryable = Some False \<and>
   \<not> IsBusinessError None c \<and> \<not> IsCompensationError None"
  by (auto simp: IsBusinessError_def IsCompensationError_def Let_def)

text \<open>
  \<open>NewRetryableError\<close> hands its cause to the SDK as a detail, not as the cause: the cause is
  not on the error's chain, so neither \<open>errors.As\<close> nor the error's text can find it, whereas a
  business error keeps its cause. The comment on \<open>IsBusinessError\<close> promises a non-retryable
  error; only the type is compared, so a retryable error is one of code "RetryableError".
\<close>

theorem retryable_error_drops_cause:
  "map_option ae_Unwrap (as_application_error (NewRetryableError msg cause)) = Some None \<and>
   error_text tx (NewRetryableError msg cause) = error_text tx (NewRetryableError msg None) \<and>
   map_option ae_Unwrap (as_application_error (NewBusinessError code msg cause)) = Some cause \<and>
   IsBusinessError (Some (NewRetryableError msg cause)) ''RetryableError''"
  by (simp add: IsBusinessError_def) (simp add: NewRetryableError_def)

end
