(* ===== verification/IdempotencyKeys.thy ===== *)
theory IdempotencyKeys
  imports GoLib
begin

text \<open>
  \<open>activity/idempotency.go\<close>: the two keys under which an activity's effect is deduplicated.
\<close>

text \<open>The fields of the SDK's \<open>activity.Info\<close> that an activity can see and the keys may use.\<close>

record activity_info =
  ai_WorkflowID :: string
  ai_RunID :: string
  ai_ActivityID :: string
  ai_Attempt :: int

definition IdempotencyKey :: "activity_info \<Rightarrow> string" where
  "IdempotencyKey info =
     ai_WorkflowID info @ ''/'' @ ai_ActivityID info @ ''/'' @ show_int (ai_Attempt info)"

definition IdempotencyKeyNoRetry :: "activity_info \<Rightarrow> string" where
  "IdempotencyKeyNoRetry info = ai_WorkflowID info @ ''/'' @ ai_ActivityID info"

text \<open>An identifier with no separator in it.\<close>

definition slash_free :: "string \<Rightarrow> bool" where
  "slash_free s \<longleftrightarrow> CHR ''/'' \<notin> set s"

lemma append_sep_inject:
  "c \<notin> set a \<Longrightarrow> c \<notin> set a' \<Longrightarrow> a @ c # b = a' @ c # b' \<longleftrightarrow> a = a' \<and> b = b'"
proof (induction a arbitrary: a')
  case Nil
  then show ?case by (cases a') auto
next
  case (Cons x a)
  then show ?case by (cases a') auto
qed

lemma append_sep_inject_right:
  assumes "c \<notin> set b" and "c \<notin> set b'"
  shows "a @ c # b = a' @ c # b' \<longleftrightarrow> a = a' \<and> b = b'"
proof -
  have "a @ c # b = a' @ c # b' \<longleftrightarrow> rev b @ c # rev a = rev b' @ c # rev a'"
    by (metis append.assoc append_Cons append_Nil rev_append rev_rev_ident rev.simps(2))
  then show ?thesis using assms by (auto simp: append_sep_inject)
qed

lemma NoRetry_inject:
  "slash_free (ai_ActivityID i) \<Longrightarrow> slash_free (ai_ActivityID j) \<Longrightarrow>
   IdempotencyKeyNoRetry i = IdempotencyKeyNoRetry j \<longleftrightarrow>
     ai_WorkflowID i = ai_WorkflowID j \<and> ai_ActivityID i = ai_ActivityID j"
  by (simp add: IdempotencyKeyNoRetry_def slash_free_def append_sep_inject_right)

lemma IdempotencyKey_alt:
  "IdempotencyKey i = IdempotencyKeyNoRetry i @ ''/'' @ show_int (ai_Attempt i)"
  by (simp add: IdempotencyKey_def IdempotencyKeyNoRetry_def)

text \<open>
  When activity identifiers hold no slash, the stable key is equal for exactly the
  executions of the same workflow id and activity id, whatever the attempt and the run, and the
  per-attempt key is equal for exactly those of the same workflow id, activity id and attempt.
\<close>

theorem keys_identify_executions:
  assumes "slash_free (ai_ActivityID i)" and "slash_free (ai_ActivityID j)"
  shows "(IdempotencyKeyNoRetry i = IdempotencyKeyNoRetry j \<longleftrightarrow>
            ai_WorkflowID i = ai_WorkflowID j \<and> ai_ActivityID i = ai_ActivityID j) \<and>
         (IdempotencyKey i = IdempotencyKey j \<longleftrightarrow>
            ai_WorkflowID i = ai_WorkflowID j \<and> ai_ActivityID i = ai_ActivityID j \<and>
            ai_Attempt i = ai_Attempt j)"
  using assms
  by (simp add: NoRetry_inject IdempotencyKey_alt append_sep_inject_right show_int_no_slash
      show_int_inj)

theorem keys_identify_executions_witness:
  "IdempotencyKey \<lparr>ai_WorkflowID = ''wf/1'', ai_RunID = ''r1'', ai_ActivityID = ''7'', ai_Attempt = 1\<rparr>
     \<noteq> IdempotencyKey \<lparr>ai_WorkflowID = ''wf/1'', ai_RunID = ''r1'', ai_ActivityID = ''7'', ai_Attempt = 2\<rparr>"
  using keys_identify_executions
    [of "\<lparr>ai_WorkflowID = ''wf/1'', ai_RunID = ''r1'', ai_ActivityID = ''7'', ai_Attempt = 1\<rparr>"
        "\<lparr>ai_WorkflowID = ''wf/1'', ai_RunID = ''r1'', ai_ActivityID = ''7'', ai_Attempt = 2\<rparr>"]
  by (simp add: slash_free_def)

text \<open>
  The keys are not unique beyond that: the run id is not part of them, so two runs of one
  workflow id share the keys of their n-th activities, and identifiers with slashes can collide
  across different workflows.
\<close>

theorem keys_collide:
  "IdempotencyKey (i\<lparr>ai_RunID := r\<rparr>) = IdempotencyKey i \<and>
   IdempotencyKeyNoRetry (i\<lparr>ai_RunID := r, ai_Attempt := n\<rparr>) = IdempotencyKeyNoRetry i \<and>
   IdempotencyKeyNoRetry (i\<lparr>ai_WorkflowID := w @ ''/'' @ a, ai_ActivityID := b\<rparr>) =
     IdempotencyKeyNoRetry (i\<lparr>ai_WorkflowID := w, ai_ActivityID := a @ ''/'' @ b\<rparr>)"
  by (simp add: IdempotencyKey_def IdempotencyKeyNoRetry_def)

end
