(* ===== verification/IdempotentExecution.thy ===== *)
theory IdempotentExecution
  imports ActivityErrors "HOL-Library.Finite_Map"
begin

text \<open>
  \<open>activity/idempotency_store.go\<close>: the store interface, \<open>ExecuteIdempotent\<close> and its two
  implementations, in memory and on Redis. The state \<open>'st\<close> is everything the calls can read and
  change: the store, the clock, and whatever the activity body touches.
\<close>

subsection \<open>The interface\<close>

text \<open>
  A value of the Go interface \<open>IdempotencyStore\<close> is the record of its two methods. \<open>Check\<close>
  returns the bytes (possibly nil), whether they were found, and an error.
\<close>

record 'st IdempotencyStore =
  Check :: "string \<Rightarrow> 'st \<Rightarrow> (bytes option \<times> bool \<times> go_error option) \<times> 'st"
  Record :: "string \<Rightarrow> bytes option \<Rightarrow> duration \<Rightarrow> 'st \<Rightarrow> go_error option \<times> 'st"

text \<open>
  \<open>encoding/json\<close> on the result type, which the caller chooses: \<open>Marshal\<close> may fail;
  \<open>Unmarshal\<close> writes into the value the result pointer points to and may leave it partly
  written when it fails.
\<close>

record 'r codec =
  Marshal :: "'r \<Rightarrow> bytes option"
  Unmarshal :: "bytes \<Rightarrow> 'r \<Rightarrow> bool \<times> 'r"

subsection \<open>Check, execute, record\<close>

definition DefaultTTL :: duration where
  "DefaultTTL = 7 * 24 * Hour"

text \<open>
  Step 1, after \<open>store.Check\<close>: whether the cached result is used, and the pointed-to value
  afterwards. The error of \<open>Check\<close> is not looked at. \<open>hasPtr\<close> is \<open>resultPtr != nil\<close>.
\<close>

definition use_cached ::
    "'r codec \<Rightarrow> bool \<Rightarrow> bytes option \<times> bool \<times> go_error option \<Rightarrow> 'r \<Rightarrow> bool \<times> 'r" where
  "use_cached J hasPtr res r =
     (case res of (data, found, err) \<Rightarrow>
        (case data of
           None \<Rightarrow> (False, r)
         | Some d \<Rightarrow>
             if \<not> found then (False, r)
             else if hasPtr then Unmarshal J d r
             else (True, r)))"

text \<open>Step 3: what is recorded; None when \<open>json.Marshal\<close> fails and nothing is.\<close>

definition encoded_result :: "'r codec \<Rightarrow> bool \<Rightarrow> 'r \<Rightarrow> bytes option" where
  "encoded_result J hasPtr r = (if hasPtr then Marshal J r else Some ''null'')"

definition ExecuteIdempotentWithTTL ::
    "'r codec \<Rightarrow> 'st IdempotencyStore \<Rightarrow> string \<Rightarrow> bool \<Rightarrow> duration \<Rightarrow>
     ('r \<Rightarrow> 'st \<Rightarrow> go_error option \<times> 'r \<times> 'st) \<Rightarrow> 'r \<Rightarrow> 'st \<Rightarrow> go_error option \<times> 'r \<times> 'st" where
  "ExecuteIdempotentWithTTL J store key hasPtr ttl fn r st =
     (case Check store key st of (res, st1) \<Rightarrow>
       (case use_cached J hasPtr res r of
          (True, r1) \<Rightarrow> (None, r1, st1)
        | (False, r1) \<Rightarrow>
            (case fn r1 st1 of
               (Some execErr, r2, st2) \<Rightarrow> (Some execErr, r2, st2)
             | (None, r2, st2) \<Rightarrow>
                 (case encoded_result J hasPtr r2 of
                    None \<Rightarrow> (None, r2, st2)
                  | Some data \<Rightarrow> (None, r2, snd (Record store key (Some data) ttl st2))))))"

definition ExecuteIdempotent ::
    "'r codec \<Rightarrow> 'st IdempotencyStore \<Rightarrow> string \<Rightarrow> bool \<Rightarrow>
     ('r \<Rightarrow> 'st \<Rightarrow> go_error option \<times> 'r \<times> 'st) \<Rightarrow> 'r \<Rightarrow> 'st \<Rightarrow> go_error option \<times> 'r \<times> 'st" where
  "ExecuteIdempotent J store key hasPtr fn r st =
     ExecuteIdempotentWithTTL J store key hasPtr DefaultTTL fn r st"

lemma use_cached_simps [simp]:
  "use_cached J hasPtr (None, found, err) r = (False, r)"
  "use_cached J hasPtr (data, False, err) r = (False, r)"
  "use_cached J True (Some d, True, err) r = Unmarshal J d r"
  "use_cached J False (Some d, True, err) r = (True, r)"
  by (auto simp: use_cached_def split: option.split)

text \<open>
  The attempts Temporal makes at one activity: each starts from the zero value \<open>r0\<close> of the
  result variable, after the rest of the world has moved by one of \<open>gs\<close>. The outcomes and the
  state after the last attempt.
\<close>

fun attempts ::
    "('r \<Rightarrow> 'st \<Rightarrow> go_error option \<times> 'r \<times> 'st) \<Rightarrow> 'r \<Rightarrow> ('st \<Rightarrow> 'st) list \<Rightarrow> 'st \<Rightarrow>
     (go_error option \<times> 'r) list \<times> 'st" where
  "attempts run r0 [] st = ([], st)"
| "attempts run r0 (g # gs) st =
     (case run r0 (g st) of (e, r, st1) \<Rightarrow>
       (case attempts run r0 gs st1 of (outs, st2) \<Rightarrow> ((e, r) # outs, st2)))"

subsection \<open>What no store can break\<close>

lemma execute_error_is_body_error:
  assumes "ExecuteIdempotentWithTTL J store key hasPtr ttl fn r st = (Some e, r', st')"
  shows "\<exists>r1 st1. fn r1 st1 = (Some e, r', st')"
  using assms
  by (auto simp: ExecuteIdempotentWithTTL_def split: prod.splits bool.splits option.splits)

lemma execute_body_error:
  assumes "Check store key st = (res, st1)" and "use_cached J hasPtr res r = (False, r1)"
    and "fn r1 st1 = (Some e, r2, st2)"
  shows "ExecuteIdempotentWithTTL J store key hasPtr ttl fn r st = (Some e, r2, st2)"
  using assms by (simp add: ExecuteIdempotentWithTTL_def)

lemma execute_body_ok:
  assumes "Check store key st = (res, st1)" and "use_cached J hasPtr res r = (False, r1)"
    and "fn r1 st1 = (None, r2, st2)"
  shows "ExecuteIdempotentWithTTL J store key hasPtr ttl fn r st =
    (None, r2, (case encoded_result J hasPtr r2 of None \<Rightarrow> st2
                | Some d \<Rightarrow> snd (Record store key (Some d) ttl st2)))"
  using assms by (simp add: ExecuteIdempotentWithTTL_def split: option.split)

lemma execute_hit:
  assumes "Check store key st = (res, st1)" and "use_cached J hasPtr res r = (True, r1)"
  shows "ExecuteIdempotentWithTTL J store key hasPtr ttl fn r st = (None, r1, st1)"
  using assms by (simp add: ExecuteIdempotentWithTTL_def)

subsection \<open>The contract of a store\<close>

text \<open>
  \<open>held st key\<close> is the record the store would hand out for \<open>key\<close> in state \<open>st\<close>. The interface
  comment promises: \<open>Check\<close> returns the recorded result or reports none, and \<open>Record\<close> makes it
  the recorded one. Either may fail, with an error that says so.
\<close>

locale idempotency_store =
  fixes S :: "'st IdempotencyStore"
    and held :: "'st \<Rightarrow> string \<Rightarrow> bytes option"
  assumes check_sound: "Check S k st = ((Some d, True, err), st') \<Longrightarrow> held st k = Some d"
    and check_complete:
      "Check S k st = ((data, found, None), st') \<Longrightarrow> held st k = Some d \<Longrightarrow> found \<and> data = Some d"
    and check_error: "Check S k st = ((data, found, Some e), st') \<Longrightarrow> \<not> found"
    and check_keeps: "Check S k st = (res, st') \<Longrightarrow> held st' = held st"
    and record_stores:
      "Record S k (Some d) ttl st = (None, st') \<Longrightarrow> 0 < ttl \<Longrightarrow> held st' = (held st)(k \<mapsto> d)"
    and record_frame: "Record S k data ttl st = (err, st') \<Longrightarrow> k' \<noteq> k \<Longrightarrow> held st' k' = held st k'"
begin

lemma miss_runs_body:
  assumes "held st key = None" and "Check S key st = (res, st1)"
  shows "use_cached J hasPtr res r = (False, r)"
proof -
  obtain data found err where res: "res = (data, found, err)" by (cases res)
  have "data = None \<or> \<not> found"
    using assms check_sound [of key st _ err st1] res by (cases data; cases found) auto
  then show ?thesis using res by (cases data; cases found) auto
qed

lemma hit_uses_record:
  assumes "held st key = Some d" and "Check S key st = ((data, found, None), st1)"
    and "Unmarshal J d r = (True, r1)"
  shows "ExecuteIdempotentWithTTL J S key True ttl fn r st = (None, r1, st1)"
  using assms check_complete [OF assms(2,1)] by (intro execute_hit) auto

lemma other_keys_untouched:
  assumes "ExecuteIdempotentWithTTL J S key hasPtr ttl fn r st = (e, r', st')"
    and "k \<noteq> key" and "\<And>r st. held (snd (snd (fn r st))) k = held st k"
  shows "held st' k = held st k"
proof -
  obtain res st1 where chk: "Check S key st = (res, st1)" by fastforce
  obtain b r1 where uc: "use_cached J hasPtr res r = (b, r1)" by fastforce
  obtain fe r2 st2 where fn: "fn r1 st1 = (fe, r2, st2)" by (cases "fn r1 st1") auto
  have keeps: "held st1 k = held st k" using check_keeps [OF chk] by simp
  have body: "held st2 k = held st1 k" using assms(3) [of r1 st1] fn by simp
  have rec: "held (snd (Record S key (Some d) ttl st2)) k = held st2 k" for d
    using record_frame [of key "Some d" ttl st2 _ _ k] assms(2)
    by (cases "Record S key (Some d) ttl st2") auto
  from assms(1) chk uc fn keeps body rec show ?thesis
    by (auto simp: ExecuteIdempotentWithTTL_def split: bool.splits option.splits)
qed

end

text \<open>A store whose calls never fail.\<close>

locale reliable_store = idempotency_store +
  assumes check_ok: "\<exists>data found st'. Check S k st = ((data, found, None), st')"
    and check_state: "snd (Check S k st) = st"
    and record_ok: "fst (Record S k data ttl st) = None"
begin

lemma check_eq:
  "\<exists>data found. Check S k st = ((data, found, None), st)"
  using check_ok [of k st] check_state [of k st] by auto

lemma success_is_recorded:
  assumes miss: "held st key = None" and ttl: "0 < ttl"
    and run: "ExecuteIdempotentWithTTL J S key hasPtr ttl fn r st = (None, r1, st1)"
    and enc: "encoded_result J hasPtr r1 = Some d"
  shows "held st1 key = Some d"
proof -
  obtain res where chk: "Check S key st = (res, st)" using check_eq by blast
  have uc: "use_cached J hasPtr res r = (False, r)" by (rule miss_runs_body [OF miss chk])
  obtain fe r2 st2 where fn: "fn r st = (fe, r2, st2)" by (cases "fn r st") auto
  with run chk uc have "fe = None" by (cases fe) (auto simp: ExecuteIdempotentWithTTL_def)
  with run execute_body_ok [OF chk uc] fn enc
  have "r1 = r2" and "st1 = snd (Record S key (Some d) ttl st2)" by auto
  moreover obtain e st3 where "Record S key (Some d) ttl st2 = (e, st3)" by fastforce
  ultimately show ?thesis
    using record_stores [of key d ttl st2 st3] record_ok [of key "Some d" ttl st2] ttl by simp
qed

lemma hit_skips_body:
  assumes "held st key = Some d" and "Unmarshal J d r = (True, r1)"
  shows "ExecuteIdempotentWithTTL J S key True ttl fn r st = (None, r1, st)"
  using assms check_eq [of key st] by (auto intro: hit_uses_record)

lemma attempts_hit:
  assumes "held st key = Some d" and "Unmarshal J d r0 = (True, r1)"
    and "\<And>g st. g \<in> set gs \<Longrightarrow> held st key = Some d \<Longrightarrow> held (g st) key = Some d"
  shows "attempts (ExecuteIdempotentWithTTL J S key True ttl fn) r0 gs st =
    (replicate (length gs) (None, r1), fold (\<lambda>g. g) gs st)"
  using assms
proof (induction gs arbitrary: st)
  case Nil
  then show ?case by simp
next
  case (Cons g gs)
  then have "held (g st) key = Some d" by simp
  with Cons show ?case by (simp add: hit_skips_body)
qed

end

end
