(* ===== verification/IdempotencyBackends.thy ===== *)
theory IdempotencyBackends
  imports IdempotentExecution
begin

text \<open>
  The two implementations of the store interface in \<open>activity/idempotency_store.go\<close>: the
  in-memory store with expiring entries, and the Redis store over a client that is a parameter.
  Each is shown to keep the contract of \<^theory_text>\<open>IdempotentExecution\<close>, so that the facts about
  \<open>ExecuteIdempotent\<close> hold for it.
\<close>

subsection \<open>In memory\<close>

record memEntry =
  data :: "bytes option"
  expiresAt :: time

text \<open>
  The store's map, with the process clock that \<open>time.Now()\<close> reads. Every method takes the lock
  for its whole body, so one call is one step. Further fields are the rest of the world.
\<close>

record InMemoryIdempotencyStore =
  entries :: "(string, memEntry) fmap"
  clock :: time

definition NewInMemoryIdempotencyStore :: "time \<Rightarrow> InMemoryIdempotencyStore" where
  "NewInMemoryIdempotencyStore now = \<lparr>entries = fmempty, clock = now\<rparr>"

definition mem_Check ::
    "string \<Rightarrow> 'e InMemoryIdempotencyStore_scheme \<Rightarrow>
     (bytes option \<times> bool \<times> go_error option) \<times> 'e InMemoryIdempotencyStore_scheme" where
  "mem_Check key w =
     (case fmlookup (entries w) key of
        None \<Rightarrow> ((None, False, None), w)
      | Some entry \<Rightarrow>
          if time_After (clock w) (expiresAt entry) then ((None, False, None), w)
          else ((data entry, True, None), w))"

definition mem_Record ::
    "string \<Rightarrow> bytes option \<Rightarrow> duration \<Rightarrow> 'e InMemoryIdempotencyStore_scheme \<Rightarrow>
     go_error option \<times> 'e InMemoryIdempotencyStore_scheme" where
  "mem_Record key result ttl w =
     (None, w\<lparr>entries := fmupd key \<lparr>data = result, expiresAt = time_Add (clock w) ttl\<rparr> (entries w)\<rparr>)"

definition mem_Flush ::
    "'e InMemoryIdempotencyStore_scheme \<Rightarrow> 'e InMemoryIdempotencyStore_scheme" where
  "mem_Flush w = w\<lparr>entries := fmempty\<rparr>"

definition mem_Len :: "'e InMemoryIdempotencyStore_scheme \<Rightarrow> nat" where
  "mem_Len w = fcard (fmdom (entries w))"

definition mem_store :: "'e InMemoryIdempotencyStore_scheme IdempotencyStore" where
  "mem_store = \<lparr>Check = mem_Check, Record = mem_Record\<rparr>"

text \<open>The record the store hands out for a key at this moment.\<close>

definition mem_held :: "'e InMemoryIdempotencyStore_scheme \<Rightarrow> string \<Rightarrow> bytes option" where
  "mem_held w key =
     (case fmlookup (entries w) key of
        None \<Rightarrow> None
      | Some entry \<Rightarrow> if time_After (clock w) (expiresAt entry) then None else data entry)"

lemmas mem_defs = mem_store_def mem_Check_def mem_Record_def mem_held_def time_After_def time_Add_def

interpretation mem: reliable_store mem_store mem_held
proof unfold_locales
  fix k d ttl and st st' :: "'e InMemoryIdempotencyStore_scheme"
  assume "Record mem_store k (Some d) ttl st = (None, st')" and "0 < ttl"
  then show "mem_held st' = (mem_held st)(k \<mapsto> d)" by (auto simp: mem_defs fun_eq_iff split: option.split)
qed (auto simp: mem_defs fun_eq_iff split: option.splits if_splits)

lemma mem_Len_Record:
  "mem_Len (snd (mem_Record key result ttl w)) =
     (if key |\<in>| fmdom (entries w) then mem_Len w else Suc (mem_Len w))"
  by (simp add: mem_Len_def mem_Record_def fcard_finsert_if)

text \<open>Time passes, by a list of waits.\<close>

definition advance :: "duration \<Rightarrow> 'e InMemoryIdempotencyStore_scheme \<Rightarrow> 'e InMemoryIdempotencyStore_scheme" where
  "advance d w = w\<lparr>clock := clock w + d\<rparr>"

lemma advance_simps [simp]:
  "entries (advance d w) = entries w" "clock (advance d w) = clock w + d"
  by (simp_all add: advance_def)

lemma fold_advance: "fold advance ds w = advance (sum_list ds) w"
  by (induction ds arbitrary: w) (simp_all add: advance_def add.assoc)

lemma attempts_within_ttl:
  assumes "fmlookup (entries w) key = Some \<lparr>data = Some b, expiresAt = t\<rparr>"
    and "Unmarshal J b r0 = (True, r1)" and "\<forall>d \<in> set ds. 0 \<le> d" and "clock w + sum_list ds \<le> t"
  shows "attempts (ExecuteIdempotentWithTTL J mem_store key True ttl fn) r0 (map advance ds) w =
    (replicate (length ds) (None, r1), advance (sum_list ds) w)"
  using assms
proof (induction ds arbitrary: w)
  case Nil
  then show ?case by (simp add: advance_def)
next
  case (Cons d ds)
  have nonneg: "0 \<le> sum_list ds" using Cons.prems(3) by (intro sum_list_nonneg) auto
  then have "mem_held (advance d w) key = Some b"
    using Cons.prems by (simp add: mem_defs)
  then have "ExecuteIdempotentWithTTL J mem_store key True ttl fn r0 (advance d w) =
      (None, r1, advance d w)"
    using Cons.prems(2) by (rule mem.hit_skips_body)
  moreover have "attempts (ExecuteIdempotentWithTTL J mem_store key True ttl fn) r0 (map advance ds)
      (advance d w) = (replicate (length ds) (None, r1), advance (sum_list ds) (advance d w))"
    using Cons.prems by (intro Cons.IH) (auto simp: add.assoc)
  moreover have "advance (sum_list ds) (advance d w) = advance (sum_list (d # ds)) w"
    by (simp add: advance_def add.assoc)
  ultimately show ?case by simp
qed

subsection \<open>On Redis\<close>

text \<open>
  A value of the interface \<open>RedisClient\<close>. \<open>Get\<close> returns a string or an error.
\<close>

record 'st RedisClient =
  rc_Get :: "string \<Rightarrow> 'st \<Rightarrow> (go_error + string) \<times> 'st"
  rc_Set :: "string \<Rightarrow> string \<Rightarrow> duration \<Rightarrow> 'st \<Rightarrow> go_error option \<times> 'st"

definition ErrRedisNil :: string where
  "ErrRedisNil = ''redis: nil''"

record 'st RedisIdempotencyStore =
  client :: "'st RedisClient"
  keyPrefix :: string

definition NewRedisIdempotencyStore :: "'st RedisClient \<Rightarrow> string \<Rightarrow> 'st RedisIdempotencyStore" where
  "NewRedisIdempotencyStore cl prefix = \<lparr>client = cl, keyPrefix = prefix\<rparr>"

definition redisKey :: "'st RedisIdempotencyStore \<Rightarrow> string \<Rightarrow> string" where
  "redisKey s key = keyPrefix s @ '':idem:'' @ key"

definition redis_Check ::
    "app_text \<Rightarrow> 'st RedisIdempotencyStore \<Rightarrow> string \<Rightarrow> 'st \<Rightarrow>
     (bytes option \<times> bool \<times> go_error option) \<times> 'st" where
  "redis_Check tx s key st =
     (case rc_Get (client s) (redisKey s key) st of
        (Inl err, st') \<Rightarrow>
          if error_text tx err = ErrRedisNil then ((None, False, None), st')
          else ((None, False, Some (WrapError ''idempotency store check: '' err)), st')
      | (Inr val, st') \<Rightarrow> ((Some val, True, None), st'))"

text \<open>\<open>string(result)\<close> of a nil slice is the empty string.\<close>

definition bytes_string :: "bytes option \<Rightarrow> string" where
  "bytes_string result = (case result of None \<Rightarrow> '''' | Some b \<Rightarrow> b)"

definition redis_Record ::
    "'st RedisIdempotencyStore \<Rightarrow> string \<Rightarrow> bytes option \<Rightarrow> duration \<Rightarrow> 'st \<Rightarrow>
     go_error option \<times> 'st" where
  "redis_Record s key result ttl st =
     (case rc_Set (client s) (redisKey s key) (bytes_string result) ttl st of
        (Some err, st') \<Rightarrow> (Some (WrapError ''idempotency store record: '' err), st')
      | (None, st') \<Rightarrow> (None, st'))"

definition redis_store :: "app_text \<Rightarrow> 'st RedisIdempotencyStore \<Rightarrow> 'st IdempotencyStore" where
  "redis_store tx s = \<lparr>Check = redis_Check tx s, Record = redis_Record s\<rparr>"

text \<open>
  What go-redis documents of \<open>Get\<close> and \<open>Set\<close>, where \<open>contents\<close> is what the server holds: \<open>Get\<close>
  changes nothing and returns the value, the error "redis: nil" when there is none, or another
  error; a successful \<open>Set\<close> with a positive expiration stores the value, a failed one touches no
  other key.
\<close>

definition redis_documented ::
    "app_text \<Rightarrow> 'st RedisClient \<Rightarrow> ('st \<Rightarrow> string \<Rightarrow> string option) \<Rightarrow> bool" where
  "redis_documented tx c contents \<longleftrightarrow>
     (\<forall>k st. contents (snd (rc_Get c k st)) = contents st) \<and>
     (\<forall>k v st. fst (rc_Get c k st) = Inr v \<longrightarrow> contents st k = Some v) \<and>
     (\<forall>k e st. fst (rc_Get c k st) = Inl e \<and> error_text tx e = ErrRedisNil \<longrightarrow> contents st k = None) \<and>
     (\<forall>k v ttl st. 0 < ttl \<and> fst (rc_Set c k v ttl st) = None \<longrightarrow>
        contents (snd (rc_Set c k v ttl st)) = (contents st)(k \<mapsto> v)) \<and>
     (\<forall>k k' v ttl st. k' \<noteq> k \<longrightarrow> contents (snd (rc_Set c k v ttl st)) k' = contents st k')"

lemma redisKey_inject [simp]: "redisKey s k = redisKey s k' \<longleftrightarrow> k = k'"
  by (simp add: redisKey_def)

lemma redis_documentedD:
  assumes "redis_documented tx c contents"
  shows "rc_Get c k st = (r, st') \<Longrightarrow> contents st' = contents st"
    and "rc_Get c k st = (Inr v, st') \<Longrightarrow> contents st k = Some v"
    and "rc_Get c k st = (Inl e, st') \<Longrightarrow> error_text tx e = ErrRedisNil \<Longrightarrow> contents st k = None"
    and "rc_Set c k v ttl st = (None, st') \<Longrightarrow> 0 < ttl \<Longrightarrow> contents st' = (contents st)(k \<mapsto> v)"
    and "rc_Set c k v ttl st = (err, st') \<Longrightarrow> k' \<noteq> k \<Longrightarrow> contents st' k' = contents st k'"
  using assms unfolding redis_documented_def by (metis fst_conv snd_conv)+

lemma redis_other_keys:
  assumes "redis_documented tx (client s) contents" and "k' \<noteq> k"
    and "rc_Set (client s) (redisKey s k) v ttl st = (err, st')"
  shows "contents st' (redisKey s k') = contents st (redisKey s k')"
  using redis_documentedD(5) [OF assms(1,3)] assms(2) by simp

text \<open>Over such a client the Redis store keeps the contract.\<close>

lemma redis_store_contract:
  assumes "redis_documented tx (client s) contents"
  shows "idempotency_store (redis_store tx s) (\<lambda>st key. contents st (redisKey s key))"
  by unfold_locales
    (auto simp: redis_store_def redis_Check_def redis_Record_def bytes_string_def fun_eq_iff
      dest: redis_documentedD(1-4) [OF assms] redis_other_keys [OF assms] split: sum.splits prod.splits option.splits if_splits)

subsection \<open>Properties\<close>

lemma mem_Check_held:
  "Check mem_store key w = (res, w') \<Longrightarrow> w' = w \<and>
    use_cached J True res r =
      (case mem_held w key of None \<Rightarrow> (False, r) | Some b \<Rightarrow> Unmarshal J b r)"
  by (auto simp: mem_defs split: option.splits if_splits)

lemma mem_entry_after_success:
  assumes miss: "mem_held w key = None"
    and run: "ExecuteIdempotentWithTTL J mem_store key True ttl fn r w = (None, r1, w1)"
    and enc: "Marshal J r1 = Some b"
  shows "fmlookup (entries w1) key = Some \<lparr>data = Some b, expiresAt = clock w1 + ttl\<rparr>"
proof -
  obtain res where chk: "Check mem_store key w = (res, w)" using mem.check_eq by blast
  have uc: "use_cached J True res r = (False, r)" by (rule mem.miss_runs_body [OF miss chk])
  obtain fe r2 w2 where fn: "fn r w = (fe, r2, w2)" by (cases "fn r w") auto
  with run chk uc have "fe = None" by (cases fe) (auto simp: ExecuteIdempotentWithTTL_def)
  with fn have "r1 = r2" and "w1 = snd (Record mem_store key (Some b) ttl w2)"
    using run execute_body_ok [OF chk uc] enc
    by (auto simp: encoded_result_def)
  then show ?thesis by (simp add: mem_defs)
qed

text \<open>
  C11. Once an execution on the in-memory store has succeeded, every later attempt within the
  time to live returns its result, and no attempt runs the activity body again or changes
  anything but the clock: the body of the later attempts, \<open>fn'\<close>, is arbitrary and does not
  occur in the outcome.
\<close>

theorem retries_return_first_result:
  assumes "mem_held w key = None"
    and "ExecuteIdempotentWithTTL J mem_store key True ttl fn r0 w = (None, r1, w1)"
    and "Marshal J r1 = Some b" and "Unmarshal J b r0 = (True, r1)"
    and "list_all (\<lambda>d. 0 \<le> d) waits" and "sum_list waits \<le> ttl"
  shows "attempts (ExecuteIdempotentWithTTL J mem_store key True ttl fn') r0 (map advance waits) w1 =
    (replicate (length waits) (None, r1), advance (sum_list waits) w1)"
  using assms mem_entry_after_success [OF assms(1-3)]
  by (intro attempts_within_ttl) (auto simp: list_all_iff)

definition text_codec :: "string codec" where
  "text_codec = \<lparr>Marshal = Some, Unmarshal = (\<lambda>b r. (True, b))\<rparr>"

definition empty_store :: InMemoryIdempotencyStore where
  "empty_store = NewInMemoryIdempotencyStore 0"

theorem retries_return_first_result_witness:
  "attempts (ExecuteIdempotentWithTTL text_codec mem_store ''k'' True 10 (\<lambda>r w. (None, ''tx-2'', w)))
     [] (map advance [4, 6])
     \<lparr>entries = fmupd ''k'' \<lparr>data = Some ''tx-1'', expiresAt = 10\<rparr> fmempty, clock = 0\<rparr>
   = ([(None, ''tx-1''), (None, ''tx-1'')],
      \<lparr>entries = fmupd ''k'' \<lparr>data = Some ''tx-1'', expiresAt = 10\<rparr> fmempty, clock = 10\<rparr>)"
proof -
  have miss: "mem_held empty_store ''k'' = None"
    by (simp add: mem_held_def empty_store_def NewInMemoryIdempotencyStore_def)
  have run: "ExecuteIdempotentWithTTL text_codec mem_store ''k'' True 10
       (\<lambda>r w. (None, ''tx-1'', w)) [] empty_store =
     (None, ''tx-1'', \<lparr>entries = fmupd ''k'' \<lparr>data = Some ''tx-1'', expiresAt = 10\<rparr> fmempty, clock = 0\<rparr>)"
    by (simp add: ExecuteIdempotentWithTTL_def mem_defs empty_store_def NewInMemoryIdempotencyStore_def
        encoded_result_def text_codec_def)
  show ?thesis
    using retries_return_first_result [OF miss run, of "''tx-1''" "[4, 6]"]
    by (simp add: text_codec_def advance_def numeral_2_eq_2)
qed

text \<open>
  What \<open>ExecuteIdempotentWithTTL\<close> does on the in-memory store, on every branch: a live record
  that decodes is the result; otherwise (no record, expired, nil or corrupt data) the body runs,
  from the value the decoder left behind; an error of the body is returned and nothing is
  recorded; a success is recorded until the clock passes \<open>ttl\<close>, unless it cannot be encoded.
\<close>

theorem execute_on_memory_store:
  "ExecuteIdempotentWithTTL J mem_store key True ttl fn r w =
     (let body = (\<lambda>r1. case fn r1 w of
            (Some e, r2, w2) \<Rightarrow> (Some e, r2, w2)
          | (None, r2, w2) \<Rightarrow> (None, r2, case Marshal J r2 of None \<Rightarrow> w2
              | Some b \<Rightarrow> w2\<lparr>entries := fmupd key \<lparr>data = Some b, expiresAt = clock w2 + ttl\<rparr> (entries w2)\<rparr>))
      in case mem_held w key of
           None \<Rightarrow> body r
         | Some b \<Rightarrow> (case Unmarshal J b r of (True, r1) \<Rightarrow> (None, r1, w) | (False, r1) \<Rightarrow> body r1))"
proof -
  obtain res where chk: "Check mem_store key w = (res, w)" using mem.check_eq by blast
  have rec: "snd (Record mem_store key (Some b) ttl w2) =
      w2\<lparr>entries := fmupd key \<lparr>data = Some b, expiresAt = clock w2 + ttl\<rparr> (entries w2)\<rparr>" for b w2
    by (simp add: mem_defs)
  show ?thesis
    using mem_Check_held [OF chk, of J r] chk
    by (auto simp: ExecuteIdempotentWithTTL_def encoded_result_def Let_def rec
        split: option.split prod.split bool.split)
qed

text \<open>
  C37. What a store can do to the caller of \<open>ExecuteIdempotent\<close>, any store at all. If it answers found,
  with bytes, and they decode where a result is wanted, then the call returns without error, the result
  is what they decode to, and the body does not run: bytes that are wrong but decode are
  believed. In every other case, an error of \<open>Check\<close>, a miss or bytes that do not decode, the body runs
  (after bytes that do not decode, on what the decoder left), and the error and the result returned are
  those of the body, whatever \<open>Record\<close> answers or does: no error of the store is ever returned.
\<close>

theorem store_failures_never_surface:
  assumes "Check S key st = ((dat, found, err), st1)"
    and "ExecuteIdempotent J S key hasPtr fn r st = (e, r', st')"
  shows "if found \<and> dat \<noteq> None \<and> (hasPtr \<longrightarrow> fst (Unmarshal J (the dat) r))
    then e = None \<and> r' = (if hasPtr then snd (Unmarshal J (the dat) r) else r) \<and> st' = st1
    else (let (e2, r2, st2) = fn (if found \<and> dat \<noteq> None \<and> hasPtr then snd (Unmarshal J (the dat) r) else r) st1 in
      e = e2 \<and> r' = r2)"
  using assms
  by (cases dat; cases found; cases hasPtr)
    (auto simp: ExecuteIdempotent_def ExecuteIdempotentWithTTL_def use_cached_def
      split: prod.splits option.splits bool.splits if_splits)

text \<open>A store whose calls all fail.\<close>

definition broken_store :: "nat IdempotencyStore" where
  "broken_store = \<lparr>Check = (\<lambda>k n. ((None, False, Some (ErrorString ''down'')), n)),
     Record = (\<lambda>k d ttl n. (Some (ErrorString ''down''), n))\<rparr>"

theorem store_failures_never_surface_witness:
  "\<exists>n. ExecuteIdempotent text_codec broken_store ''wf/1'' True (\<lambda>r n. (None, ''tx'', Suc n)) [] 0 = (None, ''tx'', n)"
proof -
  let ?body = "\<lambda>r n. (None :: go_error option, ''tx'', Suc n)"
  obtain e r' n where run: "ExecuteIdempotent text_codec broken_store ''wf/1'' True ?body [] 0 = (e, r', n)"
    by (metis prod_cases3)
  have "Check broken_store ''wf/1'' 0 = ((None, False, Some (ErrorString ''down'')), 0)"
    by (simp add: broken_store_def)
  from store_failures_never_surface [OF this run] run show ?thesis by simp
qed

text \<open>
  On Redis, over a client that behaves as documented: a result that was recorded without
  error is what a later \<open>Check\<close> without error returns, as long as nobody else writes the key;
  and a record under one key never changes what is held under another.
\<close>

theorem redis_record_check:
  assumes "redis_documented tx (client s) contents"
    and "redis_Record s key (Some b) ttl st = (None, st1)" and "0 < ttl"
    and "contents st2 (redisKey s key) = contents st1 (redisKey s key)"
    and "snd (snd (fst (redis_Check tx s key st2))) = None"
  shows "fst (redis_Check tx s key st2) = (Some b, True, None) \<and>
    (k' = key \<or> contents st1 (redisKey s k') = contents st (redisKey s k'))"
proof -
  note store = redis_store_contract [OF assms(1)]
  have rec: "Record (redis_store tx s) key (Some b) ttl st = (None, st1)"
    using assms(2) by (simp add: redis_store_def)
  have "contents st1 (redisKey s key) = Some b"
    using idempotency_store.record_stores [OF store rec assms(3)] by (metis fun_upd_same)
  with assms(4) have "contents st2 (redisKey s key) = Some b" by simp
  with assms(5) have "fst (redis_Check tx s key st2) = (Some b, True, None)"
    using idempotency_store.check_complete [OF store, of key st2 _ _ _ b]
    by (cases "redis_Check tx s key st2") (auto simp: redis_store_def)
  with idempotency_store.record_frame [OF store rec] show ?thesis by blast
qed

definition map_client :: "(string \<rightharpoonup> string) RedisClient" where
  "map_client = \<lparr>rc_Get = (\<lambda>k m. (case m k of None \<Rightarrow> Inl (ErrorString ErrRedisNil) | Some v \<Rightarrow> Inr v, m)),
                 rc_Set = (\<lambda>k v ttl m. (None, m(k \<mapsto> v)))\<rparr>"

lemma map_client_documented: "redis_documented tx map_client (\<lambda>m. m)"
  by (auto simp: redis_documented_def map_client_def split: option.splits)

theorem redis_record_check_witness:
  "fst (redis_Check (\<lambda>m t n c. m) \<lparr>client = map_client, keyPrefix = ''loan''\<rparr> ''wf/1''
     [''loan:idem:wf/1'' \<mapsto> ''ok'']) = (Some ''ok'', True, None)"
proof -
  let ?s = "\<lparr>client = map_client, keyPrefix = ''loan''\<rparr>"
  have doc: "redis_documented (\<lambda>m t n c. m) (client ?s) (\<lambda>m. m)"
    by (simp add: map_client_documented)
  have rec: "redis_Record ?s ''wf/1'' (Some ''ok'') 5 Map.empty = (None, [''loan:idem:wf/1'' \<mapsto> ''ok''])"
    by (simp add: redis_Record_def redisKey_def map_client_def bytes_string_def)
  show ?thesis
    using redis_record_check [OF doc rec, of "[''loan:idem:wf/1'' \<mapsto> ''ok'']" "''wf/1''"]
    by (simp add: redis_Check_def redisKey_def map_client_def)
qed

end
