(* ===== verification/IdempotentConcurrency.thy ===== *)
theory IdempotentConcurrency
  imports IdempotencyBackends
begin

text \<open>
  Several calls of \<open>ExecuteIdempotentWithTTL\<close> (\<open>activity/idempotency_store.go\<close>) at once, on one
  store. The code takes no lock around its three parts, only each store call is atomic (the mutex
  of the in-memory store, one command of the Redis server). So a call is a machine of three
  turns (ask the store, run the body, record the result), and the execution of several calls is
  an interleaving of their turns, with steps of the rest of the world between them: time passes,
  records expire.
\<close>

subsection \<open>One call as a machine\<close>

text \<open>
  Where a call stands, with the value of its result variable; the bytes are those it is about to
  record.
\<close>

datatype 'r phase =
    CheckStore 'r
  | RunBody 'r
  | RecordResult 'r bytes
  | Finished "go_error option" 'r

record ('r, 'st) call =
  call_key :: string
  call_ptr :: bool
  call_ttl :: duration
  call_body :: "'r \<Rightarrow> 'st \<Rightarrow> go_error option \<times> 'r \<times> 'st"

text \<open>
  One turn of a call; None when it has returned. The body's effect on the shared state is one
  step, whatever it does outside the store is not.
\<close>

fun call_turn ::
    "'r codec \<Rightarrow> 'st IdempotencyStore \<Rightarrow> ('r, 'st) call \<Rightarrow> 'r phase \<Rightarrow> 'st \<Rightarrow> ('r phase \<times> 'st) option" where
  "call_turn J S c (CheckStore r) st =
     (case Check S (call_key c) st of (res, st1) \<Rightarrow>
       (case use_cached J (call_ptr c) res r of
          (True, r1) \<Rightarrow> Some (Finished None r1, st1)
        | (False, r1) \<Rightarrow> Some (RunBody r1, st1)))"
| "call_turn J S c (RunBody r) st =
     (case call_body c r st of
        (Some execErr, r2, st2) \<Rightarrow> Some (Finished (Some execErr) r2, st2)
      | (None, r2, st2) \<Rightarrow>
          (case encoded_result J (call_ptr c) r2 of
             None \<Rightarrow> Some (Finished None r2, st2)
           | Some d \<Rightarrow> Some (RecordResult r2 d, st2)))"
| "call_turn J S c (RecordResult r d) st =
     Some (Finished None r, snd (Record S (call_key c) (Some d) (call_ttl c) st))"
| "call_turn J S c (Finished err r) st = None"

text \<open>How many turns a call has left, at most.\<close>

fun turns_left :: "'r phase \<Rightarrow> nat" where
  "turns_left (CheckStore r) = 3"
| "turns_left (RunBody r) = 2"
| "turns_left (RecordResult r d) = 1"
| "turns_left (Finished err r) = 0"

lemma turns_left_0 [simp]: "turns_left p = 0 \<longleftrightarrow> (\<exists>err r. p = Finished err r)"
  by (cases p) auto

lemma turns_left_le: "turns_left p \<le> 3"
  by (cases p) auto

lemma call_turn_decreases: "call_turn J S c p st = Some (p', st') \<Longrightarrow> turns_left p' < turns_left p"
  by (cases p) (auto split: prod.splits bool.splits option.splits)

lemma call_turn_progress: "call_turn J S c p st = None \<longleftrightarrow> turns_left p = 0"
  by (cases p) (auto split: prod.splits bool.splits option.splits)

text \<open>What each turn can lead to.\<close>

lemma check_turnE:
  assumes "call_turn J S c (CheckStore r) st = Some (p, st')"
  obtains (hit) res r1 where "Check S (call_key c) st = (res, st')"
      "use_cached J (call_ptr c) res r = (True, r1)" "p = Finished None r1"
    | (miss) res r1 where "Check S (call_key c) st = (res, st')"
      "use_cached J (call_ptr c) res r = (False, r1)" "p = RunBody r1"
  using assms by (auto split: prod.splits bool.splits)

lemma body_turnE:
  assumes "call_turn J S c (RunBody r) st = Some (p, st')"
  obtains (failed) e r2 where "call_body c r st = (Some e, r2, st')" "p = Finished (Some e) r2"
    | (unencoded) r2 where "call_body c r st = (None, r2, st')"
      "encoded_result J (call_ptr c) r2 = None" "p = Finished None r2"
    | (encoded) r2 d where "call_body c r st = (None, r2, st')"
      "encoded_result J (call_ptr c) r2 = Some d" "p = RecordResult r2 d"
  using assms by (auto split: prod.splits option.splits)

subsection \<open>Interleavings\<close>

text \<open>
  The calls in progress and the shared state. \<open>Turn i\<close> lets call \<open>i\<close> make its next turn, if it
  has one; \<open>World g\<close> is a step of everything else.
\<close>

type_synonym ('r, 'st) calls = "(('r, 'st) call \<times> 'r phase) list"

datatype 'st event = Turn nat | World "'st \<Rightarrow> 'st"

fun run_event ::
    "'r codec \<Rightarrow> 'st IdempotencyStore \<Rightarrow> 'st event \<Rightarrow> ('r, 'st) calls \<times> 'st \<Rightarrow> ('r, 'st) calls \<times> 'st" where
  "run_event J S (Turn i) (cs, st) =
     (if i < length cs then
        (case call_turn J S (fst (cs ! i)) (snd (cs ! i)) st of
           None \<Rightarrow> (cs, st)
         | Some (p, st') \<Rightarrow> (cs[i := (fst (cs ! i), p)], st'))
      else (cs, st))"
| "run_event J S (World g) (cs, st) = (cs, g st)"

fun run_schedule ::
    "'r codec \<Rightarrow> 'st IdempotencyStore \<Rightarrow> 'st event list \<Rightarrow> ('r, 'st) calls \<times> 'st \<Rightarrow> ('r, 'st) calls \<times> 'st" where
  "run_schedule J S [] conf = conf"
| "run_schedule J S (ev # evs) conf = run_schedule J S evs (run_event J S ev conf)"

text \<open>The same as a relation; \<open>E\<close> says which steps of the world there are.\<close>

inductive interleaved ::
    "'r codec \<Rightarrow> 'st IdempotencyStore \<Rightarrow> ('st \<Rightarrow> 'st \<Rightarrow> bool) \<Rightarrow>
     ('r, 'st) calls \<times> 'st \<Rightarrow> ('r, 'st) calls \<times> 'st \<Rightarrow> bool"
  for J S E where
  turn: "i < length cs \<Longrightarrow> call_turn J S (fst (cs ! i)) (snd (cs ! i)) st = Some (p, st') \<Longrightarrow>
     interleaved J S E (cs, st) (cs[i := (fst (cs ! i), p)], st')"
| world: "E st st' \<Longrightarrow> interleaved J S E (cs, st) (cs, st')"

inductive_cases interleaved_cases: "interleaved J S E (cs, st) conf"

lemma run_schedule_append [simp]:
  "run_schedule J S (evs @ evs') conf = run_schedule J S evs' (run_schedule J S evs conf)"
  by (induction evs arbitrary: conf) auto

lemma length_run_event [simp]: "length (fst (run_event J S ev conf)) = length (fst conf)"
  by (cases conf; cases ev) (auto split: option.splits prod.splits)

lemma length_run_schedule [simp]: "length (fst (run_schedule J S evs conf)) = length (fst conf)"
  by (induction evs arbitrary: conf) auto

lemma run_event_interleaved:
  assumes "\<And>g st. ev = World g \<Longrightarrow> E st (g st)"
  shows "(interleaved J S E)\<^sup>*\<^sup>* conf (run_event J S ev conf)"
proof (cases conf; cases ev)
  fix cs st i
  assume "conf = (cs, st)" and "ev = Turn i"
  then show ?thesis
    by (auto intro: r_into_rtranclp interleaved.turn split: option.splits prod.splits)
next
  fix cs st g
  assume "conf = (cs, st)" and "ev = World g"
  then show ?thesis using assms by (auto intro: interleaved.world)
qed

text \<open>A schedule is one of the interleavings.\<close>

lemma run_schedule_interleaved:
  assumes "\<And>g st. World g \<in> set evs \<Longrightarrow> E st (g st)"
  shows "(interleaved J S E)\<^sup>*\<^sup>* conf (run_schedule J S evs conf)"
  using assms
proof (induction evs arbitrary: conf)
  case Nil
  then show ?case by simp
next
  case (Cons ev evs)
  have "(interleaved J S E)\<^sup>*\<^sup>* conf (run_event J S ev conf)"
    using Cons.prems by (intro run_event_interleaved) auto
  also have "(interleaved J S E)\<^sup>*\<^sup>* \<dots> (run_schedule J S evs (run_event J S ev conf))"
    using Cons.prems by (intro Cons.IH) auto
  finally show ?case by simp
qed

subsection \<open>Without overlap\<close>

lemma three_turns:
  assumes "i < length cs" and "cs ! i = (c, CheckStore r)"
  shows "run_schedule J S (replicate 3 (Turn i)) (cs, st) =
    (case ExecuteIdempotentWithTTL J S (call_key c) (call_ptr c) (call_ttl c) (call_body c) r st of
       (err, r', st') \<Rightarrow> (cs[i := (c, Finished err r')], st'))"
  using assms
  by (auto simp: numeral_3_eq_3 ExecuteIdempotentWithTTL_def split: prod.split bool.split option.split)

text \<open>The calls as the code makes them, one returning before the next begins.\<close>

fun one_by_one ::
    "'r codec \<Rightarrow> 'st IdempotencyStore \<Rightarrow> (('r, 'st) call \<times> 'r) list \<Rightarrow> 'st \<Rightarrow>
     ('r, 'st) calls \<times> 'st" where
  "one_by_one J S [] st = ([], st)"
| "one_by_one J S ((c, r) # cs) st =
     (case ExecuteIdempotentWithTTL J S (call_key c) (call_ptr c) (call_ttl c) (call_body c) r st of
        (err, r', st1) \<Rightarrow>
          (case one_by_one J S cs st1 of (done, st2) \<Rightarrow> ((c, Finished err r') # done, st2)))"

definition calls_started :: "(('r, 'st) call \<times> 'r) list \<Rightarrow> ('r, 'st) calls" where
  "calls_started cs = map (\<lambda>(c, r). (c, CheckStore r)) cs"

lemma calls_started_simps [simp]:
  "calls_started [] = []" "calls_started ((c, r) # cs) = (c, CheckStore r) # calls_started cs"
  "length (calls_started cs) = length cs"
  by (simp_all add: calls_started_def)

definition turns_of :: "nat \<Rightarrow> 'st event list" where
  "turns_of i = replicate 3 (Turn i)"

lemma one_by_one_from:
  "run_schedule J S (concat (map turns_of [length pre..<length pre + length cs])) (pre @ calls_started cs, st) =
     (case one_by_one J S cs st of (done, st') \<Rightarrow> (pre @ done, st'))"
proof (induction cs arbitrary: pre st)
  case Nil
  then show ?case by simp
next
  case (Cons cr cs)
  obtain c r where cr: "cr = (c, r)" by (cases cr)
  obtain err r' st1 where
    run: "ExecuteIdempotentWithTTL J S (call_key c) (call_ptr c) (call_ttl c) (call_body c) r st = (err, r', st1)"
    by (metis prod_cases3)
  have "run_schedule J S (turns_of (length pre)) (pre @ calls_started (cr # cs), st) =
      ((pre @ [(c, Finished err r')]) @ calls_started cs, st1)"
    unfolding turns_of_def
    by (subst three_turns [of _ _ c r]) (auto simp: run cr)
  moreover have "[length pre..<length pre + length (cr # cs)] =
      length pre # [length (pre @ [(c, Finished err r')])..<length (pre @ [(c, Finished err r')]) + length cs]"
    by (simp add: upt_rec)
  ultimately show ?case
    using Cons.IH [of "pre @ [(c, Finished err r')]" st1]
    by (simp add: cr run split: prod.split)
qed

text \<open>
  The machine is the code: when the calls do not overlap, the interleaved execution is exactly
  the calls of \<open>ExecuteIdempotentWithTTL\<close> one after the other, with the same results and the same
  final state, whatever the store does.
\<close>

theorem serial_schedule_is_the_code:
  "run_schedule J S (concat (map turns_of [0..<length cs])) (calls_started cs, st) = one_by_one J S cs st"
  using one_by_one_from [of J S "[]" cs st] by (simp split: prod.split)

subsection \<open>Every call returns\<close>

definition turns_given :: "nat \<Rightarrow> 'st event list \<Rightarrow> nat" where
  "turns_given i evs = length (filter (\<lambda>ev. case ev of Turn j \<Rightarrow> j = i | World g \<Rightarrow> False) evs)"

lemma turns_given_simps [simp]:
  "turns_given i [] = 0"
  "turns_given i (Turn j # evs) = (if j = i then Suc (turns_given i evs) else turns_given i evs)"
  "turns_given i (World g # evs) = turns_given i evs"
  by (simp_all add: turns_given_def)

definition left_at :: "('r, 'st) calls \<times> 'st \<Rightarrow> nat \<Rightarrow> nat" where
  "left_at conf i = turns_left (snd (fst conf ! i))"

lemma left_at_event:
  assumes "i < length (fst conf)"
  shows "left_at (run_event J S ev conf) i \<le>
    left_at conf i - (case ev of Turn j \<Rightarrow> if j = i then 1 else 0 | World g \<Rightarrow> 0)"
proof (cases conf)
  case (Pair cs st)
  show ?thesis
  proof (cases ev)
    case (World g)
    then show ?thesis by (simp add: Pair left_at_def)
  next
    case (Turn j)
    show ?thesis
    proof (cases "j < length cs")
      case False
      then show ?thesis using assms by (auto simp: Turn Pair left_at_def)
    next
      case True
      then show ?thesis
        using call_turn_progress [of J S "fst (cs ! j)" "snd (cs ! j)" st]
        by (cases "i = j")
          (auto simp: Turn Pair left_at_def split: option.split dest!: call_turn_decreases)
    qed
  qed
qed

lemma left_at_schedule:
  assumes "i < length (fst conf)"
  shows "left_at (run_schedule J S evs conf) i \<le> left_at conf i - turns_given i evs"
  using assms
proof (induction evs arbitrary: conf)
  case Nil
  then show ?case by simp
next
  case (Cons ev evs)
  have "left_at (run_schedule J S (ev # evs) conf) i \<le>
      left_at (run_event J S ev conf) i - turns_given i evs"
    using Cons.IH [of "run_event J S ev conf"] Cons.prems by simp
  also have "\<dots> \<le> left_at conf i - turns_given i (ev # evs)"
    using left_at_event [OF Cons.prems, of J S ev] by (cases ev) (auto split: if_splits)
  finally show ?case .
qed

text \<open>
  No call waits for another: under every interleaving, with any store, any bodies and any
  steps of the world between, a call that has been given three turns has returned.
\<close>

theorem every_call_returns:
  assumes "i < length cs" and "3 \<le> turns_given i evs"
  shows "\<exists>err r. snd (fst (run_schedule J S evs (cs, st)) ! i) = Finished err r"
proof -
  have "left_at (run_schedule J S evs (cs, st)) i \<le> left_at (cs, st) i - turns_given i evs"
    using assms(1) by (intro left_at_schedule) simp
  also have "\<dots> = 0"
    using turns_left_le [of "snd (cs ! i)"] assms(2) by (simp add: left_at_def)
  finally show ?thesis by (simp add: left_at_def)
qed

definition all_left :: "('r, 'st) calls \<times> 'st \<Rightarrow> nat" where
  "all_left conf = sum_list (map (turns_left \<circ> snd) (fst conf))"

lemma interleaved_decreases:
  assumes "interleaved J S (\<lambda>_ _. False) conf conf'"
  shows "all_left conf' < all_left conf"
  using assms
proof cases
  case (turn i cs st p st')
  have "sum_list (map (turns_left \<circ> snd) (cs[i := (fst (cs ! i), p)])) <
      sum_list (map (turns_left \<circ> snd) cs)"
    using turn(3) call_turn_decreases [OF turn(4)]
    by (subst id_take_nth_drop [OF turn(3)], subst upd_conv_take_nth_drop [OF turn(3)]) simp
  with turn show ?thesis by (simp add: all_left_def)
qed auto

text \<open>
  The interleaving terminates and never blocks: the calls' own turns cannot go on for ever,
  and when no turn is possible every call has returned.
\<close>

theorem interleaving_terminates:
  "wf {(conf', conf). interleaved J S (\<lambda>_ _. False) conf conf'} \<and>
   ((\<nexists>conf. interleaved J S (\<lambda>_ _. False) (cs, st) conf) =
     list_all (\<lambda>(c, p). turns_left p = 0) cs)"
proof
  show "wf {(conf', conf). interleaved J S (\<lambda>_ _. False) conf conf'}"
    by (rule wf_subset [OF wf_measure [of all_left]]) (auto dest: interleaved_decreases)
  have "(\<exists>conf. interleaved J S (\<lambda>_ _. False) (cs, st) conf) \<longleftrightarrow>
      (\<exists>i < length cs. turns_left (snd (cs ! i)) \<noteq> 0)"
  proof
    assume "\<exists>conf. interleaved J S (\<lambda>_ _. False) (cs, st) conf"
    then show "\<exists>i < length cs. turns_left (snd (cs ! i)) \<noteq> 0"
      by (auto elim!: interleaved_cases dest: call_turn_decreases)
  next
    assume "\<exists>i < length cs. turns_left (snd (cs ! i)) \<noteq> 0"
    then obtain i where i: "i < length cs" "turns_left (snd (cs ! i)) \<noteq> 0" by blast
    then obtain p st' where "call_turn J S (fst (cs ! i)) (snd (cs ! i)) st = Some (p, st')"
      using call_turn_progress [of J S "fst (cs ! i)" "snd (cs ! i)" st] by auto
    with i(1) show "\<exists>conf. interleaved J S (\<lambda>_ _. False) (cs, st) conf"
      by (blast intro: interleaved.turn)
  qed
  then show "(\<nexists>conf. interleaved J S (\<lambda>_ _. False) (cs, st) conf) =
      list_all (\<lambda>(c, p). turns_left p = 0) cs"
    by (auto simp: list_all_length split_beta)
qed

definition ten :: "(string, InMemoryIdempotencyStore) call" where
  "ten = \<lparr>call_key = ''k'', call_ptr = True, call_ttl = 10, call_body = (\<lambda>r w. (None, ''tx'', w))\<rparr>"

theorem every_call_returns_witness:
  "\<exists>err r. snd (fst (run_schedule text_codec mem_store
     [Turn 1, Turn 0, World (advance 3), Turn 1, Turn 0, Turn 0] (calls_started [(ten, []), (ten, [])], empty_store)) ! 0) =
   Finished err r"
  by (rule every_call_returns) simp_all

subsection \<open>Overlapping calls with one key\<close>

text \<open>Two attempts that overlap in lockstep: each returns its own result, and the later record stays.\<close>

theorem overlapping_records_last_wins:
  assumes "call_key c1 = k" and "call_key c2 = k" and "mem_held w k = None"
    and "call_ptr c1" and "call_ptr c2"
    and "call_body c1 r1 w = (None, x1, w1)" and "call_body c2 r2 w1 = (None, x2, w2)"
    and "Marshal J x1 = Some b1" and "Marshal J x2 = Some b2"
  shows "run_schedule J mem_store [Turn 0, Turn 1, Turn 0, Turn 1, Turn 0, Turn 1]
      (calls_started [(c1, r1), (c2, r2)], w) =
    ([(c1, Finished None x1), (c2, Finished None x2)],
     w2\<lparr>entries := fmupd k \<lparr>data = Some b2, expiresAt = clock w2 + call_ttl c2\<rparr> (entries w2)\<rparr>)"
proof -
  obtain res where chk: "Check mem_store k w = (res, w)" using mem.check_eq by blast
  have miss: "use_cached J True res r = (False, r)" for r
    by (rule mem.miss_runs_body [OF assms(3) chk])
  have rec: "snd (Record mem_store key (Some b) ttl st) =
      st\<lparr>entries := fmupd key \<lparr>data = Some b, expiresAt = clock st + ttl\<rparr> (entries st)\<rparr>" for key b ttl st
    by (simp add: mem_defs)
  have replaced: "fmupd k a (fmupd k b m) = fmupd k a m" for a b and m :: "(string, memEntry) fmap"
    by (rule fmap_ext) simp
  show ?thesis
    using assms by (simp add: chk miss encoded_result_def rec replaced)
qed

lemma turns_given_append [simp]: "turns_given i (evs @ evs') = turns_given i evs + turns_given i evs'"
  by (simp add: turns_given_def)

lemma schedule_keeps_call:
  assumes "i < length (fst conf)"
  shows "fst (fst (run_schedule J S evs conf) ! i) = fst (fst conf ! i)"
proof -
  have "fst (fst (run_event J S ev conf) ! i) = fst (fst conf ! i)" if "i < length (fst conf)" for ev conf
    using that by (cases conf; cases ev) (auto simp: nth_list_update split: option.split)
  then show ?thesis using assms by (induction evs arbitrary: conf) simp_all
qed

lemma schedule_waits:
  assumes "turns_given i evs = 0"
  shows "fst (run_schedule J S evs conf) ! i = fst conf ! i"
proof -
  have "fst (run_event J S ev conf) ! i = fst conf ! i" if "turns_given i [ev] = 0" for ev conf
    using that by (cases conf; cases ev) (auto split: option.split if_splits)
  then show ?thesis
    using assms by (induction evs arbitrary: conf) (auto simp: turns_given_def split: event.splits if_splits)
qed

lemma calls_started_nth [simp]:
  "i < length cs \<Longrightarrow> calls_started cs ! i = (fst (cs ! i), CheckStore (snd (cs ! i)))"
  by (simp add: calls_started_def split_beta)

text \<open>How many turns a call must have had to be where it is.\<close>

definition phase_due :: "nat \<Rightarrow> 'r phase \<Rightarrow> bool" where
  "phase_due n p \<longleftrightarrow> (case p of RunBody r \<Rightarrow> 1 \<le> n | RecordResult r d \<Rightarrow> 2 \<le> n | _ \<Rightarrow> True)"

lemma phase_due_simps [simp]:
  "phase_due n (CheckStore r)" "phase_due n (RunBody r) \<longleftrightarrow> 1 \<le> n"
  "phase_due n (RecordResult r d) \<longleftrightarrow> 2 \<le> n" "phase_due n (Finished err r)"
  by (simp_all add: phase_due_def)

lemma phase_due_mono: "phase_due n p \<Longrightarrow> n \<le> m \<Longrightarrow> phase_due m p"
  by (cases p) auto

text \<open>Nobody but the calls records under the key \<open>k\<close>: not their bodies, not the rest of the world.\<close>

definition leaves_unrecorded :: "string \<Rightarrow> ('e InMemoryIdempotencyStore_scheme \<Rightarrow> 'e InMemoryIdempotencyStore_scheme) \<Rightarrow> bool" where
  "leaves_unrecorded k g \<longleftrightarrow> (\<forall>u. mem_held u k = None \<longrightarrow> mem_held (g u) k = None)"

definition only_calls_record ::
    "string \<Rightarrow> (('r, 'e InMemoryIdempotencyStore_scheme) call \<times> 'r) list \<Rightarrow> 'e InMemoryIdempotencyStore_scheme event list \<Rightarrow> bool" where
  "only_calls_record k cs evs \<longleftrightarrow>
     (\<forall>(c, r) \<in> set cs. \<forall>x. leaves_unrecorded k (\<lambda>u. snd (snd (call_body c x u)))) \<and>
     (\<forall>g. World g \<in> set evs \<longrightarrow> leaves_unrecorded k g)"

text \<open>While no call for the key has had a third turn, nothing is recorded under it.\<close>

lemma turn_unrecorded:
  assumes "call_turn J mem_store c p w = Some (p', w')" and "mem_held w k = None" and "phase_due n p"
    and "call_key c = k \<Longrightarrow> n < 2" and "\<And>x. leaves_unrecorded k (\<lambda>u. snd (snd (call_body c x u)))"
  shows "mem_held w' k = None \<and> phase_due (Suc n) p'"
proof (cases p)
  case (CheckStore r)
  with assms(1) mem.check_eq [of "call_key c" w] assms(2) show ?thesis
    by (auto split: prod.splits bool.splits)
next
  case (RunBody r)
  obtain e x u where b: "call_body c r w = (e, x, u)" by (metis prod_cases3)
  have "mem_held (snd (snd (call_body c r w))) k = None"
    using assms(2) assms(5) [of r] by (simp add: leaves_unrecorded_def)
  with b assms(1,3) RunBody show ?thesis by (auto split: option.splits)
next
  case (RecordResult r d)
  with assms(3,4) have "call_key c \<noteq> k" by auto
  with assms(1,2) RecordResult show ?thesis by (auto simp: mem_defs split: option.splits)
qed (use assms(1) in simp)

lemma unrecorded_until:
  assumes "mem_held w k = None" and "only_calls_record k cs evs"
    and "\<forall>j < length cs. call_key (fst (cs ! j)) = k \<longrightarrow> turns_given j evs \<le> 2"
  shows "mem_held (snd (run_schedule J mem_store evs (calls_started cs, w))) k = None \<and>
    (\<forall>j < length cs. phase_due (turns_given j evs) (snd (fst (run_schedule J mem_store evs (calls_started cs, w)) ! j)))"
  using assms(2,3)
proof (induction evs rule: rev_induct)
  case Nil
  then show ?case using assms(1) by (simp add: calls_started_def split_beta)
next
  case (snoc ev evs)
  obtain cs1 w1 where run: "run_schedule J mem_store evs (calls_started cs, w) = (cs1, w1)" by fastforce
  have bound: "call_key (fst (cs ! j)) = k \<longrightarrow> turns_given j evs \<le> 2" if "j < length cs" for j
    using snoc.prems(2) that by fastforce
  then have IH: "mem_held w1 k = None" "phase_due (turns_given j evs) (snd (cs1 ! j))" if "j < length cs" for j
    using snoc.IH snoc.prems(1) that by (auto simp: only_calls_record_def run)
  have held: "mem_held w1 k = None"
    using snoc.IH snoc.prems(1) bound by (auto simp: only_calls_record_def run)
  have len: "length cs1 = length cs"
    using length_run_schedule [of J mem_store evs "(calls_started cs, w)"] by (simp add: run)
  show ?case
  proof (cases ev)
    case (World g)
    then show ?thesis
      using IH(2) held snoc.prems(1) by (auto simp: run only_calls_record_def leaves_unrecorded_def)
  next
    case (Turn i)
    show ?thesis
    proof (cases "i < length cs")
      case False
      then show ?thesis using IH(2) held Turn len by (auto simp: run)
    next
      case True
      let ?c = "fst (cs1 ! i)"
      have c: "?c = fst (cs ! i)"
        using schedule_keeps_call [of i "(calls_started cs, w)" J mem_store evs] True
        by (simp add: run)
      show ?thesis
      proof (cases "call_turn J mem_store ?c (snd (cs1 ! i)) w1")
        case None
        then show ?thesis using IH(2) held Turn len True by (auto simp: run intro: phase_due_mono [OF IH(2)])
      next
        case (Some pw)
        obtain p' w' where pw: "pw = (p', w')" by fastforce
        have "mem_held w' k = None \<and> phase_due (Suc (turns_given i evs)) p'"
        proof (rule turn_unrecorded [OF Some [unfolded pw] held IH(2) [OF True]])
          show "turns_given i evs < 2" if "call_key ?c = k"
            using snoc.prems(2) True that c by (auto simp: Turn dest!: spec [of _ i])
          show "leaves_unrecorded k (\<lambda>u. snd (snd (call_body ?c x u)))" for x
            using snoc.prems(1) True c by (auto simp: only_calls_record_def split_beta dest!: bspec [of _ _ "cs ! i"])
        qed
        with Some IH(2) Turn len True show ?thesis
          by (auto simp: run pw nth_list_update)
      qed
    qed
  qed
qed

text \<open>
  In a schedule, call \<open>i\<close> runs its body: at one of its turns it is about to, the body turns the state
  into the next one, and what the call ends with at the end of the schedule is what its own body gave.
\<close>

definition body_runs ::
    "'r codec \<Rightarrow> nat \<Rightarrow> 'e InMemoryIdempotencyStore_scheme event list \<Rightarrow>
     ('r, 'e InMemoryIdempotencyStore_scheme) calls \<times> 'e InMemoryIdempotencyStore_scheme \<Rightarrow> bool" where
  "body_runs J i evs conf \<longleftrightarrow> (\<exists>evs1 evs2 c r e x w'. evs = evs1 @ Turn i # evs2 \<and>
     fst (run_schedule J mem_store evs1 conf) ! i = (c, RunBody r) \<and>
     call_body c r (snd (run_schedule J mem_store evs1 conf)) = (e, x, w') \<and>
     snd (run_schedule J mem_store (evs1 @ [Turn i]) conf) = w' \<and>
     snd (fst (run_schedule J mem_store evs conf) ! i) = Finished e x)"

lemma first_turn:
  assumes "1 \<le> turns_given i evs"
  obtains evs1 evs2 where "evs = evs1 @ Turn i # evs2" "turns_given i evs1 = 0"
proof -
  have "\<exists>evs1 evs2. evs = evs1 @ Turn i # evs2 \<and> turns_given i evs1 = 0"
    using assms
  proof (induction evs)
    case (Cons ev evs)
    show ?case
    proof (cases "ev = Turn i")
      case True
      then show ?thesis by (intro exI [of _ "[]"] exI [of _ evs]) simp
    next
      case False
      then have "turns_given i [ev] = 0" by (cases ev) auto
      moreover from this have "1 \<le> turns_given i evs" using Cons.prems by (cases ev) (auto split: if_splits)
      then obtain evs1 evs2 where "evs = evs1 @ Turn i # evs2" "turns_given i evs1 = 0"
        using Cons.IH by blast
      ultimately show ?thesis by (intro exI [of _ "ev # evs1"] exI [of _ evs2]) (cases ev; simp split: if_splits)
    qed
  qed simp
  with that show ?thesis by blast
qed

text \<open>A call that has run its body ends with what the body gave, within one further turn.\<close>

lemma after_body:
  assumes "i < length cs" and "cs ! i = (c, RunBody r)" and "call_body c r w = (e, x, w')" and "1 \<le> turns_given i evs"
  shows "snd (run_event J mem_store (Turn i) (cs, w)) = w' \<and>
    snd (fst (run_schedule J mem_store (Turn i # evs) (cs, w)) ! i) = Finished e x"
proof -
  have stays: "fst (run_schedule J mem_store evs (cs1, w1)) ! i = (c1, Finished e1 x1)"
    if "i < length cs1" "cs1 ! i = (c1, Finished e1 x1)" for evs cs1 w1 c1 e1 x1
    using that
  proof (induction evs arbitrary: cs1 w1)
    case (Cons ev evs)
    obtain cs2 w2 where step: "run_event J mem_store ev (cs1, w1) = (cs2, w2)" by fastforce
    have "i < length cs2" using length_run_event [of J mem_store ev "(cs1, w1)"] Cons.prems(1) step by simp
    moreover have "cs2 ! i = (c1, Finished e1 x1)"
      using step Cons.prems by (cases ev) (auto split: if_splits option.splits simp: nth_list_update)
    ultimately show ?case using Cons.IH step by simp
  qed simp
  let ?p = "case e of Some err \<Rightarrow> Finished (Some err) x
    | None \<Rightarrow> (case encoded_result J (call_ptr c) x of None \<Rightarrow> Finished None x | Some d \<Rightarrow> RecordResult x d)"
  have turn: "run_event J mem_store (Turn i) (cs, w) = (cs[i := (c, ?p)], w')"
    using assms(1-3) by (auto split: option.split)
  have "snd (fst (run_schedule J mem_store evs (cs[i := (c, ?p)], w')) ! i) = Finished e x"
  proof (cases "\<exists>d. ?p = RecordResult x d \<and> e = None")
    case False
    then have "?p = Finished e x" by (auto split: option.splits)
    with assms(1) show ?thesis by (simp add: stays)
  next
    case True
    then obtain d where d: "?p = RecordResult x d" "e = None" by blast
    obtain evs1 evs2 where evs: "evs = evs1 @ Turn i # evs2" "turns_given i evs1 = 0"
      by (rule first_turn [OF assms(4)])
    obtain cs1 w1 where run: "run_schedule J mem_store evs1 (cs[i := (c, ?p)], w') = (cs1, w1)" by fastforce
    have "cs1 ! i = (c, RecordResult x d)"
      using schedule_waits [OF evs(2), of J mem_store "(cs[i := (c, ?p)], w')"] run assms(1) d by simp
    moreover have "i < length cs1"
      using length_run_schedule [of J mem_store evs1 "(cs[i := (c, ?p)], w')"] run assms(1) by simp
    moreover have "run_schedule J mem_store evs (cs[i := (c, ?p)], w') =
        run_schedule J mem_store evs2 (run_event J mem_store (Turn i) (cs1, w1))"
      by (simp only: evs(1) run_schedule_append run run_schedule.simps)
    ultimately show ?thesis using d(2) by (simp add: stays)
  qed
  with turn show ?thesis by simp
qed

text \<open>
  C18. The check and the record are two store calls with the body between them, and nothing keeps
  a second caller out. Take any calls on the in-memory store, any schedule, and a point of it, the end
  of \<open>pre\<close>, before which no call for a key has recorded anything, nobody else records under the
  key, and nothing is recorded at the start. Then every call for this key that has asked the store by
  then (an activity that timed out and is still running, and its retry) runs its own body, errors
  and results that cannot be encoded included, and returns what that gave, once it has its turns.
\<close>

theorem overlapping_calls_both_execute:
  assumes "mem_held w k = None" and "only_calls_record k cs pre"
    and "\<forall>j < length cs. call_key (fst (cs ! j)) = k \<longrightarrow> turns_given j pre \<le> 2"
  shows "\<forall>i < length cs. call_key (fst (cs ! i)) = k \<and> 1 \<le> turns_given i pre \<and> 3 \<le> turns_given i (pre @ evs) \<longrightarrow>
    body_runs J i (pre @ evs) (calls_started cs, w)"
proof (intro allI impI, elim conjE)
  fix i
  assume i: "i < length cs" "call_key (fst (cs ! i)) = k" "1 \<le> turns_given i pre" "3 \<le> turns_given i (pre @ evs)"
  let ?start = "(calls_started cs, w)"
  obtain p1 p2 where pre: "pre = p1 @ Turn i # p2" "turns_given i p1 = 0" by (rule first_turn [OF i(3)])
  obtain cs1 w1 where run: "run_schedule J mem_store p1 ?start = (cs1, w1)" by fastforce
  have sub: "only_calls_record k cs p1" "\<forall>j < length cs. call_key (fst (cs ! j)) = k \<longrightarrow> turns_given j p1 \<le> 2"
    using assms(2,3) pre(1) by (auto simp: only_calls_record_def)
  have held: "mem_held w1 k = None" using unrecorded_until [OF assms(1) sub, of J] by (simp add: run)
  have at: "cs1 ! i = (fst (cs ! i), CheckStore (snd (cs ! i)))"
    using schedule_waits [OF pre(2), of J mem_store ?start] i(1) by (simp add: run)
  have len: "length cs1 = length cs" using length_run_schedule [of J mem_store p1 ?start] by (simp add: run)
  obtain res where chk: "Check mem_store k w1 = (res, w1)" using mem.check_eq by blast
  then have "use_cached J (call_ptr (fst (cs ! i))) res r = (False, r)" for r by (rule mem.miss_runs_body [OF held])
  then have check: "run_event J mem_store (Turn i) (cs1, w1) = (cs1[i := (fst (cs ! i), RunBody (snd (cs ! i)))], w1)"
    using i(1,2) len chk by (simp add: at)
  have "1 \<le> turns_given i (p2 @ evs)" using i(4) pre by simp
  then obtain q1 q2 where q: "p2 @ evs = q1 @ Turn i # q2" "turns_given i q1 = 0" by (rule first_turn)
  then have more: "1 \<le> turns_given i q2"
    using i(4) pre arg_cong [OF q(1), of "turns_given i"] by simp
  let ?e1 = "p1 @ Turn i # q1"
  obtain cs2 w2 where run2: "run_schedule J mem_store ?e1 ?start = (cs2, w2)" by fastforce
  have at2: "cs2 ! i = (fst (cs ! i), RunBody (snd (cs ! i)))"
    using schedule_waits [OF q(2), of J mem_store "run_event J mem_store (Turn i) (cs1, w1)"] run2 check i(1) len
    by (simp add: run)
  have len2: "i < length cs2" using length_run_schedule [of J mem_store ?e1 ?start] i(1) unfolding run2 by simp
  obtain e x w' where body: "call_body (fst (cs ! i)) (snd (cs ! i)) w2 = (e, x, w')" by (metis prod_cases3)
  have evs: "pre @ evs = ?e1 @ Turn i # q2" using pre(1) q(1) by simp
  have from2: "run_schedule J mem_store (?e1 @ xs) ?start = run_schedule J mem_store xs (cs2, w2)" for xs
    using run_schedule_append [of J mem_store ?e1 xs ?start] unfolding run2 .
  have "snd (run_schedule J mem_store (?e1 @ [Turn i]) ?start) = w'"
    "snd (fst (run_schedule J mem_store (?e1 @ Turn i # q2) ?start) ! i) = Finished e x"
    using after_body [OF len2 at2 body more, of J] by (simp_all only: from2 run_schedule.simps)
  then show "body_runs J i (pre @ evs) ?start"
    unfolding body_runs_def evs
    by (intro exI [of _ ?e1] exI [of _ q2] exI [of _ "fst (cs ! i)"] exI [of _ "snd (cs ! i)"] exI [of _ e]
        exI [of _ x] exI [of _ w'] conjI refl) (simp_all only: run2 fst_conv snd_conv at2 body)
qed

text \<open>A store in a process that also counts the charges its activities have made.\<close>

record charging_process = InMemoryIdempotencyStore +
  charges :: nat

definition charge :: "string \<Rightarrow> (string, charging_process) call" where
  "charge tx = \<lparr>call_key = ''k'', call_ptr = True, call_ttl = 10,
     call_body = (\<lambda>r w. (None, tx, w\<lparr>charges := Suc (charges w)\<rparr>))\<rparr>"

theorem overlapping_records_last_wins_witness:
  "run_schedule text_codec mem_store [Turn 0, Turn 1, Turn 0, Turn 1, Turn 0, Turn 1]
     (calls_started [(charge ''tx1'', []), (charge ''tx2'', [])], \<lparr>entries = fmempty, clock = 0, charges = 0\<rparr>) =
   ([(charge ''tx1'', Finished None ''tx1''), (charge ''tx2'', Finished None ''tx2'')],
    \<lparr>entries = fmupd ''k'' \<lparr>data = Some ''tx2'', expiresAt = 10\<rparr> fmempty, clock = 0, charges = 2\<rparr>)"
  using overlapping_records_last_wins [of "charge ''tx1''" "''k''" "charge ''tx2''"
      "\<lparr>entries = fmempty, clock = 0, charges = 0\<rparr>" "[]" "''tx1''"
      "\<lparr>entries = fmempty, clock = 0, charges = 1\<rparr>" "[]" "''tx2''"
      "\<lparr>entries = fmempty, clock = 0, charges = 2\<rparr>" text_codec "''tx1''" "''tx2''"]
  by (simp add: charge_def mem_held_def text_codec_def)

subsection \<open>Where results come from\<close>

theorem overlapping_calls_both_execute_witness:
  "body_runs text_codec 0 ([Turn 0, Turn 1] @ [Turn 1, World (advance 3), Turn 0, Turn 1, Turn 0])
     (calls_started [(charge ''tx1'', []), (charge ''tx2'', [])], \<lparr>entries = fmempty, clock = 0, charges = 0\<rparr>) \<and>
   body_runs text_codec 1 ([Turn 0, Turn 1] @ [Turn 1, World (advance 3), Turn 0, Turn 1, Turn 0])
     (calls_started [(charge ''tx1'', []), (charge ''tx2'', [])], \<lparr>entries = fmempty, clock = 0, charges = 0\<rparr>)"
proof -
  let ?pre = "[Turn 0, Turn 1] :: charging_process event list"
  let ?evs = "[Turn 1, World (advance 3), Turn 0, Turn 1, Turn 0] :: charging_process event list"
  let ?w = "\<lparr>entries = fmempty, clock = 0, charges = 0\<rparr>" and ?cs = "[(charge ''tx1'', []), (charge ''tx2'', [])]"
  have held: "mem_held ?w ''k'' = None" by (simp add: mem_held_def)
  have alone: "only_calls_record ''k'' ?cs ?pre"
    by (auto simp: only_calls_record_def leaves_unrecorded_def charge_def mem_held_def split: option.splits)
  have bound: "\<forall>j < length ?cs. call_key (fst (?cs ! j)) = ''k'' \<longrightarrow> turns_given j ?pre \<le> 2"
    by (simp add: less_Suc_eq_0_disj all_conj_distrib)
  note all = overlapping_calls_both_execute [OF held alone bound, of ?evs text_codec]
  show ?thesis using all [rule_format, of 0] all [rule_format, of 1] by (simp add: charge_def)
qed

text \<open>
  A store that, whether \<open>Record\<close> reports an error or not, holds afterwards what it held before or
  the new record, and nothing else.
\<close>

locale atomic_store = idempotency_store +
  assumes record_atomic:
    "Record S k (Some d) ttl st = (err, st') \<Longrightarrow> held st' k = Some d' \<Longrightarrow> d' = d \<or> held st k = Some d'"
begin

lemma record_origin:
  assumes "held (snd (Record S k (Some d) ttl st)) k' = Some d'"
  shows "(k' = k \<and> d' = d) \<or> held st k' = Some d'"
proof -
  obtain err st' where rec: "Record S k (Some d) ttl st = (err, st')" by fastforce
  with assms show ?thesis
    using record_atomic [OF rec] record_frame [OF rec, of k'] by (cases "k' = k") auto
qed

end

text \<open>
  What the callers and their environment promise. \<open>good k r\<close> says that \<open>r\<close> is a legitimate result
  for the key \<open>k\<close>: a body that succeeds produces one, and only the store calls of the machine add
  records. The decoder reads back what the encoder wrote.
\<close>

definition codec_roundtrip :: "'r codec \<Rightarrow> bool" where
  "codec_roundtrip J \<longleftrightarrow> (\<forall>x d r. Marshal J x = Some d \<longrightarrow> Unmarshal J d r = (True, x))"

definition adds_no_record :: "('st \<Rightarrow> string \<Rightarrow> bytes option) \<Rightarrow> 'st \<Rightarrow> 'st \<Rightarrow> bool" where
  "adds_no_record held st st' \<longleftrightarrow> (\<forall>k d. held st' k = Some d \<longrightarrow> held st k = Some d)"

definition good_call ::
    "('st \<Rightarrow> string \<Rightarrow> bytes option) \<Rightarrow> (string \<Rightarrow> 'r \<Rightarrow> bool) \<Rightarrow> ('r, 'st) call \<Rightarrow> bool" where
  "good_call held good c \<longleftrightarrow> call_ptr c \<and>
     (\<forall>r st r' st'. call_body c r st = (None, r', st') \<longrightarrow> good (call_key c) r') \<and>
     (\<forall>r st. adds_no_record held st (snd (snd (call_body c r st))))"

definition good_records :: "'r codec \<Rightarrow> (string \<Rightarrow> 'r \<Rightarrow> bool) \<Rightarrow> (string \<Rightarrow> bytes option) \<Rightarrow> bool" where
  "good_records J good h \<longleftrightarrow> (\<forall>k d. h k = Some d \<longrightarrow> (\<exists>r. good k r \<and> Marshal J r = Some d))"

fun good_phase :: "'r codec \<Rightarrow> ('r \<Rightarrow> bool) \<Rightarrow> 'r phase \<Rightarrow> bool" where
  "good_phase J g (CheckStore r) = True"
| "good_phase J g (RunBody r) = True"
| "good_phase J g (RecordResult r d) = (g r \<and> Marshal J r = Some d)"
| "good_phase J g (Finished err r) = (err = None \<longrightarrow> g r)"

lemma good_records_mono:
  "good_records J good (held st) \<Longrightarrow> adds_no_record held st st' \<Longrightarrow> good_records J good (held st')"
  by (auto simp: good_records_def adds_no_record_def)

definition good_conf ::
    "'r codec \<Rightarrow> ('st \<Rightarrow> string \<Rightarrow> bytes option) \<Rightarrow> (string \<Rightarrow> 'r \<Rightarrow> bool) \<Rightarrow> ('r, 'st) calls \<times> 'st \<Rightarrow> bool" where
  "good_conf J held good conf \<longleftrightarrow> good_records J good (held (snd conf)) \<and>
     list_all (\<lambda>(c, p). good_call held good c \<and> good_phase J (good (call_key c)) p) (fst conf)"

context atomic_store begin

lemma turn_keeps_good:
  assumes "codec_roundtrip J" and "good_call held good c" and "good_records J good (held st)"
    and "good_phase J (good (call_key c)) p" and "call_turn J S c p st = Some (p', st')"
  shows "good_records J good (held st') \<and> good_phase J (good (call_key c)) p'"
proof (cases p)
  case (CheckStore r)
  from assms(5) [unfolded CheckStore] show ?thesis
  proof (cases rule: check_turnE)
    case (hit res r1)
    obtain d err where res: "res = (Some d, True, err)"
      using hit(2) by (auto simp: use_cached_def split: prod.splits option.splits if_splits)
    then obtain x where "good (call_key c) x" and "Marshal J x = Some d"
      using check_sound [of "call_key c" st d err st'] hit(1) assms(3) by (auto simp: good_records_def)
    with hit res assms(1,2) have "good (call_key c) r1"
      by (auto simp: codec_roundtrip_def good_call_def)
    with hit assms(3) check_keeps [OF hit(1)] show ?thesis by simp
  next
    case (miss res r1)
    with assms(3) check_keeps [OF miss(1)] show ?thesis by simp
  qed
next
  case (RunBody r)
  have "adds_no_record held st st'"
    using assms(2,5) unfolding RunBody
    by (elim body_turnE) (auto simp: good_call_def dest: spec [of _ st], (metis snd_conv)+)
  with assms(3) have recs: "good_records J good (held st')" by (rule good_records_mono)
  from assms(5) [unfolded RunBody] show ?thesis
    by (cases rule: body_turnE)
      (use recs assms(2) in \<open>auto simp: good_call_def encoded_result_def\<close>)
next
  case (RecordResult r d)
  with assms show ?thesis
    by (auto simp: good_records_def dest!: record_origin)
qed (use assms in simp)

lemma interleaved_keeps_good:
  assumes "codec_roundtrip J" and "\<And>st st'. E st st' \<Longrightarrow> adds_no_record held st st'"
    and "interleaved J S E conf conf'" and "good_conf J held good conf"
  shows "good_conf J held good conf'"
  using assms(3)
proof cases
  case (turn i cs st p st')
  have "good_call held good (fst (cs ! i)) \<and> good_phase J (good (call_key (fst (cs ! i)))) (snd (cs ! i))"
    using assms(4) turn by (auto simp: good_conf_def list_all_length split_beta)
  then have "good_records J good (held st') \<and> good_phase J (good (call_key (fst (cs ! i)))) p"
    using turn_keeps_good [OF assms(1) _ _ _ turn(4)] assms(4) turn(1) by (auto simp: good_conf_def)
  with assms(4) turn show ?thesis
    by (auto simp: good_conf_def list_all_length nth_list_update split_beta)
next
  case (world st st' cs)
  with assms(2,4) show ?thesis by (auto simp: good_conf_def intro: good_records_mono)
qed

lemma reachable_good:
  assumes "codec_roundtrip J" and "\<And>st st'. E st st' \<Longrightarrow> adds_no_record held st st'"
    and "(interleaved J S E)\<^sup>*\<^sup>* conf conf'" and "good_conf J held good conf"
  shows "good_conf J held good conf'"
  using assms(3,4)
  by (induction rule: rtranclp_induct) (auto intro: interleaved_keeps_good [OF assms(1,2)])

end

interpretation mem_atomic: atomic_store mem_store mem_held
  by unfold_locales (auto simp: mem_defs split: option.splits if_splits)

text \<open>
  The Redis server executes a \<open>Set\<close> as one command: whatever the client reports, the key holds
  the old value, the new one, or (expired at once) none.
\<close>

lemma redis_atomic_contract:
  assumes "redis_documented tx (client s) contents"
    and "\<And>k v ttl st v'. contents (snd (rc_Set (client s) k v ttl st)) k = Some v' \<Longrightarrow>
      v' = v \<or> contents st k = Some v'"
  shows "atomic_store (redis_store tx s) (\<lambda>st key. contents st (redisKey s key))"
proof (intro atomic_store.intro redis_store_contract [OF assms(1)] atomic_store_axioms.intro)
  fix k d ttl st err st' d'
  assume "Record (redis_store tx s) k (Some d) ttl st = (err, st')"
    and held: "contents st' (redisKey s k) = Some d'"
  then have "st' = snd (rc_Set (client s) (redisKey s k) d ttl st)"
    by (auto simp: redis_store_def redis_Record_def bytes_string_def split: prod.splits option.splits)
  with held show "d' = d \<or> contents st (redisKey s k) = Some d'"
    using assms(2) by simp
qed

lemma calls_started_good:
  assumes "list_all (\<lambda>(c, r). good_call held good c) cs" and "good_records J good (held st)"
  shows "good_conf J held good (calls_started cs, st)"
  using assms by (auto simp: good_conf_def calls_started_def list_all_iff split_beta)

lemma good_conf_finished:
  assumes "good_conf J held good conf" and "(c, Finished None r) \<in> set (fst conf)"
  shows "good (call_key c) r"
  using assms by (force simp: good_conf_def list_all_iff)

text \<open>
  C12. However many calls overlap and however their turns interleave, a call that returns without
  error returns a result some body produced for its key (\<open>good\<close>), its own or the one it found in
  the store: no interleaving mixes up keys or returns an unfinished value.
\<close>

theorem interleavings_return_genuine_results:
  assumes "codec_roundtrip J" and "\<And>w w'. E w w' \<Longrightarrow> adds_no_record mem_held w w'"
    and "list_all (\<lambda>(c, r). good_call mem_held good c) cs" and "good_records J good (mem_held w)"
    and "(interleaved J mem_store E)\<^sup>*\<^sup>* (calls_started cs, w) (cs', w')"
    and "(c, Finished None r) \<in> set cs'"
  shows "good (call_key c) r"
  using mem_atomic.reachable_good [OF assms(1,2,5) calls_started_good [OF assms(3,4)]] assms(6)
  by (auto intro: good_conf_finished)

theorem interleavings_return_genuine_results_witness:
  "let conf = run_schedule text_codec mem_store
       [Turn 0, Turn 0, Turn 1, Turn 0, Turn 1, World (advance 3), Turn 1]
       (calls_started [(charge ''tx1'', []), (charge ''tx2'', [])], \<lparr>entries = fmempty, clock = 0, charges = 0\<rparr>)
   in (charge ''tx2'', Finished None ''tx2'') \<in> set (fst conf) \<and> ''tx2'' \<in> {''tx1'', ''tx2''}"
proof -
  let ?w = "\<lparr>entries = fmempty, clock = 0, charges = 0\<rparr>"
  let ?evs = "[Turn 0, Turn 0, Turn 1, Turn 0, Turn 1, World (advance 3), Turn 1]"
  let ?cs = "[(charge ''tx1'', []), (charge ''tx2'', [])]"
  let ?conf = "run_schedule text_codec mem_store ?evs (calls_started ?cs, ?w)"
  have good: "good_call mem_held (\<lambda>k r. r \<in> {''tx1'', ''tx2''}) (charge tx)"
    if "tx \<in> {''tx1'', ''tx2''}" for tx
    using that by (auto simp: good_call_def charge_def adds_no_record_def mem_held_def split: option.splits)
  have run: "(interleaved text_codec mem_store (adds_no_record mem_held))\<^sup>*\<^sup>* (calls_started ?cs, ?w) ?conf"
    by (rule run_schedule_interleaved)
      (auto simp: adds_no_record_def mem_held_def time_After_def split: option.splits if_splits)
  have fin: "(charge ''tx2'', Finished None ''tx2'') \<in> set (fst ?conf)"
    by (simp add: charge_def mem_defs use_cached_def text_codec_def encoded_result_def)
  have "''tx2'' \<in> {''tx1'', ''tx2''}"
  proof (rule interleavings_return_genuine_results
      [where good = "\<lambda>k r. r \<in> {''tx1'', ''tx2''}" and cs' = "fst ?conf" and w' = "snd ?conf"])
    show "(interleaved text_codec mem_store (adds_no_record mem_held))\<^sup>*\<^sup>* (calls_started ?cs, ?w)
        (fst ?conf, snd ?conf)"
      using run by (simp only: prod.collapse)
  qed (use good fin in \<open>simp_all add: codec_roundtrip_def text_codec_def good_records_def mem_held_def\<close>)
  with fin show ?thesis unfolding Let_def by (rule conjI)
qed

text \<open>The same on Redis, shared by several processes, even when its calls fail.\<close>

theorem redis_interleavings_return_genuine_results:
  assumes doc: "redis_documented tx (client s) contents"
    and set: "\<And>k v ttl st v'. contents (snd (rc_Set (client s) k v ttl st)) k = Some v' \<Longrightarrow>
      v' = v \<or> contents st k = Some v'"
  defines "held \<equiv> (\<lambda>st key. contents st (redisKey s key))"
  assumes "codec_roundtrip J" and "\<And>st st'. E st st' \<Longrightarrow> adds_no_record held st st'"
    and "list_all (\<lambda>(c, r). good_call held good c) cs" and "good_records J good (held st)"
    and "(interleaved J (redis_store tx s) E)\<^sup>*\<^sup>* (calls_started cs, st) (cs', st')"
    and "(c, Finished None r) \<in> set cs'"
  shows "good (call_key c) r"
proof -
  have store: "atomic_store (redis_store tx s) held"
    unfolding held_def by (rule redis_atomic_contract [OF doc set])
  show ?thesis
    using atomic_store.reachable_good [OF store assms(4,5,8) calls_started_good [OF assms(6,7)]] assms(9)
    by (auto intro: good_conf_finished)
qed

subsection \<open>Once recorded\<close>

definition settled :: "('r \<Rightarrow> bool) \<Rightarrow> 'r phase \<Rightarrow> bool" where
  "settled P p = (case p of CheckStore r \<Rightarrow> True | Finished None r \<Rightarrow> P r | _ \<Rightarrow> False)"

lemma settled_simps [simp]:
  "settled P (CheckStore r)" "\<not> settled P (RunBody r)" "\<not> settled P (RecordResult r d)"
  "settled P (Finished None r) = P r" "\<not> settled P (Finished (Some e) r)"
  by (simp_all add: settled_def)

context reliable_store begin

lemma recorded_stays_settled:
  assumes "(interleaved J S E)\<^sup>*\<^sup>* conf conf'"
    and "\<And>st st'. E st st' \<Longrightarrow> held st key = Some d \<Longrightarrow> held st' key = Some d"
    and "\<And>r. Unmarshal J d r = (True, x)"
    and "held (snd conf) key = Some d"
    and "\<forall>(c, p) \<in> set (fst conf). call_key c = key \<and> call_ptr c \<and> settled (\<lambda>r. r = x) p"
  shows "held (snd conf') key = Some d \<and>
    (\<forall>(c, p) \<in> set (fst conf'). call_key c = key \<and> call_ptr c \<and> settled (\<lambda>r. r = x) p)"
  using assms(1)
proof (induction rule: rtranclp_induct)
  case base
  show ?case using assms(4,5) by blast
next
  case (step conf1 conf2)
  from step.hyps(2) show ?case
  proof cases
    case (turn i cs st p st')
    obtain c q where ci: "cs ! i = (c, q)" by fastforce
    then have mem: "(c, q) \<in> set cs" using turn(3) by (metis nth_mem)
    have c: "call_key c = key" "call_ptr c" "settled (\<lambda>r. r = x) q"
      using step.IH mem turn(1) by auto
    have heldst: "held st key = Some d" using step.IH turn(1) by simp
    from check_eq [of key st] obtain data found where "Check S key st = ((data, found, None), st)" by blast
    with check_complete [OF this heldst] have chk: "Check S key st = ((Some d, True, None), st)" by simp
    from c(3) turn(4) ci obtain r where "q = CheckStore r" by (cases q) auto
    with turn(4) ci c chk assms(3) have "p = Finished None x \<and> st' = st" by auto
    with step.IH turn ci c show ?thesis by (auto dest!: set_update_subset_insert [THEN subsetD])
  next
    case (world st st' cs)
    with step.IH assms(2) show ?thesis by auto
  qed
qed

end

lemma settled_cases: "settled P p \<Longrightarrow> (\<exists>r. p = CheckStore r) \<or> (\<exists>r. p = Finished None r \<and> P r)"
  by (auto simp: settled_def split: phase.splits option.splits)

text \<open>
  C17. What the store does guarantee to overlapping calls: once a result is recorded, and as long
  as it neither expires nor is removed, no call for that key that starts afterwards executes its
  body, in any interleaving; each is still to ask or has returned the recorded result.
\<close>

theorem no_execution_once_recorded:
  assumes "mem_held w key = Some b" and "\<And>r. Unmarshal J b r = (True, x)"
    and "\<And>w w'. E w w' \<Longrightarrow> mem_held w key = Some b \<Longrightarrow> mem_held w' key = Some b"
    and "list_all (\<lambda>(c, r). call_key c = key \<and> call_ptr c) cs"
    and "(interleaved J mem_store E)\<^sup>*\<^sup>* (calls_started cs, w) (cs', w')"
    and "(c, p) \<in> set cs'"
  shows "(\<exists>r. p = CheckStore r) \<or> p = Finished None x"
proof -
  have "\<forall>(c, p) \<in> set cs'. call_key c = key \<and> call_ptr c \<and> settled (\<lambda>r. r = x) p"
    using mem.recorded_stays_settled [OF assms(5), of key b x] assms(1-4)
    by (fastforce simp: calls_started_def list_all_iff)
  with assms(6) show ?thesis by (auto dest: settled_cases)
qed

theorem no_execution_once_recorded_witness:
  "snd (fst (run_schedule text_codec mem_store [Turn 1, Turn 0]
     (calls_started [(charge ''tx2'', []), (charge ''tx3'', [])],
      \<lparr>entries = fmupd ''k'' \<lparr>data = Some ''tx1'', expiresAt = 10\<rparr> fmempty, clock = 0, charges = 1\<rparr>)) ! 0) =
   Finished None ''tx1''"
proof -
  let ?w = "\<lparr>entries = fmupd ''k'' \<lparr>data = Some ''tx1'', expiresAt = 10\<rparr> fmempty, clock = 0, charges = 1\<rparr>"
  let ?cs = "[(charge ''tx2'', []), (charge ''tx3'', [])]"
  let ?E = "\<lambda>w w'. mem_held w ''k'' = Some ''tx1'' \<longrightarrow> mem_held w' ''k'' = Some ''tx1''"
  let ?conf = "run_schedule text_codec mem_store [Turn 1, Turn 0] (calls_started ?cs, ?w)"
  have run: "(interleaved text_codec mem_store ?E)\<^sup>*\<^sup>* (calls_started ?cs, ?w) ?conf"
    by (rule run_schedule_interleaved) simp
  have "(\<exists>r. snd (fst ?conf ! 0) = CheckStore r) \<or> snd (fst ?conf ! 0) = Finished None ''tx1''"
    by (rule no_execution_once_recorded [where key = "''k''" and b = "''tx1''" and E = ?E and w = ?w and cs = ?cs
          and cs' = "fst ?conf" and w' = "snd ?conf" and c = "fst (fst ?conf ! 0)"])
      (use run in \<open>simp_all add: mem_defs charge_def text_codec_def use_cached_def\<close>)
  then show ?thesis
    by (simp add: mem_defs charge_def text_codec_def use_cached_def)
qed

end
