(* ===== verification/StoreLocks.thy ===== *)
theory StoreLocks
  imports IdempotencyBackends
begin

text \<open>
  The methods of \<open>InMemoryIdempotencyStore\<close> (\<open>activity/idempotency_store.go\<close>) below the level of
  whole calls: each goroutine takes the store's \<open>sync.RWMutex\<close>, reads the clock and touches the map
  in separate turns, and the turns of any number of goroutines interleave. Shown here: no two of
  them ever race for the map, they never block each other for good, and to its callers the store is
  one whose calls happen at one instant each, which is what the theories above assume.
\<close>

subsection \<open>The lock\<close>

text \<open>
  What \<open>sync.RWMutex\<close> documents: any number of readers or one writer. When a lock is free a
  goroutine may still be made to wait; that is a turn it is not given.
\<close>

record RWMutex =
  readers :: nat
  writer :: bool

definition RLock :: "RWMutex \<Rightarrow> RWMutex option" where
  "RLock mu = (if writer mu then None else Some (mu\<lparr>readers := Suc (readers mu)\<rparr>))"

definition RUnlock :: "RWMutex \<Rightarrow> RWMutex" where
  "RUnlock mu = mu\<lparr>readers := readers mu - 1\<rparr>"

definition Lock :: "RWMutex \<Rightarrow> RWMutex option" where
  "Lock mu = (if writer mu \<or> readers mu \<noteq> 0 then None else Some (mu\<lparr>writer := True\<rparr>))"

definition Unlock :: "RWMutex \<Rightarrow> RWMutex" where
  "Unlock mu = mu\<lparr>writer := False\<rparr>"

subsection \<open>One method call as a machine\<close>

datatype store_op = CheckOp string | RecordOp string "bytes option" duration | FlushOp | LenOp

datatype store_answer =
    CheckAnswer "bytes option \<times> bool \<times> go_error option"
  | RecordAnswer "go_error option"
  | FlushAnswer
  | LenAnswer nat

text \<open>
  Where a call stands: not begun, under its lock, with the entry \<open>Check\<close> has read, with the entry
  \<open>Record\<close> has built, with its answer before the deferred unlock, returned.
\<close>

datatype op_phase =
    Waiting
  | Locked
  | GotEntry "memEntry option"
  | BuiltEntry memEntry
  | Answered store_answer
  | ReturnedAnswer store_answer

fun reads_only :: "store_op \<Rightarrow> bool" where
  "reads_only (CheckOp key) = True"
| "reads_only (RecordOp key result ttl) = False"
| "reads_only FlushOp = False"
| "reads_only LenOp = True"

text \<open>One turn; None when the call has returned or must wait for the lock.\<close>

fun op_turn ::
    "store_op \<Rightarrow> op_phase \<Rightarrow> RWMutex \<times> 'e InMemoryIdempotencyStore_scheme \<Rightarrow>
     (op_phase \<times> RWMutex \<times> 'e InMemoryIdempotencyStore_scheme) option" where
  "op_turn oper Waiting (mu, w) =
     (case (if reads_only oper then RLock mu else Lock mu) of
        None \<Rightarrow> None
      | Some mu' \<Rightarrow> Some (Locked, mu', w))"
| "op_turn (CheckOp key) Locked (mu, w) = Some (GotEntry (fmlookup (entries w) key), mu, w)"
| "op_turn (CheckOp key) (GotEntry entry) (mu, w) =
     Some (Answered (CheckAnswer (case entry of
        None \<Rightarrow> (None, False, None)
      | Some en \<Rightarrow> if time_After (clock w) (expiresAt en) then (None, False, None)
          else (data en, True, None))), mu, w)"
| "op_turn (RecordOp key result ttl) Locked (mu, w) =
     Some (BuiltEntry \<lparr>data = result, expiresAt = time_Add (clock w) ttl\<rparr>, mu, w)"
| "op_turn (RecordOp key result ttl) (BuiltEntry en) (mu, w) =
     Some (Answered (RecordAnswer None), mu, w\<lparr>entries := fmupd key en (entries w)\<rparr>)"
| "op_turn FlushOp Locked (mu, w) = Some (Answered FlushAnswer, mu, w\<lparr>entries := fmempty\<rparr>)"
| "op_turn LenOp Locked (mu, w) = Some (Answered (LenAnswer (fcard (fmdom (entries w)))), mu, w)"
| "op_turn oper (Answered a) (mu, w) =
     Some (ReturnedAnswer a, if reads_only oper then RUnlock mu else Unlock mu, w)"
| "op_turn oper phase (mu, w) = None"

text \<open>The goroutines with what they share, and their interleavings with passing time.\<close>

type_synonym 'e locked_store = "(store_op \<times> op_phase) list \<times> RWMutex \<times> 'e InMemoryIdempotencyStore_scheme"

inductive store_step :: "'e locked_store \<Rightarrow> 'e locked_store \<Rightarrow> bool" where
  turn: "i < length ts \<Longrightarrow> op_turn (fst (ts ! i)) (snd (ts ! i)) (mu, w) = Some (p, mu', w') \<Longrightarrow>
     store_step (ts, mu, w) (ts[i := (fst (ts ! i), p)], mu', w')"
| tick: "0 \<le> d \<Longrightarrow> store_step (ts, mu, w) (ts, mu, advance d w)"

definition store_start :: "store_op list \<Rightarrow> 'e InMemoryIdempotencyStore_scheme \<Rightarrow> 'e locked_store" where
  "store_start ops w = (map (\<lambda>oper. (oper, Waiting)) ops, \<lparr>readers = 0, writer = False\<rparr>, w)"

text \<open>A schedule of turns, to execute; a goroutine that cannot make its turn lets it pass.\<close>

fun run_turns :: "nat list \<Rightarrow> 'e locked_store \<Rightarrow> 'e locked_store" where
  "run_turns [] c = c"
| "run_turns (i # is) (ts, mu, w) = run_turns is
     (if i < length ts then
        (case op_turn (fst (ts ! i)) (snd (ts ! i)) (mu, w) of
           None \<Rightarrow> (ts, mu, w)
         | Some (p, mu', w') \<Rightarrow> (ts[i := (fst (ts ! i), p)], mu', w'))
      else (ts, mu, w))"

lemma run_turns_steps: "store_step\<^sup>*\<^sup>* c (run_turns is c)"
proof (induction "is" c rule: run_turns.induct)
  case (2 i "is" ts mu w)
  then show ?case
    by (auto split: if_splits option.splits intro: converse_rtranclp_into_rtranclp store_step.turn)
qed simp

subsection \<open>The invariant of the lock\<close>

fun holding :: "op_phase \<Rightarrow> bool" where
  "holding Waiting = False"
| "holding (ReturnedAnswer a) = False"
| "holding _ = True"

definition read_holder :: "store_op \<times> op_phase \<Rightarrow> bool" where
  "read_holder t \<longleftrightarrow> reads_only (fst t) \<and> holding (snd t)"

definition write_holder :: "store_op \<times> op_phase \<Rightarrow> bool" where
  "write_holder t \<longleftrightarrow> \<not> reads_only (fst t) \<and> holding (snd t)"

definition tally :: "('a \<Rightarrow> bool) \<Rightarrow> 'a list \<Rightarrow> nat" where
  "tally P xs = length (filter P xs)"

text \<open>
  The mutex counts its holders, and excludes as it should; a goroutine is in a phase of its own
  method, and the entry that \<open>Check\<close> has read is still the one in the map.
\<close>

fun phase_ok :: "(string, memEntry) fmap \<Rightarrow> store_op \<times> op_phase \<Rightarrow> bool" where
  "phase_ok m (oper, GotEntry entry) = (case oper of CheckOp key \<Rightarrow> entry = fmlookup m key | _ \<Rightarrow> False)"
| "phase_ok m (oper, BuiltEntry en) = (case oper of RecordOp key result ttl \<Rightarrow> True | _ \<Rightarrow> False)"
| "phase_ok m (oper, phase) = True"

definition store_inv :: "'e locked_store \<Rightarrow> bool" where
  "store_inv = (\<lambda>(ts, mu, w). readers mu = tally read_holder ts \<and>
     (if writer mu then 1 else 0) = tally write_holder ts \<and> (writer mu \<longrightarrow> readers mu = 0) \<and>
     list_all (phase_ok (entries w)) ts)"

lemma store_invD:
  assumes "store_inv (ts, mu, w)"
  shows "readers mu = tally read_holder ts" and "(if writer mu then 1 else 0) = tally write_holder ts"
    and "writer mu \<longrightarrow> readers mu = 0" and "list_all (phase_ok (entries w)) ts"
  using assms unfolding store_inv_def prod.case by blast+

lemma tally_update:
  "i < length xs \<Longrightarrow> tally P (xs[i := x]) + (if P (xs ! i) then 1 else 0) = tally P xs + (if P x then 1 else 0)"
proof (induction xs arbitrary: i)
  case (Cons y xs)
  show ?case
  proof (cases i)
    case (Suc j)
    then have "tally P (xs[j := x]) + (if P (xs ! j) then 1 else 0) = tally P xs + (if P x then 1 else 0)"
      using Cons by simp
    with Suc show ?thesis by (simp add: tally_def)
  qed (simp add: tally_def)
qed simp

lemma tally_pos: "i < length xs \<Longrightarrow> P (xs ! i) \<Longrightarrow> 0 < tally P xs"
  by (auto simp: tally_def filter_empty_conv)

lemma tally_two:
  assumes "i < length xs" "j < length xs" "i \<noteq> j" "P (xs ! i)" "P (xs ! j)"
  shows "2 \<le> tally P xs"
proof -
  have "card {i, j} \<le> card {k. k < length xs \<and> P (xs ! k)}"
    using assms by (intro card_mono) auto
  then show ?thesis using assms(3) by (simp add: tally_def length_filter_conv_card)
qed

lemma tally_zero: "tally P xs = 0 \<longleftrightarrow> (\<forall>x \<in> set xs. \<not> P x)"
  by (auto simp: tally_def filter_empty_conv)

text \<open>A turn takes the lock, or works under it, or gives it back.\<close>

lemma op_turnE:
  assumes "op_turn oper p (mu, w) = Some (p', mu', w')"
  obtains (acquire) "p = Waiting" "p' = Locked" "w' = w"
      "(if reads_only oper then RLock mu else Lock mu) = Some mu'"
    | (work) "holding p" "holding p'" "mu' = mu" "reads_only oper \<Longrightarrow> w' = w"
    | (release) a where "p = Answered a" "p' = ReturnedAnswer a" "w' = w"
      "mu' = (if reads_only oper then RUnlock mu else Unlock mu)"
  using assms by (cases oper; cases p) (auto split: option.splits if_splits)

lemma op_turn_phase_ok:
  "op_turn oper p (mu, w) = Some (p', mu', w') \<Longrightarrow> phase_ok m (oper, p) \<Longrightarrow> phase_ok (entries w') (oper, p')"
  by (cases oper; cases p) (auto split: option.splits if_splits)

lemma phase_ok_writer: "phase_ok m t \<Longrightarrow> \<not> read_holder t \<Longrightarrow> phase_ok m' t"
  by (cases t; cases "snd t"; cases "fst t") (auto simp: read_holder_def)

lemma lock_simps:
  "RLock mu = Some mu' \<longleftrightarrow> \<not> writer mu \<and> mu' = mu\<lparr>readers := Suc (readers mu)\<rparr>"
  "Lock mu = Some mu' \<longleftrightarrow> \<not> writer mu \<and> readers mu = 0 \<and> mu' = mu\<lparr>writer := True\<rparr>"
  by (auto simp: RLock_def Lock_def)

lemma store_inv_start: "store_inv (store_start ops w)"
  by (auto simp: store_inv_def store_start_def tally_def read_holder_def write_holder_def list_all_iff filter_empty_conv)

text \<open>What the invariant says of a goroutine under its lock.\<close>

lemma holders:
  assumes "store_inv (ts, mu, w)" and "i < length ts"
  shows "read_holder (ts ! i) \<Longrightarrow> 0 < readers mu \<and> \<not> writer mu"
    and "write_holder (ts ! i) \<Longrightarrow> writer mu \<and> readers mu = 0"
    and "write_holder (ts ! i) \<Longrightarrow> j < length ts \<Longrightarrow> j \<noteq> i \<Longrightarrow> \<not> holding (snd (ts ! j))"
proof -
  note inv = store_invD [OF assms(1)]
  show "read_holder (ts ! i) \<Longrightarrow> 0 < readers mu \<and> \<not> writer mu"
    using inv tally_pos [OF assms(2), of read_holder] by auto
  show excl: "writer mu \<and> readers mu = 0" if "write_holder (ts ! i)"
    using inv tally_pos [OF assms(2), of write_holder] that by (auto split: if_splits)
  show "\<not> holding (snd (ts ! j))" if w: "write_holder (ts ! i)" and j: "j < length ts" "j \<noteq> i"
  proof
    assume h: "holding (snd (ts ! j))"
    show False
    proof (cases "reads_only (fst (ts ! j))")
      case True
      with h have "read_holder (ts ! j)" by (simp add: read_holder_def)
      with tally_pos [OF j(1), of read_holder] inv excl [OF w] show False by simp
    next
      case False
      with h have "write_holder (ts ! j)" by (simp add: write_holder_def)
      then have "2 \<le> tally write_holder ts" using tally_two [OF assms(2) j(1)] j(2) w by blast
      with inv(2) show False by (simp split: if_splits)
    qed
  qed
qed

lemma turn_keeps_inv:
  assumes inv: "store_inv (ts, mu, w)" and i: "i < length ts"
    and turn: "op_turn (fst (ts ! i)) (snd (ts ! i)) (mu, w) = Some (p, mu', w')"
  shows "store_inv (ts[i := (fst (ts ! i), p)], mu', w')"
proof -
  let ?t = "(fst (ts ! i), p)"
  obtain oper q where t: "ts ! i = (oper, q)" by (cases "ts ! i")
  note inv' = store_invD [OF inv]
  note counts = tally_update [OF i, of read_holder ?t] tally_update [OF i, of write_holder ?t]
  have "phase_ok (entries w') ?t"
    using op_turn_phase_ok [OF turn, of "entries w"] inv'(4) i by (simp add: list_all_length)
  moreover have "phase_ok (entries w') (ts ! j)" if j: "j < length ts" "j \<noteq> i" for j
  proof (cases "write_holder (ts ! i)")
    case True
    have "\<not> read_holder (ts ! j)"
      using holders(3) [OF inv i True j] by (simp add: read_holder_def)
    moreover have "phase_ok (entries w) (ts ! j)" using inv'(4) j by (simp add: list_all_length)
    ultimately show ?thesis by (rule phase_ok_writer [rotated])
  next
    case False
    with turn have "w' = w" by (cases rule: op_turnE) (auto simp: write_holder_def)
    with inv'(4) j show ?thesis by (simp add: list_all_length)
  qed
  ultimately have phases: "list_all (phase_ok (entries w')) (ts[i := ?t])"
    using i by (auto simp: list_all_length nth_list_update)
  from turn show ?thesis
  proof (cases rule: op_turnE)
    case acquire
    with inv' phases counts t show ?thesis
      by (auto simp: store_inv_def read_holder_def write_holder_def lock_simps split: if_splits)
  next
    case work
    with inv' phases counts t show ?thesis
      by (auto simp: store_inv_def read_holder_def write_holder_def)
  next
    case (release a)
    with inv' phases counts t holders(1,2) [OF inv i] show ?thesis
      by (auto simp: store_inv_def read_holder_def write_holder_def RUnlock_def Unlock_def split: if_splits)
  qed
qed

lemma store_step_inv: "store_step c c' \<Longrightarrow> store_inv c \<Longrightarrow> store_inv c'"
  by (induction rule: store_step.induct)
    (auto intro: turn_keeps_inv, auto simp: store_inv_def)

lemma reachable_inv: "store_step\<^sup>*\<^sup>* (store_start ops w) c \<Longrightarrow> store_inv c"
  by (induction rule: rtranclp_induct) (auto intro: store_inv_start store_step_inv)

subsection \<open>The store as its callers see it\<close>

text \<open>
  The specification: a call is one step, the whole method of \<^theory_text>\<open>IdempotencyBackends\<close> at one instant.
  A caller has its answer or has none yet.
\<close>

fun atomic_op :: "store_op \<Rightarrow> 'e InMemoryIdempotencyStore_scheme \<Rightarrow> store_answer \<times> 'e InMemoryIdempotencyStore_scheme" where
  "atomic_op (CheckOp key) w = (case Check mem_store key w of (res, w') \<Rightarrow> (CheckAnswer res, w'))"
| "atomic_op (RecordOp key result ttl) w =
     (case Record mem_store key result ttl w of (err, w') \<Rightarrow> (RecordAnswer err, w'))"
| "atomic_op FlushOp w = (FlushAnswer, mem_Flush w)"
| "atomic_op LenOp w = (LenAnswer (mem_Len w), w)"

type_synonym 'e atomic_calls = "(store_op \<times> store_answer option) list \<times> 'e InMemoryIdempotencyStore_scheme"

inductive atomic_step :: "'e atomic_calls \<Rightarrow> 'e atomic_calls \<Rightarrow> bool" where
  call: "i < length rs \<Longrightarrow> rs ! i = (oper, None) \<Longrightarrow> atomic_op oper w = (a, w') \<Longrightarrow>
     atomic_step (rs, w) (rs[i := (oper, Some a)], w')"
| time: "0 \<le> d \<Longrightarrow> atomic_step (rs, w) (rs, advance d w)"

text \<open>
  How the machine looks to the callers. \<open>Check\<close> happens when it compares with the clock, \<open>Record\<close>
  when it reads the clock: from then on its write is as good as made, since nobody else can look
  before it is.
\<close>

fun answer_of :: "op_phase \<Rightarrow> store_answer option" where
  "answer_of (Answered a) = Some a"
| "answer_of (ReturnedAnswer a) = Some a"
| "answer_of (BuiltEntry en) = Some (RecordAnswer None)"
| "answer_of phase = None"

fun built :: "store_op \<times> op_phase \<Rightarrow> bool" where
  "built (RecordOp key result ttl, BuiltEntry en) = True"
| "built t = False"

fun write_built :: "store_op \<times> op_phase \<Rightarrow> 'e InMemoryIdempotencyStore_scheme \<Rightarrow> 'e InMemoryIdempotencyStore_scheme" where
  "write_built (RecordOp key result ttl, BuiltEntry en) w = w\<lparr>entries := fmupd key en (entries w)\<rparr>"
| "write_built t w = w"

definition visible :: "'e locked_store \<Rightarrow> 'e atomic_calls" where
  "visible = (\<lambda>(ts, mu, w). (map (\<lambda>(oper, p). (oper, answer_of p)) ts, fold write_built (filter built ts) w))"

lemma filter_update_other:
  "\<not> P x \<Longrightarrow> i < length xs \<Longrightarrow> \<not> P (xs ! i) \<Longrightarrow> filter P (xs[i := x]) = filter P xs"
  by (induction xs arbitrary: i) (auto simp: nth_Cons split: nat.splits)

lemma filter_update_only:
  "filter P xs = [] \<Longrightarrow> i < length xs \<Longrightarrow> P x \<Longrightarrow> filter P (xs[i := x]) = [x]"
  by (induction xs arbitrary: i) (auto simp: nth_Cons split: nat.splits if_splits)

lemma built_writes: "built t \<Longrightarrow> write_holder t"
  by (cases t rule: built.cases) (auto simp: write_holder_def)

lemma none_built:
  assumes "store_inv (ts, mu, w)" and "i < length ts" and "holding (snd (ts ! i))" and "\<not> built (ts ! i)"
  shows "filter built ts = []"
proof -
  have "\<not> built (ts ! j)" if "j < length ts" for j
    using holders(3) [OF assms(1) that built_writes assms(2)] assms(3,4) by auto
  then show ?thesis by (metis filter_False in_set_conv_nth)
qed

lemma others_not_built:
  assumes "store_inv (ts, mu, w)" and "i < length ts" and "built (ts ! i)" and "\<not> built t"
  shows "filter built (ts[i := t]) = []"
proof -
  have "\<not> built (ts[i := t] ! j)" if "j < length ts" for j
    using holders(3) [OF assms(1,2) built_writes [OF assms(3)] that] built_writes [of "ts ! j"] assms(4) that
    by (cases "j = i") (auto simp: write_holder_def)
  then show ?thesis by (metis filter_False in_set_conv_nth length_list_update)
qed

lemma write_built_advance: "fold write_built ts (advance d w) = advance d (fold write_built ts w)"
proof (induction ts arbitrary: w)
  case (Cons t ts)
  have "write_built t (advance d w) = advance d (write_built t w)"
    by (cases t rule: built.cases) (auto simp: advance_def)
  with Cons show ?case by simp
qed simp

lemma map_answers_update:
  "i < length ts \<Longrightarrow> map (\<lambda>(oper, p). (oper, answer_of p)) (ts[i := (oper, p)]) =
    (map (\<lambda>(oper, p). (oper, answer_of p)) ts)[i := (oper, answer_of p)]"
  by (simp add: map_update)

text \<open>A turn that is not one of these instants is invisible.\<close>

lemma invisible_turn:
  assumes "i < length ts" and "ts ! i = (oper, p)" and "answer_of p' = answer_of p"
    and "\<not> built (oper, p)" and "\<not> built (oper, p')"
  shows "visible (ts[i := (oper, p')], mu', w) = visible (ts, mu, w)"
proof -
  have "(map (\<lambda>(oper, p). (oper, answer_of p)) ts)[i := (oper, answer_of p)] = map (\<lambda>(oper, p). (oper, answer_of p)) ts"
    using assms(1,2) by (intro nth_equalityI) (auto simp: nth_list_update)
  with assms show ?thesis by (simp add: visible_def map_answers_update filter_update_other)
qed

text \<open>A turn that is: the call is made on the store as the others see it.\<close>

lemma visible_turn:
  assumes "i < length ts" and "ts ! i = (oper, p)" and "answer_of p = None" and "answer_of p' = Some a"
    and "filter built ts = []" and "atomic_op oper w = (a, w1)"
    and "fold write_built (filter built (ts[i := (oper, p')])) w' = w1"
  shows "atomic_step (visible (ts, mu, w)) (visible (ts[i := (oper, p')], mu', w'))"
  using assms by (auto simp: visible_def map_answers_update intro: atomic_step.call)

lemma turn_refines:
  assumes inv: "store_inv (ts, mu, w)" and i: "i < length ts" and t: "ts ! i = (oper, p)"
    and turn: "op_turn oper p (mu, w) = Some (p', mu', w')"
  shows "atomic_step\<^sup>*\<^sup>* (visible (ts, mu, w)) (visible (ts[i := (oper, p')], mu', w'))"
  using turn
proof (cases rule: op_turnE)
  case acquire
  then have "visible (ts[i := (oper, p')], mu', w') = visible (ts, mu, w)"
    using i t by (simp add: invisible_turn)
  then show ?thesis by simp
next
  case (release a)
  then have "visible (ts[i := (oper, p')], mu', w') = visible (ts, mu, w)"
    using i t by (simp add: invisible_turn)
  then show ?thesis by simp
next
  case work
  have ok: "phase_ok (entries w) (oper, p)"
    using store_invD(4) [OF inv] i t by (metis list_all_length)
  have quiet: "filter built ts = []" if "\<not> built (oper, p)"
    using none_built [OF inv i] work(1) t that by simp
  have stay: "filter built (ts[i := (oper, q)]) = []" if "\<not> built (oper, p)" "\<not> built (oper, q)" for q
    using filter_update_other [of built "(oper, q)" i ts] quiet that i t by simp
  show ?thesis
  proof (cases "(oper, p, mu, w)" rule: op_turn.cases)
    case (2 key m v)
    with turn i t invisible_turn [OF i t, of p' mu' w' mu] show ?thesis by auto
  next
    case (3 key entry m v)
    with turn ok have "p' = Answered (CheckAnswer (fst (mem_Check key w)))"
      by (auto simp: mem_Check_def split: option.split)
    moreover have "snd (mem_Check key w) = w" by (simp add: mem_Check_def split: option.split)
    ultimately show ?thesis
      using 3 turn i t quiet stay
      by (intro r_into_rtranclp visible_turn [OF i t]) (auto simp: mem_store_def split: prod.split)
  next
    case (4 key result ttl m v)
    with turn i t quiet show ?thesis
      by (intro r_into_rtranclp visible_turn [OF i t])
        (auto simp: mem_store_def mem_Record_def filter_update_only)
  next
    case (5 key result ttl en m v)
    have rest: "filter built (ts[i := (oper, p')]) = []"
      using others_not_built [OF inv i, of "(oper, p')"] 5 turn t by auto
    have "filter built (ts[i := (oper, p'), i := ts ! i]) = [ts ! i]"
      using 5 i t by (intro filter_update_only [OF rest]) auto
    then have "filter built ts = [ts ! i]" by simp
    moreover note rest
    moreover have "(map (\<lambda>(oper, p). (oper, answer_of p)) ts)[i := (oper, answer_of p')] = map (\<lambda>(oper, p). (oper, answer_of p)) ts"
      using 5 turn i t by (intro nth_equalityI) (auto simp: nth_list_update)
    ultimately have "visible (ts[i := (oper, p')], mu', w') = visible (ts, mu, w)"
      using 5 turn i t by (auto simp: visible_def map_answers_update)
    then show ?thesis by simp
  next
    case (6 m v)
    with turn i t quiet stay show ?thesis
      by (intro r_into_rtranclp visible_turn [OF i t]) (auto simp: mem_Flush_def)
  next
    case (7 m v)
    with turn i t quiet stay show ?thesis
      by (intro r_into_rtranclp visible_turn [OF i t]) (auto simp: mem_Len_def)
  qed (use work turn in auto)
qed

lemma step_refines:
  assumes "store_step c c'" and "store_inv c"
  shows "atomic_step\<^sup>*\<^sup>* (visible c) (visible c')"
  using assms
proof (induction rule: store_step.induct)
  case (turn i ts mu w p mu' w')
  obtain oper q where "ts ! i = (oper, q)" by (cases "ts ! i")
  with turn turn_refines [OF turn.prems turn.hyps(1)] show ?case by simp
next
  case (tick d ts mu w)
  then show ?case by (auto simp: visible_def write_built_advance intro: atomic_step.time)
qed

lemma steps_refine:
  assumes "store_step\<^sup>*\<^sup>* c c'" and "store_inv c"
  shows "atomic_step\<^sup>*\<^sup>* (visible c) (visible c')"
proof -
  have "atomic_step\<^sup>*\<^sup>* (visible c) (visible c') \<and> store_inv c'"
    using assms
  proof (induction rule: rtranclp_induct)
    case (step d d')
    then show ?case using step_refines [of d d'] store_step_inv [of d d'] by (metis rtranclp_trans)
  qed simp
  then show ?thesis by simp
qed

lemma store_step_ops: "store_step\<^sup>*\<^sup>* c c' \<Longrightarrow> map fst (fst c') = map fst (fst c)"
proof (induction rule: rtranclp_induct)
  case (step d e)
  from step(2) have "map fst (fst e) = map fst (fst d)"
    by (cases rule: store_step.cases) (simp_all add: map_update list_update_same_conv)
  with step(3) show ?case by simp
qed simp

lemma visible_nth: "i < length (fst c) \<Longrightarrow> fst (visible c) ! i = (fst (fst c ! i), answer_of (snd (fst c ! i)))"
  by (simp add: visible_def split_beta)

lemma visible_at_rest:
  "list_all (\<lambda>t. \<not> holding (snd t)) (fst c) \<Longrightarrow> snd (visible c) = snd (snd c)"
proof -
  assume "list_all (\<lambda>t. \<not> holding (snd t)) (fst c)"
  then have "filter built (fst c) = []"
    by (auto simp: filter_empty_conv list_all_iff write_holder_def dest!: built_writes)
  then show ?thesis by (simp add: visible_def split_beta)
qed

subsection \<open>Properties\<close>

text \<open>
  C15. The in-memory store is linearizable: whatever the interleaving of its goroutines' locks, clock
  readings and map accesses, to the callers it is a store whose calls of \<open>Check\<close>, \<open>Record\<close>, \<open>Flush\<close>
  and \<open>Len\<close> happen one at a time, each at one instant, as the methods do on their own. A call
  happens between its begin and its return: none that has returned is still to happen, none that
  waits has happened, and whatever runs later continues from what was visible before. When no
  goroutine is inside, what is visible is the store itself.
\<close>

theorem memory_store_linearizable:
  assumes "store_step\<^sup>*\<^sup>* (store_start ops w) c" and "store_step\<^sup>*\<^sup>* c c'"
  shows "visible (store_start ops w) = (map (\<lambda>oper. (oper, None)) ops, w) \<and>
    atomic_step\<^sup>*\<^sup>* (visible (store_start ops w)) (visible c) \<and> atomic_step\<^sup>*\<^sup>* (visible c) (visible c') \<and>
    (\<forall>i < length ops. fst (visible c) ! i = (ops ! i, answer_of (snd (fst c ! i)))) \<and>
    (list_all (\<lambda>t. \<not> holding (snd t)) (fst c) \<longrightarrow> snd (visible c) = snd (snd c))"
proof (intro conjI allI impI)
  show "visible (store_start ops w) = (map (\<lambda>oper. (oper, None)) ops, w)"
    by (auto simp: visible_def store_start_def filter_map o_def)
  show "atomic_step\<^sup>*\<^sup>* (visible (store_start ops w)) (visible c)"
    using steps_refine [OF assms(1) store_inv_start] .
  show "atomic_step\<^sup>*\<^sup>* (visible c) (visible c')"
    using steps_refine [OF assms(2) reachable_inv [OF assms(1)]] .
next
  fix i assume i: "i < length ops"
  have ops: "map fst (fst c) = ops"
    using store_step_ops [OF assms(1)] by (simp add: store_start_def o_def)
  with i have "i < length (fst c)" "fst (fst c ! i) = ops ! i" by auto
  then show "fst (visible c) ! i = (ops ! i, answer_of (snd (fst c ! i)))" by (simp add: visible_nth)
qed (rule visible_at_rest)

definition two_calls :: "store_op list" where
  "two_calls = [RecordOp ''k'' (Some ''x'') 5, CheckOp ''k'']"

theorem memory_store_linearizable_witness:
  "let c = run_turns [0, 1, 0, 1, 0, 0, 1, 1, 1] (store_start two_calls empty_store) in
    atomic_step\<^sup>*\<^sup>* ([(RecordOp ''k'' (Some ''x'') 5, None), (CheckOp ''k'', None)], empty_store) (visible c) \<and>
    fst (visible c) ! 1 = (CheckOp ''k'', Some (CheckAnswer (Some ''x'', True, None)))"
proof -
  let ?start = "store_start two_calls empty_store"
  let ?c = "run_turns [0, 1, 0, 1, 0, 0, 1, 1, 1] ?start"
  have "snd (fst ?c ! 1) = Answered (CheckAnswer (Some ''x'', True, None))"
    by (simp add: store_start_def two_calls_def empty_store_def NewInMemoryIdempotencyStore_def RLock_def Lock_def
        RUnlock_def Unlock_def time_After_def time_Add_def)
  moreover note lin = memory_store_linearizable [OF run_turns_steps rtranclp.rtrancl_refl,
      of two_calls empty_store "[0, 1, 0, 1, 0, 0, 1, 1, 1]"]
  ultimately have "fst (visible ?c) ! 1 = (CheckOp ''k'', Some (CheckAnswer (Some ''x'', True, None)))"
    by (simp add: two_calls_def)
  moreover have "visible ?start = ([(RecordOp ''k'' (Some ''x'') 5, None), (CheckOp ''k'', None)], empty_store)"
    using lin by (simp add: two_calls_def)
  ultimately show ?thesis using lin by (simp only: Let_def) metis
qed

text \<open>Who is about to access the map.\<close>

fun about_to_write :: "store_op \<times> op_phase \<Rightarrow> bool" where
  "about_to_write (RecordOp key result ttl, BuiltEntry en) = True"
| "about_to_write (FlushOp, Locked) = True"
| "about_to_write t = False"

fun about_to_read :: "store_op \<times> op_phase \<Rightarrow> bool" where
  "about_to_read (CheckOp key, Locked) = True"
| "about_to_read (LenOp, Locked) = True"
| "about_to_read t = False"

lemma about_to_writeD: "about_to_write t \<Longrightarrow> write_holder t"
  by (cases t rule: about_to_write.cases) (auto simp: write_holder_def)

lemma about_to_readD: "about_to_read t \<Longrightarrow> holding (snd t)"
  by (cases t rule: about_to_read.cases) auto

text \<open>
  C33. No data race: a goroutine that is about to write the map is never at the same time as another
  that is about to read or write it.
\<close>

theorem memory_store_race_free:
  assumes "store_step\<^sup>*\<^sup>* (store_start ops w) c"
    and "i < length (fst c)" and "j < length (fst c)" and "j \<noteq> i" and "about_to_write (fst c ! i)"
  shows "\<not> about_to_write (fst c ! j) \<and> \<not> about_to_read (fst c ! j)"
proof -
  obtain ts mu v where c: "c = (ts, mu, v)" by (cases c)
  have "\<not> holding (snd (ts ! j))"
    using holders(3) [of ts mu v i j] reachable_inv [OF assms(1)] assms(2-5) c about_to_writeD by auto
  then show ?thesis
    using about_to_writeD [of "ts ! j"] about_to_readD [of "ts ! j"] c by (auto simp: write_holder_def)
qed

theorem memory_store_race_free_witness:
  "\<not> about_to_read (fst (run_turns [0, 0, 1] (store_start two_calls empty_store)) ! 1)"
  using memory_store_race_free [OF run_turns_steps, where i = 0 and j = 1 and ops = two_calls and
      w = empty_store, of "[0, 0, 1]"]
  by (simp add: store_start_def two_calls_def empty_store_def NewInMemoryIdempotencyStore_def RLock_def Lock_def)

text \<open>How many turns a call has left.\<close>

fun op_left :: "op_phase \<Rightarrow> nat" where
  "op_left Waiting = 4"
| "op_left Locked = 3"
| "op_left (GotEntry entry) = 2"
| "op_left (BuiltEntry en) = 2"
| "op_left (Answered a) = 1"
| "op_left (ReturnedAnswer a) = 0"

definition work_left :: "'e locked_store \<Rightarrow> nat" where
  "work_left c = sum_list (map (\<lambda>t. op_left (snd t)) (fst c))"

lemma op_turn_left: "op_turn oper p (mu, w) = Some (p', mu', w') \<Longrightarrow> op_left p' < op_left p"
  by (cases oper; cases p) (auto split: option.splits)

lemma sum_list_update_less:
  "i < length xs \<Longrightarrow> f x < f (xs ! i) \<Longrightarrow> sum_list (map f (xs[i := x])) < sum_list (map f xs)"
  for f :: "'a \<Rightarrow> nat"
  by (induction xs arbitrary: i) (auto simp: nth_Cons split: nat.splits)

lemma holder_can_turn:
  assumes "holding p" and "phase_ok m (oper, p)"
  shows "op_turn oper p (mu, w) \<noteq> None"
  using assms by (cases oper; cases p) auto

lemma someone_can_turn:
  assumes "store_inv (ts, mu, w)" and "i < length ts" and "op_left (snd (ts ! i)) \<noteq> 0"
  shows "\<exists>j < length ts. op_turn (fst (ts ! j)) (snd (ts ! j)) (mu, w) \<noteq> None"
proof (cases "\<exists>j < length ts. holding (snd (ts ! j))")
  case True
  then obtain j where j: "j < length ts" "holding (snd (ts ! j))" by blast
  then have "phase_ok (entries w) (fst (ts ! j), snd (ts ! j))"
    using store_invD(4) [OF assms(1)] by (simp add: list_all_length)
  with j holder_can_turn show ?thesis by blast
next
  case False
  then have "\<forall>t \<in> set ts. \<not> holding (snd t)" by (metis in_set_conv_nth)
  then have "tally read_holder ts = 0" "tally write_holder ts = 0"
    by (simp_all add: tally_zero read_holder_def write_holder_def)
  then have "readers mu = 0" "\<not> writer mu"
    using store_invD(1,2) [OF assms(1)] by (simp_all split: if_splits)
  moreover have "snd (ts ! i) = Waiting"
    using False assms(2,3) by (cases "snd (ts ! i)") auto
  ultimately have "op_turn (fst (ts ! i)) (snd (ts ! i)) (mu, w) \<noteq> None"
    by (simp add: RLock_def Lock_def)
  with assms(2) show ?thesis by blast
qed

text \<open>
  C34. The goroutines never block each other for good: while some call has not returned, one of them
  can make a turn, and every turn brings the whole nearer to its end, four turns per call at most.
\<close>

theorem memory_store_deadlock_free:
  assumes "store_step\<^sup>*\<^sup>* (store_start ops w) (ts, mu, v)"
  shows "((\<exists>i < length ts. op_turn (fst (ts ! i)) (snd (ts ! i)) (mu, v) \<noteq> None) \<longleftrightarrow> work_left (ts, mu, v) \<noteq> 0) \<and>
    (\<forall>i p mu' v'. i < length ts \<and> op_turn (fst (ts ! i)) (snd (ts ! i)) (mu, v) = Some (p, mu', v') \<longrightarrow>
      work_left (ts[i := (fst (ts ! i), p)], mu', v') < work_left (ts, mu, v)) \<and>
    work_left (ts, mu, v) \<le> 4 * length ops"
proof (intro conjI allI impI)
  note inv = reachable_inv [OF assms]
  have len: "length ts = length ops"
    using store_step_ops [OF assms] by (metis fst_conv length_map store_start_def)
  have "op_left p \<le> 4" for p by (cases p) auto
  then show "work_left (ts, mu, v) \<le> 4 * length ops"
    using len sum_list_mono [of ts "\<lambda>t. op_left (snd t)" "\<lambda>t. 4"] by (simp add: work_left_def sum_list_triv)
  show decr: "work_left (ts[i := (fst (ts ! i), p)], mu', v') < work_left (ts, mu, v)"
    if "i < length ts \<and> op_turn (fst (ts ! i)) (snd (ts ! i)) (mu, v) = Some (p, mu', v')" for i p mu' v'
    using that op_turn_left unfolding work_left_def by (fastforce intro!: sum_list_update_less)
  show "(\<exists>i < length ts. op_turn (fst (ts ! i)) (snd (ts ! i)) (mu, v) \<noteq> None) \<longleftrightarrow> work_left (ts, mu, v) \<noteq> 0"
  proof
    assume "\<exists>i < length ts. op_turn (fst (ts ! i)) (snd (ts ! i)) (mu, v) \<noteq> None"
    then show "work_left (ts, mu, v) \<noteq> 0" using decr by fastforce
  next
    assume "work_left (ts, mu, v) \<noteq> 0"
    then obtain i where "i < length ts" "op_left (snd (ts ! i)) \<noteq> 0"
      by (auto simp: work_left_def in_set_conv_nth)
    then show "\<exists>i < length ts. op_turn (fst (ts ! i)) (snd (ts ! i)) (mu, v) \<noteq> None"
      by (rule someone_can_turn [OF inv])
  qed
qed

theorem memory_store_deadlock_free_witness:
  "case run_turns [0, 0, 1] (store_start two_calls empty_store) of (ts, mu, v) \<Rightarrow> work_left (ts, mu, v) \<le> 8"
proof -
  obtain ts mu v where c: "run_turns [0, 0, 1] (store_start two_calls empty_store) = (ts, mu, v)"
    by (metis prod_cases3)
  have "store_step\<^sup>*\<^sup>* (store_start two_calls empty_store) (ts, mu, v)"
    using run_turns_steps [of "store_start two_calls empty_store" "[0, 0, 1]"] c by simp
  from memory_store_deadlock_free [OF this] c show ?thesis by (simp add: two_calls_def)
qed

end
