(* ===== verification/StoreEquivalence.thy ===== *)
theory StoreEquivalence
  imports IdempotentConcurrency
begin

text \<open>
  The two stores of \<open>activity/idempotency_store.go\<close> compared: the comments offer the in-memory store
  for tests and the Redis store for production, so a test says something about production only if
  callers cannot tell the two apart. They cannot, for positive times to live, under any
  interleaving of calls; with a time to live of zero they can.
\<close>

subsection \<open>Worlds that look alike\<close>

text \<open>
  Two worlds, of different types, related by \<open>R\<close>. Bodies, calls, events and configurations are
  alike when they take related worlds to related worlds and do the same otherwise.
\<close>

definition same_outcome :: "('a \<Rightarrow> 'b \<Rightarrow> bool) \<Rightarrow>
    go_error option \<times> 'r \<times> 'a \<Rightarrow> go_error option \<times> 'r \<times> 'b \<Rightarrow> bool" where
  "same_outcome R = (\<lambda>(e, r, a) (e', r', b). e = e' \<and> r = r' \<and> R a b)"

definition same_call :: "('a \<Rightarrow> 'b \<Rightarrow> bool) \<Rightarrow> ('r, 'a) call \<Rightarrow> ('r, 'b) call \<Rightarrow> bool" where
  "same_call R c d \<longleftrightarrow> call_key c = call_key d \<and> call_ptr c = call_ptr d \<and> call_ttl c = call_ttl d \<and>
     0 < call_ttl c \<and> (\<forall>r a b. R a b \<longrightarrow> same_outcome R (call_body c r a) (call_body d r b))"

fun same_event :: "('a \<Rightarrow> 'b \<Rightarrow> bool) \<Rightarrow> 'a event \<Rightarrow> 'b event \<Rightarrow> bool" where
  "same_event R (Turn i) (Turn j) = (i = j)"
| "same_event R (World g) (World h) = rel_fun R R g h"
| "same_event R _ _ = False"

definition same_calls :: "('a \<Rightarrow> 'b \<Rightarrow> bool) \<Rightarrow> ('r, 'a) calls \<Rightarrow> ('r, 'b) calls \<Rightarrow> bool" where
  "same_calls R = list_all2 (\<lambda>(c, p) (d, q). same_call R c d \<and> p = q)"

definition same_conf :: "('a \<Rightarrow> 'b \<Rightarrow> bool) \<Rightarrow> ('r, 'a) calls \<times> 'a \<Rightarrow> ('r, 'b) calls \<times> 'b \<Rightarrow> bool" where
  "same_conf R = (\<lambda>(cs, a) (ds, b). same_calls R cs ds \<and> R a b)"

lemma same_outcome_iff [simp]:
  "same_outcome R (e, r, a) (e', r', b) \<longleftrightarrow> e = e' \<and> r = r' \<and> R a b"
  by (simp add: same_outcome_def)

lemma same_outcomeD:
  assumes "same_outcome R x y"
  obtains e r a b where "x = (e, r, a)" "y = (e, r, b)" "R a b"
  using assms by (cases x; cases y) auto

lemma same_calls_phases: "same_calls R cs ds \<Longrightarrow> map snd cs = map snd ds"
  unfolding same_calls_def by (induction rule: list_all2_induct) auto

lemma same_calls_nth:
  assumes "same_calls R cs ds" and "i < length cs"
  shows "i < length ds" and "same_call R (fst (cs ! i)) (fst (ds ! i))" and "snd (cs ! i) = snd (ds ! i)"
  using assms unfolding same_calls_def by (auto simp: list_all2_conv_all_nth split_beta)

lemma same_calls_length: "same_calls R cs ds \<Longrightarrow> length cs = length ds"
  unfolding same_calls_def by (rule list_all2_lengthD)

lemma same_calls_update:
  assumes "same_calls R cs ds" and "i < length cs"
  shows "same_calls R (cs[i := (fst (cs ! i), p)]) (ds[i := (fst (ds ! i), p)])"
  using assms same_calls_nth [OF assms] unfolding same_calls_def
  by (intro list_all2_update_cong) simp_all

subsection \<open>Stores that answer alike\<close>

locale interchangeable_stores =
  fixes S :: "'a IdempotencyStore"
    and T :: "'b IdempotencyStore"
    and R :: "'a \<Rightarrow> 'b \<Rightarrow> bool"
  assumes check_same: "R a b \<Longrightarrow> rel_prod (=) R (Check S k a) (Check T k b)"
    and record_same: "R a b \<Longrightarrow> 0 < ttl \<Longrightarrow>
      R (snd (Record S k (Some d) ttl a)) (snd (Record T k (Some d) ttl b))"
begin

lemma checkE:
  assumes "R a b"
  obtains res a' b' where "Check S k a = (res, a')" "Check T k b = (res, b')" "R a' b'"
  using check_same [OF assms, of k] by (cases "Check S k a"; cases "Check T k b") auto

text \<open>One call of the code.\<close>

lemma execute_same:
  assumes "R a b" and "0 < ttl" and "\<And>r a b. R a b \<Longrightarrow> same_outcome R (f r a) (g r b)"
  shows "same_outcome R (ExecuteIdempotentWithTTL J S k hasPtr ttl f r a)
    (ExecuteIdempotentWithTTL J T k hasPtr ttl g r b)"
proof -
  obtain res a1 b1 where chk: "Check S k a = (res, a1)" "Check T k b = (res, b1)" "R a1 b1"
    using assms(1) by (rule checkE)
  obtain hit r1 where uc: "use_cached J hasPtr res r = (hit, r1)" by fastforce
  obtain e r2 a2 b2 where fn: "f r1 a1 = (e, r2, a2)" "g r1 b1 = (e, r2, b2)" "R a2 b2"
    using assms(3) [OF chk(3), of r1] by (rule same_outcomeD)
  show ?thesis
    using chk uc fn record_same [OF fn(3) assms(2)]
    by (auto simp: ExecuteIdempotentWithTTL_def split: bool.split option.split)
qed

text \<open>One turn of a call.\<close>

lemma turn_same:
  assumes "R a b" and "same_call R c d"
  shows "rel_option (rel_prod (=) R) (call_turn J S c p a) (call_turn J T d p b)"
proof (cases p)
  case (CheckStore r)
  obtain res a1 b1 where chk: "Check S (call_key c) a = (res, a1)" "Check T (call_key c) b = (res, b1)" "R a1 b1"
    using assms(1) by (rule checkE)
  with assms(2) CheckStore show ?thesis by (auto simp: same_call_def split: prod.split bool.split)
next
  case (RunBody r)
  have "same_outcome R (call_body c r a) (call_body d r b)" using assms by (simp add: same_call_def)
  then obtain e r2 a2 b2 where "call_body c r a = (e, r2, a2)" "call_body d r b = (e, r2, b2)" "R a2 b2"
    by (rule same_outcomeD)
  with assms(2) RunBody show ?thesis by (auto simp: same_call_def split: option.split)
next
  case (RecordResult r x)
  with assms record_same [OF assms(1)] show ?thesis by (simp add: same_call_def)
qed simp

lemma event_same:
  assumes "same_conf R conf conf'" and "same_event R ev ev'"
  shows "same_conf R (run_event J S ev conf) (run_event J T ev' conf')"
proof -
  obtain cs a ds b where conf: "conf = (cs, a)" "conf' = (ds, b)" by (cases conf; cases conf')
  with assms(1) have cs: "same_calls R cs ds" and ab: "R a b" by (simp_all add: same_conf_def)
  show ?thesis
  proof (cases ev)
    case (Turn i)
    with assms(2) have ev': "ev' = Turn i" by (cases ev') auto
    show ?thesis
    proof (cases "i < length cs")
      case True
      note at = same_calls_nth [OF cs True]
      have "rel_option (rel_prod (=) R) (call_turn J S (fst (cs ! i)) (snd (cs ! i)) a)
          (call_turn J T (fst (ds ! i)) (snd (ds ! i)) b)"
        using turn_same [OF ab at(2)] at(3) by simp
      then show ?thesis
        using Turn ev' conf True at(1) cs ab same_calls_update [OF cs True]
        by (auto simp: same_conf_def option_rel_Some1 split: option.splits)
    next
      case False
      with Turn ev' conf cs ab same_calls_length [OF cs] show ?thesis by (simp add: same_conf_def)
    qed
  next
    case (World g)
    with assms(2) obtain h where "ev' = World h" "rel_fun R R g h" by (cases ev') auto
    with World conf cs ab show ?thesis by (simp add: same_conf_def rel_funD)
  qed
qed

lemma schedule_same:
  assumes "list_all2 (same_event R) evs evs'" and "same_conf R conf conf'"
  shows "same_conf R (run_schedule J S evs conf) (run_schedule J T evs' conf')"
  using assms by (induction arbitrary: conf conf' rule: list_all2_induct) (simp_all add: event_same)

end

text \<open>Every store is interchangeable with itself, and the stores of the code are with each other, below.\<close>

interpretation mem_itself: interchangeable_stores mem_store mem_store "(=)"
  by unfold_locales (auto simp: rel_prod_sel)

subsection \<open>A Redis server with expiring keys\<close>

text \<open>
  What Redis and go-redis document of expirations. \<open>live st k\<close> is what the server holds under a
  key and has not expired, with the instant at which it expires, None for never. \<open>Get\<close> hands it
  out or says "redis: nil"; \<open>Set\<close> with a positive expiration keeps the value for that long, with
  expiration zero for ever; a key is gone once the clock has passed its instant. \<open>pass d\<close> lets time
  pass. The client never fails, and its clock is the one of the process.
\<close>

type_synonym 'st redis_view = "'st \<Rightarrow> string \<Rightarrow> (string \<times> time option) option"

definition redis_expiring ::
    "app_text \<Rightarrow> 'st RedisClient \<Rightarrow> 'st redis_view \<Rightarrow> ('st \<Rightarrow> time) \<Rightarrow> (duration \<Rightarrow> 'st \<Rightarrow> 'st) \<Rightarrow> bool" where
  "redis_expiring tx c live now pass \<longleftrightarrow>
     (\<forall>k st. case rc_Get c k st of (r, st') \<Rightarrow> live st' = live st \<and> now st' = now st \<and>
        (case live st k of Some (v, x) \<Rightarrow> r = Inr v
         | None \<Rightarrow> (\<exists>e. r = Inl e \<and> error_text tx e = ErrRedisNil))) \<and>
     (\<forall>k v ttl st. case rc_Set c k v ttl st of (r, st') \<Rightarrow> r = None \<and> now st' = now st \<and>
        (0 \<le> ttl \<longrightarrow> live st' = (live st)(k \<mapsto> (v, if ttl = 0 then None else Some (now st + ttl))))) \<and>
     (\<forall>d st. 0 \<le> d \<longrightarrow> now (pass d st) = now st + d \<and>
        (\<forall>k. live (pass d st) k = (case live st k of
           Some (v, Some t) \<Rightarrow> if t < now st + d then None else Some (v, Some t) | r \<Rightarrow> r)))"

lemma redis_expiringD:
  assumes "redis_expiring tx c live now pass"
  shows "rc_Get c k st = (r, st') \<Longrightarrow> live st' = live st \<and> now st' = now st"
    and "rc_Get c k st = (r, st') \<Longrightarrow> live st k = Some (v, x) \<Longrightarrow> r = Inr v"
    and "rc_Get c k st = (r, st') \<Longrightarrow> live st k = None \<Longrightarrow> \<exists>e. r = Inl e \<and> error_text tx e = ErrRedisNil"
    and "rc_Set c k v ttl st = (e, st') \<Longrightarrow> e = None \<and> now st' = now st"
    and "rc_Set c k v ttl st = (e, st') \<Longrightarrow> 0 \<le> ttl \<Longrightarrow>
      live st' = (live st)(k \<mapsto> (v, if ttl = 0 then None else Some (now st + ttl)))"
    and "0 \<le> d \<Longrightarrow> now (pass d st) = now st + d"
    and "0 \<le> d \<Longrightarrow> live (pass d st) k = (case live st k of
           Some (v, Some t) \<Rightarrow> if t < now st + d then None else Some (v, Some t) | r \<Rightarrow> r)"
  using assms unfolding redis_expiring_def by (fastforce split: prod.splits)+

text \<open>What the in-memory store holds and has not expired, with its instant.\<close>

definition mem_live :: "'e InMemoryIdempotencyStore_scheme \<Rightarrow> string \<Rightarrow> (bytes option \<times> time) option" where
  "mem_live w key =
     (case fmlookup (entries w) key of
        None \<Rightarrow> None
      | Some en \<Rightarrow> if time_After (clock w) (expiresAt en) then None else Some (data en, expiresAt en))"

lemma mem_live_record [simp]:
  "mem_live (snd (mem_Record key d ttl w)) k =
     (if k = key then (if ttl < 0 then None else Some (d, clock w + ttl)) else mem_live w k)"
  by (simp add: mem_live_def mem_Record_def time_After_def time_Add_def split: option.split)

lemma mem_Record_fields [simp]:
  "clock (snd (mem_Record key d ttl w)) = clock w" "fst (mem_Record key d ttl w) = None"
  by (simp_all add: mem_Record_def)

text \<open>
  A process with the in-memory store and one with the Redis store agree: their clocks do, they hold
  the same records with the same instants of expiry, and \<open>W\<close> says what else they have in common.
\<close>

definition same_record :: "bytes option \<times> time \<Rightarrow> string \<times> time option \<Rightarrow> bool" where
  "same_record = (\<lambda>(d, t) (v, x). d = Some v \<and> x = Some t)"

definition stores_agree ::
    "'st RedisIdempotencyStore \<Rightarrow> 'st redis_view \<Rightarrow> ('st \<Rightarrow> time) \<Rightarrow>
     ('e InMemoryIdempotencyStore_scheme \<Rightarrow> 'st \<Rightarrow> bool) \<Rightarrow> 'e InMemoryIdempotencyStore_scheme \<Rightarrow> 'st \<Rightarrow> bool" where
  "stores_agree s live now W w st \<longleftrightarrow> clock w = now st \<and> W w st \<and>
     (\<forall>key. rel_option same_record (mem_live w key) (live st (redisKey s key)))"

text \<open>The stores themselves touch nothing else.\<close>

definition stores_keep ::
    "'st RedisClient \<Rightarrow> ('e InMemoryIdempotencyStore_scheme \<Rightarrow> 'st \<Rightarrow> bool) \<Rightarrow> bool" where
  "stores_keep c W \<longleftrightarrow>
     (\<forall>w st m k v ttl. W w st \<longrightarrow> W (w\<lparr>entries := m\<rparr>) st \<and> W w (snd (rc_Get c k st)) \<and>
        W w (snd (rc_Set c k v ttl st)))"

lemma stores_keepD:
  assumes "stores_keep c W" and "W w st"
  shows "W (w\<lparr>entries := m\<rparr>) st" and "rc_Get c k st = (r, st') \<Longrightarrow> W w st'"
    and "rc_Set c k v ttl st = (e, st') \<Longrightarrow> W w st'"
  using assms unfolding stores_keep_def by (metis snd_conv)+

lemma agree_check:
  assumes "redis_expiring tx (client s) live now pass" and "stores_keep (client s) W"
    and "stores_agree s live now W w st"
  shows "rel_prod (=) (stores_agree s live now W) (Check mem_store key w) (Check (redis_store tx s) key st)"
proof -
  obtain r st' where get: "rc_Get (client s) (redisKey s key) st = (r, st')" by fastforce
  have "stores_agree s live now W w st'"
    using assms(3) redis_expiringD(1) [OF assms(1) get] stores_keepD(2) [OF assms(2) _ get]
    by (auto simp: stores_agree_def)
  moreover have "rel_option same_record (mem_live w key) (live st (redisKey s key))"
    using assms(3) by (simp add: stores_agree_def)
  ultimately show ?thesis
    using get redis_expiringD(2,3) [OF assms(1) get]
    by (cases "live st (redisKey s key)")
      (auto simp: mem_defs redis_store_def redis_Check_def mem_live_def same_record_def
        split: option.splits if_splits)
qed

lemma agree_record:
  assumes "redis_expiring tx (client s) live now pass" and "stores_keep (client s) W"
    and "stores_agree s live now W w st" and "0 < ttl"
  shows "stores_agree s live now W (snd (Record mem_store key (Some d) ttl w))
    (snd (Record (redis_store tx s) key (Some d) ttl st))"
proof -
  obtain e st' where set: "rc_Set (client s) (redisKey s key) d ttl st = (e, st')" by fastforce
  note out = redis_expiringD(4) [OF assms(1) set] redis_expiringD(5) [OF assms(1) set]
  have "W (snd (mem_Record key (Some d) ttl w)) st'"
    using assms(3) stores_keepD(1) [OF assms(2)] stores_keepD(3) [OF assms(2) _ set]
    by (simp add: stores_agree_def mem_Record_def)
  with assms(3,4) out set show ?thesis
    by (auto simp: stores_agree_def mem_store_def redis_store_def redis_Record_def
        bytes_string_def same_record_def)
qed

lemma agreeing_stores_interchangeable:
  assumes "redis_expiring tx (client s) live now pass" and "stores_keep (client s) W"
  shows "interchangeable_stores mem_store (redis_store tx s) (stores_agree s live now W)"
  by unfold_locales (use agree_check [OF assms] agree_record [OF assms] in blast)+

text \<open>They keep agreeing while time passes.\<close>

lemma time_passes_alike:
  assumes "redis_expiring tx (client s) live now pass" and "0 \<le> d"
    and "\<And>w st. W w st \<Longrightarrow> W (advance d w) (pass d st)"
  shows "rel_fun (stores_agree s live now W) (stores_agree s live now W) (advance d) (pass d)"
proof
  fix w st
  assume agree: "stores_agree s live now W w st"
  have "rel_option same_record (mem_live (advance d w) key) (live (pass d st) (redisKey s key))" for key
  proof -
    have "rel_option same_record (mem_live w key) (live st (redisKey s key))" and "clock w = now st"
      using agree by (simp_all add: stores_agree_def)
    then show ?thesis
      using assms(2) redis_expiringD(7) [OF assms(1,2), of st "redisKey s key"]
      by (auto simp: mem_live_def same_record_def time_After_def split: option.splits if_splits)
  qed
  with agree assms(3) redis_expiringD(6) [OF assms(1,2)]
  show "stores_agree s live now W (advance d w) (pass d st)"
    by (simp add: stores_agree_def)
qed

subsection \<open>Properties\<close>


text \<open>A Redis server in a process that counts charges, as the in-memory one above does.\<close>

record redis_server =
  rs_keys :: "string \<rightharpoonup> string \<times> time option"
  rs_now :: time
  rs_charges :: nat

definition rs_live :: "redis_server redis_view" where
  "rs_live st k = (case rs_keys st k of
     Some (v, Some t) \<Rightarrow> if t < rs_now st then None else Some (v, Some t) | r \<Rightarrow> r)"

definition rs_pass :: "duration \<Rightarrow> redis_server \<Rightarrow> redis_server" where
  "rs_pass d st = st\<lparr>rs_now := rs_now st + d\<rparr>"

definition rs_client :: "redis_server RedisClient" where
  "rs_client =
     \<lparr>rc_Get = (\<lambda>k st. (case rs_live st k of None \<Rightarrow> Inl (ErrorString ErrRedisNil) | Some (v, x) \<Rightarrow> Inr v, st)),
      rc_Set = (\<lambda>k v ttl st. (None, st\<lparr>rs_keys := (rs_keys st)
        (k \<mapsto> (v, if ttl = 0 then None else Some (rs_now st + ttl)))\<rparr>))\<rparr>"

lemma rs_client_expiring: "redis_expiring tx rs_client rs_live rs_now rs_pass"
  by (auto simp: redis_expiring_def rs_client_def rs_live_def rs_pass_def fun_eq_iff
      split: option.splits prod.splits)

definition equal_charges :: "charging_process \<Rightarrow> redis_server \<Rightarrow> bool" where
  "equal_charges w st \<longleftrightarrow> charges w = rs_charges st"

lemma rs_client_keeps: "stores_keep rs_client equal_charges"
  by (auto simp: stores_keep_def rs_client_def equal_charges_def)

interpretation rs_store: interchangeable_stores mem_store "redis_store tx \<lparr>client = rs_client, keyPrefix = p\<rparr>"
  "stores_agree \<lparr>client = rs_client, keyPrefix = p\<rparr> rs_live rs_now equal_charges"
  for tx p
  by (rule agreeing_stores_interchangeable [where pass = rs_pass]) (simp_all add: rs_client_expiring rs_client_keeps)

definition rs_charge :: "string \<Rightarrow> (string, redis_server) call" where
  "rs_charge tx = \<lparr>call_key = ''k'', call_ptr = True, call_ttl = 10,
     call_body = (\<lambda>r st. (None, tx, st\<lparr>rs_charges := Suc (rs_charges st)\<rparr>))\<rparr>"

lemma same_charge: "same_call (stores_agree s rs_live rs_now equal_charges) (charge tx) (rs_charge tx)"
  by (auto simp: same_call_def charge_def rs_charge_def stores_agree_def equal_charges_def mem_live_def rs_live_def
      cong: option.case_cong)


text \<open>
  Where they differ: a time to live of zero is over at once in memory, and lasts for ever on Redis,
  where expiration zero means none.
\<close>

theorem zero_ttl_differs:
  assumes "redis_expiring tx (client s) live now pass" and "0 < d"
  shows "fst (mem_Check key (advance d (snd (mem_Record key (Some b) 0 w)))) = (None, False, None) \<and>
    fst (redis_Check tx s key (pass d (snd (redis_Record s key (Some b) 0 st)))) = (Some b, True, None)"
proof
  obtain e st1 where set: "rc_Set (client s) (redisKey s key) b 0 st = (e, st1)" by fastforce
  have kept: "live (pass d st1) (redisKey s key) = Some (b, None)"
    using redis_expiringD(5) [OF assms(1) set] redis_expiringD(7) [OF assms(1), of d st1 "redisKey s key"] assms(2)
    by simp
  obtain r st2 where get: "rc_Get (client s) (redisKey s key) (pass d st1) = (r, st2)" by fastforce
  show "fst (redis_Check tx s key (pass d (snd (redis_Record s key (Some b) 0 st)))) = (Some b, True, None)"
    using set get redis_expiringD(2) [OF assms(1) get kept]
    by (auto simp: redis_Record_def redis_Check_def bytes_string_def split: option.split)
qed (use assms(2) in \<open>simp add: mem_defs\<close>)

theorem zero_ttl_differs_witness:
  "fst (redis_Check (\<lambda>m t n c. m) \<lparr>client = rs_client, keyPrefix = ''loan''\<rparr> ''k'' (rs_pass 1
     (snd (redis_Record \<lparr>client = rs_client, keyPrefix = ''loan''\<rparr> ''k'' (Some ''x'') 0
       \<lparr>rs_keys = Map.empty, rs_now = 0, rs_charges = 0\<rparr>)))) = (Some ''x'', True, None)"
proof -
  have doc: "redis_expiring (\<lambda>m t n c. m) (client \<lparr>client = rs_client, keyPrefix = ''loan''\<rparr>) rs_live rs_now rs_pass"
    by (simp add: rs_client_expiring)
  show ?thesis using zero_ttl_differs [OF doc, of 1] by (rule conjunct2) simp
qed

end
