(* ===== verification/ActivityDeduplication.thy ===== *)
theory ActivityDeduplication
  imports IdempotencyKeys IdempotentConcurrency
begin

text \<open>
  The keys of \<open>activity/idempotency.go\<close> together with \<open>ExecuteIdempotent\<close> of
  \<open>activity/idempotency_store.go\<close>, the way the usage comment combines them: the attempts that the
  server delivers at any number of activities, one after the other, each asking the in-memory store
  under its key. Which body runs how often depends on the key.
\<close>

subsection \<open>Deliveries\<close>

text \<open>A process that notes the attempts whose body has run.\<close>

record noting_process = InMemoryIdempotencyStore +
  executed :: "activity_info list"

text \<open>
  What the bodies do: the outcome of the body of an attempt, from the value of the result variable.
\<close>

type_synonym 'r bodies = "activity_info \<Rightarrow> 'r \<Rightarrow> go_error option \<times> 'r"

definition noted_body ::
    "'r bodies \<Rightarrow> activity_info \<Rightarrow> 'r \<Rightarrow> noting_process \<Rightarrow> go_error option \<times> 'r \<times> noting_process" where
  "noted_body f i r w = (case f i r of (e, r') \<Rightarrow> (e, r', w\<lparr>executed := executed w @ [i]\<rparr>))"

definition attempt ::
    "(activity_info \<Rightarrow> string) \<Rightarrow> 'r codec \<Rightarrow> 'r bodies \<Rightarrow> 'r \<Rightarrow> activity_info \<Rightarrow> noting_process \<Rightarrow>
     go_error option \<times> 'r \<times> noting_process" where
  "attempt key J f r0 i w = ExecuteIdempotent J mem_store (key i) True (noted_body f i) r0 w"

text \<open>The attempts with the time that passes before each, and what each returns.\<close>

fun deliver ::
    "(activity_info \<Rightarrow> string) \<Rightarrow> 'r codec \<Rightarrow> 'r bodies \<Rightarrow> 'r \<Rightarrow> (duration \<times> activity_info) list \<Rightarrow> noting_process \<Rightarrow>
     (activity_info \<times> go_error option \<times> 'r) list \<times> noting_process" where
  "deliver key J f r0 [] w = ([], w)"
| "deliver key J f r0 ((d, i) # ds) w =
     (case attempt key J f r0 i (advance d w) of (e, r, w1) \<Rightarrow>
       (case deliver key J f r0 ds w1 of (outs, w2) \<Rightarrow> ((i, e, r) # outs, w2)))"

text \<open>The runs of bodies under one key that succeeded.\<close>

definition successes :: "(activity_info \<Rightarrow> string) \<Rightarrow> 'r bodies \<Rightarrow> 'r \<Rightarrow> string \<Rightarrow> noting_process \<Rightarrow> activity_info list" where
  "successes key f r0 k w = filter (\<lambda>i. key i = k \<and> fst (f i r0) = None) (executed w)"

lemma attempt_miss:
  assumes "mem_held w (key i) = None" and "f i r0 = (e, r)" and "Marshal J r = Some b"
  shows "attempt key J f r0 i w = (e, r, w\<lparr>executed := executed w @ [i],
    entries := (if e = None then fmupd (key i) \<lparr>data = Some b, expiresAt = clock w + DefaultTTL\<rparr> (entries w) else entries w)\<rparr>)"
proof -
  obtain res where chk: "Check mem_store (key i) w = (res, w)" using mem.check_eq by blast
  have "use_cached J True res r0 = (False, r0)" by (rule mem.miss_runs_body [OF assms(1) chk])
  with chk assms(2,3) show ?thesis
    by (cases e) (simp_all add: attempt_def ExecuteIdempotent_def ExecuteIdempotentWithTTL_def noted_body_def
        encoded_result_def mem_store_def mem_Record_def time_Add_def)
qed

lemma attempt_hit:
  assumes "mem_held w (key i) = Some b" and "Unmarshal J b r0 = (True, r)"
  shows "attempt key J f r0 i w = (None, r, w)"
  using assms by (simp add: attempt_def ExecuteIdempotent_def mem.hit_skips_body)

subsection \<open>What the store knows of a key\<close>

text \<open>
  Until \<open>limit\<close>: no body of the key has succeeded and nothing is recorded, or exactly one has, and
  its result is recorded.
\<close>

definition key_inv ::
    "(activity_info \<Rightarrow> string) \<Rightarrow> 'r codec \<Rightarrow> 'r bodies \<Rightarrow> 'r \<Rightarrow> time \<Rightarrow> noting_process \<Rightarrow> string \<Rightarrow> bool" where
  "key_inv key J f r0 limit w k \<longleftrightarrow>
     successes key f r0 k w = [] \<and> fmlookup (entries w) k = None \<or>
     (\<exists>i r b t. successes key f r0 k w = [i] \<and> f i r0 = (None, r) \<and> Marshal J r = Some b \<and>
        fmlookup (entries w) k = Some \<lparr>data = Some b, expiresAt = t\<rparr> \<and> limit \<le> t)"

lemma key_inv_advance: "key_inv key J f r0 limit (advance d w) k = key_inv key J f r0 limit w k"
  by (simp add: key_inv_def successes_def advance_def)

lemma key_inv_cases:
  assumes "key_inv key J f r0 limit w k" and "clock w \<le> limit"
  obtains (fresh) "successes key f r0 k w = []" "fmlookup (entries w) k = None" "mem_held w k = None"
    | (known) i r b where "successes key f r0 k w = [i]" "f i r0 = (None, r)" "Marshal J r = Some b" "mem_held w k = Some b"
  using assms by (auto simp: key_inv_def mem_held_def time_After_def)

lemma attempt_step:
  assumes "codec_roundtrip J" and "\<And>x. Marshal J x \<noteq> None" and inv: "\<And>k. key_inv key J f r0 limit w k"
    and "clock w \<le> limit" and "limit \<le> clock w + DefaultTTL" and run: "attempt key J f r0 i w = (e, r, w')"
  shows "(\<forall>k. key_inv key J f r0 limit w' k) \<and> clock w' = clock w \<and>
    (\<forall>k. \<exists>new. successes key f r0 k w' = successes key f r0 k w @ new) \<and>
    (e = None \<longrightarrow> (\<exists>j. successes key f r0 (key i) w' = [j] \<and> f j r0 = (None, r)))"
proof (rule key_inv_cases [OF inv [of "key i"] assms(4)])
  assume fresh: "successes key f r0 (key i) w = []" "fmlookup (entries w) (key i) = None" "mem_held w (key i) = None"
  obtain e0 r1 where body: "f i r0 = (e0, r1)" by fastforce
  obtain b where enc: "Marshal J r1 = Some b" using assms(2) by blast
  have w': "e = e0" "r = r1" "w' = w\<lparr>executed := executed w @ [i],
      entries := (if e = None then fmupd (key i) \<lparr>data = Some b, expiresAt = clock w + DefaultTTL\<rparr> (entries w) else entries w)\<rparr>"
    using attempt_miss [where key = key and i = i and w = w and f = f, OF fresh(3) body enc] run by auto
  have succ: "successes key f r0 k w' = successes key f r0 k w @ (if key i = k \<and> e = None then [i] else [])" for k
    using body w' by (simp add: successes_def)
  have "key_inv key J f r0 limit w' k" for k
  proof (cases "key i = k \<and> e = None")
    case True
    with fresh(1) succ [of k] w' body enc assms(5) show ?thesis by (auto simp: key_inv_def)
  next
    case False
    with inv [of k] succ [of k] w' show ?thesis by (auto simp: key_inv_def)
  qed
  with succ fresh(1) w' body show ?thesis by auto
next
  fix j x b
  assume known: "successes key f r0 (key i) w = [j]" "f j r0 = (None, x)" "Marshal J x = Some b" "mem_held w (key i) = Some b"
  have "Unmarshal J b r0 = (True, x)" using assms(1) known(3) by (simp add: codec_roundtrip_def)
  from attempt_hit [where key = key and i = i and w = w, OF known(4) this] run have "e = None" "r = x" "w' = w" by auto
  with inv known show ?thesis by simp
qed

lemma deliver_step:
  assumes "codec_roundtrip J" and "\<And>x. Marshal J x \<noteq> None"
    and "\<And>k. key_inv key J f r0 limit w k" and "\<forall>(d, i) \<in> set ds. 0 \<le> d"
    and "clock w + sum_list (map fst ds) \<le> limit" and "limit \<le> clock w + DefaultTTL"
    and "deliver key J f r0 ds w = (outs, w')"
  shows "(\<forall>k. key_inv key J f r0 limit w' k) \<and> (\<forall>k. \<exists>new. successes key f r0 k w' = successes key f r0 k w @ new) \<and>
    (\<forall>(i, e, r) \<in> set outs. e = None \<longrightarrow> (\<exists>j. successes key f r0 (key i) w' = [j] \<and> f j r0 = (None, r)))"
  using assms(3-7)
proof (induction ds arbitrary: w outs)
  case (Cons x ds)
  obtain d i where x: "x = (d, i)" by (cases x)
  obtain e r w1 where run: "attempt key J f r0 i (advance d w) = (e, r, w1)" by (metis prod_cases3)
  obtain outs' where del: "deliver key J f r0 ds w1 = (outs', w')" and outs: "outs = (i, e, r) # outs'"
    using Cons.prems(5) x run by (auto split: prod.splits)
  have d: "0 \<le> d" "\<forall>(d, i) \<in> set ds. 0 \<le> d" using Cons.prems(2) x by auto
  then have "0 \<le> sum_list (map fst ds)" by (intro sum_list_nonneg) auto
  then have clk: "clock (advance d w) \<le> limit" using Cons.prems(3) x by simp
  have step: "(\<forall>k. key_inv key J f r0 limit w1 k) \<and> clock w1 = clock (advance d w) \<and>
      (\<forall>k. \<exists>new. successes key f r0 k w1 = successes key f r0 k (advance d w) @ new) \<and>
      (e = None \<longrightarrow> (\<exists>j. successes key f r0 (key i) w1 = [j] \<and> f j r0 = (None, r)))"
    using Cons.prems(1,4) d(1) clk
    by (intro attempt_step [OF assms(1,2) _ _ _ run]) (simp_all add: key_inv_advance)
  have rest: "(\<forall>k. key_inv key J f r0 limit w' k) \<and> (\<forall>k. \<exists>new. successes key f r0 k w' = successes key f r0 k w1 @ new) \<and>
      (\<forall>(i, e, r) \<in> set outs'. e = None \<longrightarrow> (\<exists>j. successes key f r0 (key i) w' = [j] \<and> f j r0 = (None, r)))"
    using step d Cons.prems(3,4) x by (intro Cons.IH [OF _ d(2) _ _ del]) simp_all
  have same: "successes key f r0 k (advance d w) = successes key f r0 k w" for k
    by (simp add: successes_def advance_def)
  have first: "\<exists>j. successes key f r0 (key i) w' = [j] \<and> f j r0 = (None, r)" if e: "e = None"
  proof -
    obtain j where j: "successes key f r0 (key i) w1 = [j]" "f j r0 = (None, r)" using step e by blast
    obtain new where "successes key f r0 (key i) w' = [j] @ new" using rest j(1) by metis
    moreover have "length (successes key f r0 (key i) w') \<le> 1"
      using rest by (auto simp: key_inv_def dest: spec [of _ "key i"])
    ultimately show ?thesis using j(2) by simp
  qed
  have grow: "\<exists>new. successes key f r0 k w' = successes key f r0 k w @ new" for k
  proof -
    obtain new1 new2 where "successes key f r0 k w1 = successes key f r0 k w @ new1"
      "successes key f r0 k w' = successes key f r0 k w1 @ new2" using rest step same by metis
    then show ?thesis by simp
  qed
  show ?case using rest first outs grow by auto
next
  case Nil
  then show ?case by auto
qed

text \<open>Only bodies of delivered attempts are run.\<close>

lemma stores_run_no_bodies:
  "executed (snd (Record mem_store k d ttl w)) = executed w" "executed (snd (Check mem_store k w)) = executed w"
  by (simp_all add: mem_defs split: option.split)

lemma attempt_executed:
  assumes "attempt key J f r0 i w = (e, r, w')"
  shows "set (executed w') \<subseteq> insert i (set (executed w))"
proof -
  obtain res w1 where chk: "Check mem_store (key i) w = (res, w1)" by fastforce
  then have "executed w1 = executed w" using stores_run_no_bodies(2) by (metis snd_conv)
  with assms chk show ?thesis
    by (auto simp: attempt_def ExecuteIdempotent_def ExecuteIdempotentWithTTL_def noted_body_def
        stores_run_no_bodies(1) split: prod.splits option.splits bool.splits)
qed

lemma deliver_executed:
  "deliver key J f r0 ds w = (outs, w') \<Longrightarrow>
   set (executed w') \<subseteq> snd ` set ds \<union> set (executed w) \<and> map fst outs = map snd ds"
proof (induction key J f r0 ds w arbitrary: outs rule: deliver.induct)
  case (2 key J f r0 d i ds w)
  obtain e r w1 where run: "attempt key J f r0 i (advance d w) = (e, r, w1)" by (metis prod_cases3)
  obtain outs' where del: "deliver key J f r0 ds w1 = (outs', w')" and outs: "outs = (i, e, r) # outs'"
    using "2.prems" run by (auto split: prod.splits)
  have "set (executed w1) \<subseteq> insert i (set (executed w))"
    using attempt_executed [OF run] by (simp add: advance_def)
  moreover have "set (executed w') \<subseteq> snd ` set ds \<union> set (executed w1) \<and> map fst outs' = map snd ds"
    using "2.IH" [OF run [symmetric] _ del] by simp
  ultimately show ?case using outs by auto
qed simp

subsection \<open>What the keys buy\<close>

text \<open>The attempts of one activity of one workflow id.\<close>

definition same_activity :: "activity_info \<Rightarrow> activity_info \<Rightarrow> bool" where
  "same_activity i j \<longleftrightarrow> ai_WorkflowID i = ai_WorkflowID j \<and> ai_ActivityID i = ai_ActivityID j"

text \<open>
  C9. With the stable key every activity takes effect once, whatever attempts of other activities are
  delivered in between: the attempts of one activity run at most one body that succeeds, and when any
  of them reports success there is exactly one, and every success of the activity returns that one's
  result. This is for attempts delivered one after another, each run to its end before the next, all
  within the default time to live of the first, on an in-memory store that starts empty, with activity
  ids without slashes and results that can be encoded and decode to themselves. Attempts that overlap
  can both execute.
\<close>

theorem stable_key_executes_once:
  assumes "codec_roundtrip J" and "\<And>x. Marshal J x \<noteq> None"
    and "\<forall>(d, i) \<in> set ds. 0 \<le> d \<and> slash_free (ai_ActivityID i)" and "sum_list (map fst ds) \<le> DefaultTTL"
    and run: "deliver IdempotencyKeyNoRetry J f r0 ds \<lparr>entries = fmempty, clock = t, executed = []\<rparr> = (outs, w')"
  shows "\<forall>i \<in> snd ` set ds.
    (let effects = filter (\<lambda>j. same_activity j i \<and> fst (f j r0) = None) (executed w') in
       length effects \<le> 1 \<and>
       (\<forall>r. (i, None, r) \<in> set outs \<longrightarrow> (\<exists>j. effects = [j] \<and> f j r0 = (None, r))))"
proof
  fix i
  assume i: "i \<in> snd ` set ds"
  let ?start = "\<lparr>entries = fmempty, clock = t, executed = []\<rparr>"
  let ?k = IdempotencyKeyNoRetry
  have "(\<forall>k. key_inv ?k J f r0 (t + DefaultTTL) w' k) \<and>
      (\<forall>k. \<exists>new. successes ?k f r0 k w' = successes ?k f r0 k ?start @ new) \<and>
      (\<forall>(i, e, r) \<in> set outs. e = None \<longrightarrow> (\<exists>j. successes ?k f r0 (?k i) w' = [j] \<and> f j r0 = (None, r)))"
    using assms(3,4) by (intro deliver_step [OF assms(1,2) _ _ _ _ run]) (auto simp: key_inv_def successes_def)
  then have inv: "key_inv ?k J f r0 (t + DefaultTTL) w' (?k i)"
    and out: "(i, None, r) \<in> set outs \<Longrightarrow> \<exists>j. successes ?k f r0 (?k i) w' = [j] \<and> f j r0 = (None, r)" for r
    by fastforce+
  have "slash_free (ai_ActivityID j)" if "j \<in> set (executed w')" for j
    using deliver_executed [OF run] that assms(3) by fastforce
  then have "same_activity j i \<longleftrightarrow> ?k j = ?k i" if "j \<in> set (executed w')" for j
    using that i assms(3) by (auto simp: same_activity_def NoRetry_inject)
  then have "filter (\<lambda>j. same_activity j i \<and> fst (f j r0) = None) (executed w') = successes ?k f r0 (?k i) w'"
    unfolding successes_def by (intro filter_cong) auto
  then show "let effects = filter (\<lambda>j. same_activity j i \<and> fst (f j r0) = None) (executed w') in
       length effects \<le> 1 \<and> (\<forall>r. (i, None, r) \<in> set outs \<longrightarrow> (\<exists>j. effects = [j] \<and> f j r0 = (None, r)))"
    using inv out by (auto simp: Let_def key_inv_def)
qed

text \<open>A charge whose second attempt would book another transaction.\<close>

definition booking :: "string bodies" where
  "booking i r = (if ai_Attempt i = 1 then (Some (ErrorString ''timeout''), r) else (None, ''tx-'' @ show_int (ai_Attempt i)))"

definition charge_attempt :: "string \<Rightarrow> int \<Rightarrow> activity_info" where
  "charge_attempt run n = \<lparr>ai_WorkflowID = ''order/1'', ai_RunID = run, ai_ActivityID = ''7'', ai_Attempt = n\<rparr>"

theorem stable_key_executes_once_witness:
  "let ds = [(0, charge_attempt ''r1'' 1), (5, charge_attempt ''r1'' 2), (7, charge_attempt ''r1'' 3)];
       (outs, w') = deliver IdempotencyKeyNoRetry text_codec booking [] ds \<lparr>entries = fmempty, clock = 0, executed = []\<rparr>
   in \<forall>i \<in> snd ` set ds.
       (let effects = filter (\<lambda>j. same_activity j i \<and> fst (booking j []) = None) (executed w') in
          length effects \<le> 1 \<and>
          (\<forall>r. (i, None, r) \<in> set outs \<longrightarrow> (\<exists>j. effects = [j] \<and> booking j [] = (None, r))))"
proof -
  let ?ds = "[(0 :: duration, charge_attempt ''r1'' 1), (5, charge_attempt ''r1'' 2), (7, charge_attempt ''r1'' 3)]"
  obtain outs w' where run: "deliver IdempotencyKeyNoRetry text_codec booking [] ?ds
      \<lparr>entries = fmempty, clock = 0, executed = []\<rparr> = (outs, w')" by fastforce
  have "codec_roundtrip text_codec" "\<And>x. Marshal text_codec x \<noteq> None"
    "\<forall>(d, i) \<in> set ?ds. 0 \<le> d \<and> slash_free (ai_ActivityID i)" "sum_list (map fst ?ds) \<le> DefaultTTL"
    by (simp_all add: codec_roundtrip_def text_codec_def charge_attempt_def slash_free_def DefaultTTL_def duration_units)
  from stable_key_executes_once [OF this run] show ?thesis by (simp only: Let_def run split)
qed

text \<open>
  With the per-attempt key the store deduplicates nothing across attempts: the retry of an
  attempt that had succeeded, and whose response was lost, runs the body again.
\<close>

theorem per_attempt_key_reexecutes:
  assumes "same_activity i j" and "ai_Attempt i \<noteq> ai_Attempt j"
    and "slash_free (ai_ActivityID i)" and "\<And>x. Marshal J x \<noteq> None"
    and "f i r0 = (None, r)" and "f j r0 = (None, r')"
  shows "\<exists>w'. deliver IdempotencyKey J f r0 [(0, i), (d, j)] \<lparr>entries = fmempty, clock = t, executed = []\<rparr> =
    ([(i, None, r), (j, None, r')], w') \<and> executed w' = [i, j]"
proof -
  let ?start = "\<lparr>entries = fmempty, clock = t, executed = []\<rparr>"
  obtain b b' where enc: "Marshal J r = Some b" "Marshal J r' = Some b'" using assms(4) by blast
  have keys: "IdempotencyKey i \<noteq> IdempotencyKey j"
    using assms(1-3) by (auto simp: same_activity_def IdempotencyKey_alt IdempotencyKeyNoRetry_def show_int_inj)
  let ?mid = "?start\<lparr>executed := [i], entries := fmupd (IdempotencyKey i) \<lparr>data = Some b, expiresAt = t + DefaultTTL\<rparr> fmempty\<rparr>"
  have "attempt IdempotencyKey J f r0 i (advance 0 ?start) = (None, r, ?mid)"
    using attempt_miss [where key = IdempotencyKey and i = i and w = "advance 0 ?start" and f = f, OF _ assms(5) enc(1)]
    by (simp add: mem_held_def advance_def)
  moreover have "mem_held (advance d ?mid) (IdempotencyKey j) = None"
    using keys by (simp add: mem_held_def advance_def)
  from attempt_miss [where key = IdempotencyKey and i = j and f = f, OF this assms(6) enc(2)]
  have "\<exists>w'. attempt IdempotencyKey J f r0 j (advance d ?mid) = (None, r', w') \<and> executed w' = [i, j]"
    by (simp add: advance_def)
  ultimately show ?thesis by auto
qed

theorem per_attempt_key_reexecutes_witness:
  "\<exists>w'. deliver IdempotencyKey text_codec booking []
     [(0, charge_attempt ''r1'' 2), (5, charge_attempt ''r1'' 3)] \<lparr>entries = fmempty, clock = 0, executed = []\<rparr> =
    ([(charge_attempt ''r1'' 2, None, ''tx-2''), (charge_attempt ''r1'' 3, None, ''tx-3'')], w') \<and>
    executed w' = [charge_attempt ''r1'' 2, charge_attempt ''r1'' 3]"
  by (rule per_attempt_key_reexecutes)
    (simp_all add: same_activity_def charge_attempt_def booking_def slash_free_def text_codec_def, code_simp+)

text \<open>
  The run id is in neither key: an activity of a second run of a workflow id, started within the
  TTL of the first run's record, does not run its body and returns the first run's result.
\<close>

theorem second_run_gets_first_runs_result:
  assumes "codec_roundtrip J" and "Marshal J r = Some b" and "f i r0 = (None, r)"
    and "0 \<le> d" and "d \<le> DefaultTTL"
    and "key = IdempotencyKeyNoRetry \<or> key = IdempotencyKey"
  shows "\<exists>w'. deliver key J f r0 [(0, i), (d, i\<lparr>ai_RunID := run2\<rparr>)] \<lparr>entries = fmempty, clock = t, executed = []\<rparr> =
    ([(i, None, r), (i\<lparr>ai_RunID := run2\<rparr>, None, r)], w') \<and> executed w' = [i]"
proof -
  let ?start = "\<lparr>entries = fmempty, clock = t, executed = []\<rparr>"
  have keys: "key (i\<lparr>ai_RunID := run2\<rparr>) = key i"
    using assms(6) by (auto simp: IdempotencyKey_def IdempotencyKeyNoRetry_def)
  let ?mid = "?start\<lparr>executed := [i], entries := fmupd (key i) \<lparr>data = Some b, expiresAt = t + DefaultTTL\<rparr> fmempty\<rparr>"
  have "attempt key J f r0 i (advance 0 ?start) = (None, r, ?mid)"
    using attempt_miss [where key = key and i = i and w = "advance 0 ?start" and f = f, OF _ assms(3,2)]
    by (simp add: mem_held_def advance_def)
  moreover have "mem_held (advance d ?mid) (key (i\<lparr>ai_RunID := run2\<rparr>)) = Some b"
    using keys assms(5) by (simp add: mem_held_def time_After_def)
  then have "attempt key J f r0 (i\<lparr>ai_RunID := run2\<rparr>) (advance d ?mid) = (None, r, advance d ?mid)"
    using assms(1,2) by (intro attempt_hit) (auto simp: codec_roundtrip_def)
  ultimately show ?thesis by (simp add: advance_def)
qed

theorem second_run_gets_first_runs_result_witness:
  "\<exists>w'. deliver IdempotencyKeyNoRetry text_codec booking []
     [(0, charge_attempt ''r1'' 2), (60, charge_attempt ''r2'' 2)] \<lparr>entries = fmempty, clock = 0, executed = []\<rparr> =
    ([(charge_attempt ''r1'' 2, None, ''tx-2''), (charge_attempt ''r2'' 2, None, ''tx-2'')], w') \<and>
    executed w' = [charge_attempt ''r1'' 2]"
proof -
  have "booking (charge_attempt ''r1'' 2) [] = (None, ''tx-2'')" by code_simp
  from second_run_gets_first_runs_result [of text_codec _ _ booking, OF _ _ this, of _ 60 IdempotencyKeyNoRetry "''r2''" 0]
  show ?thesis by (simp add: codec_roundtrip_def text_codec_def charge_attempt_def DefaultTTL_def duration_units)
qed

end
