(* ===== verification/SdkTypes.thy ===== *)
theory SdkTypes
  imports GoLib
begin

text \<open>
  The data the code exchanges with the Temporal SDK: activity options and retry policies (struct
  types whose fields the code sets by name), the workflow context as far as the code uses it,
  and the values passed as \<open>interface{}\<close>.
\<close>

subsection \<open>Activity options\<close>

record retry_policy =
  InitialInterval :: duration
  BackoffCoefficient :: f64
  MaximumInterval :: duration
  MaximumAttempts :: int
  NonRetryableErrorTypes :: "string list"

text \<open>
  \<open>workflow.ActivityOptions\<close>. A field the code does not set has Go's zero value. A slice that is
  nil is the empty list: the SDK only ranges over it.
\<close>

record activity_options =
  ScheduleToCloseTimeout :: duration
  StartToCloseTimeout :: duration
  HeartbeatTimeout :: duration
  RetryPolicy :: "retry_policy option"

text \<open>
  The workflow context: the activity options it carries. \<open>workflow.WithActivityOptions\<close> returns a
  context with these options in place of any earlier ones. Other values attached to a context
  are further fields of the record.
\<close>

record ctx =
  ctx_opts :: "activity_options option"

definition WithActivityOptions :: "'a ctx_scheme \<Rightarrow> activity_options \<Rightarrow> 'a ctx_scheme" where
  "WithActivityOptions c o' = c\<lparr>ctx_opts := Some o'\<rparr>"

lemma ctx_opts_WithActivityOptions [simp]: "ctx_opts (WithActivityOptions c o') = Some o'"
  by (simp add: WithActivityOptions_def)

lemma WithActivityOptions_last [simp]:
  "WithActivityOptions (WithActivityOptions c o1) o2 = WithActivityOptions c o2"
  by (simp add: WithActivityOptions_def)

subsection \<open>Dynamic values\<close>

text \<open>
  A value of type \<open>interface{}\<close>, as activity arguments, activity results and log fields are. A
  struct keeps its type's name and its fields in order. A registered function is known by the
  name that \<open>runtime.FuncForPC\<close> gives it.
\<close>

datatype gval =
    GNil
  | GBool bool
  | GInt int
  | GFloat f64
  | GStr string
  | GTime time
  | GMap "(string \<times> string) list"
  | GErr go_error
  | GStruct string "(string \<times> gval) list"

type_synonym gofunc = string

subsection \<open>Log levels\<close>

datatype level = Debug | Info | Warn | Error

text \<open>Levels are ordered by severity, as zap and the SDK order them.\<close>

fun severity :: "level \<Rightarrow> nat" where
  "severity Debug = 0"
| "severity Info = 1"
| "severity Warn = 2"
| "severity Error = 3"

instantiation level :: linorder
begin

definition less_eq_level :: "level \<Rightarrow> level \<Rightarrow> bool" where
  "less_eq_level a b \<longleftrightarrow> severity a \<le> severity b"

definition less_level :: "level \<Rightarrow> level \<Rightarrow> bool" where
  "less_level a b \<longleftrightarrow> severity a < severity b"

instance
proof
  fix a b :: level
  show "a \<le> b \<Longrightarrow> b \<le> a \<Longrightarrow> a = b"
    by (cases a; cases b) (simp_all add: less_eq_level_def)
qed (auto simp: less_eq_level_def less_level_def)

end

lemma level_less_eq_simps [simp]:
  "Debug \<le> l" "Info \<le> Info" "Info \<le> Warn" "Info \<le> Error" "Warn \<le> Error" "l \<le> Error"
  "\<not> Info \<le> Debug" "\<not> Warn \<le> Info" "\<not> Warn \<le> Debug" "\<not> Error \<le> Warn" "\<not> Error \<le> Info"
  by (auto simp: less_eq_level_def, (cases l; simp)+)

end
