(* ===== verification/ActivityOptions.thy ===== *)
theory ActivityOptions
  imports SdkTypes ActivityErrors
begin

text \<open>
  The retry presets of \<open>activity/options.go\<close> and the fluent builder of \<open>activity/builder.go\<close>.
\<close>

subsection \<open>Presets\<close>

definition businessErrorCodes :: "string list" where
  "businessErrorCodes =
     [''InsufficientFund'', ''BorrowerBlacklisted'', ''LoanAlreadyDisbursed'',
      ''DuplicateTransaction'', ''InvalidLoanAmount'', ''ExpiredOffer'',
      ''CompensationError'']"

definition financialAPIOptions :: activity_options where
  "financialAPIOptions =
     \<lparr>ScheduleToCloseTimeout = 5 * Minute,
      StartToCloseTimeout = 2 * Minute,
      HeartbeatTimeout = 30 * Second,
      RetryPolicy = Some
        \<lparr>InitialInterval = 2 * Second,
         BackoffCoefficient = Fin 2,
         MaximumInterval = 30 * Second,
         MaximumAttempts = 5,
         NonRetryableErrorTypes = businessErrorCodes\<rparr>\<rparr>"

definition notificationOptions :: activity_options where
  "notificationOptions =
     \<lparr>ScheduleToCloseTimeout = 2 * Minute,
      StartToCloseTimeout = 1 * Minute,
      HeartbeatTimeout = 0,
      RetryPolicy = Some
        \<lparr>InitialInterval = 5 * Second,
         BackoffCoefficient = Fin 1,
         MaximumInterval = 5 * Second,
         MaximumAttempts = 3,
         NonRetryableErrorTypes = businessErrorCodes\<rparr>\<rparr>"

definition internalServiceOptions :: activity_options where
  "internalServiceOptions =
     \<lparr>ScheduleToCloseTimeout = 1 * Minute,
      StartToCloseTimeout = 30 * Second,
      HeartbeatTimeout = 0,
      RetryPolicy = Some
        \<lparr>InitialInterval = 500 * Millisecond,
         BackoffCoefficient = Fin 2,
         MaximumInterval = 10 * Second,
         MaximumAttempts = 10,
         NonRetryableErrorTypes = businessErrorCodes\<rparr>\<rparr>"

definition longRunningOptions :: activity_options where
  "longRunningOptions =
     \<lparr>ScheduleToCloseTimeout = 24 * Hour,
      StartToCloseTimeout = 23 * Hour,
      HeartbeatTimeout = 60 * Second,
      RetryPolicy = Some
        \<lparr>InitialInterval = 10 * Second,
         BackoffCoefficient = Fin 2,
         MaximumInterval = 5 * Minute,
         MaximumAttempts = 3,
         NonRetryableErrorTypes = businessErrorCodes\<rparr>\<rparr>"

lemmas preset_defs [option_defs] =
  financialAPIOptions_def notificationOptions_def internalServiceOptions_def longRunningOptions_def

definition WithFinancialAPIOptions :: "'a ctx_scheme \<Rightarrow> 'a ctx_scheme" where
  "WithFinancialAPIOptions c = WithActivityOptions c financialAPIOptions"

definition WithNotificationOptions :: "'a ctx_scheme \<Rightarrow> 'a ctx_scheme" where
  "WithNotificationOptions c = WithActivityOptions c notificationOptions"

definition WithInternalServiceOptions :: "'a ctx_scheme \<Rightarrow> 'a ctx_scheme" where
  "WithInternalServiceOptions c = WithActivityOptions c internalServiceOptions"

definition WithLongRunningOptions :: "'a ctx_scheme \<Rightarrow> 'a ctx_scheme" where
  "WithLongRunningOptions c = WithActivityOptions c longRunningOptions"

lemmas With_preset_defs =
  WithFinancialAPIOptions_def WithNotificationOptions_def WithInternalServiceOptions_def
  WithLongRunningOptions_def

subsection \<open>The builder\<close>

record OptionsBuilder =
  scheduleToClose :: duration
  startToClose :: duration
  heartbeat :: duration
  maxAttempts :: int
  initialInterval :: duration
  maxInterval :: duration
  backoff :: f64
  nonRetryable :: "string list"

definition NewOptionsBuilder :: OptionsBuilder where
  "NewOptionsBuilder =
     \<lparr>scheduleToClose = 5 * Minute,
      startToClose = 2 * Minute,
      heartbeat = 0,
      maxAttempts = 5,
      initialInterval = 2 * Second,
      maxInterval = 30 * Second,
      backoff = Fin 2,
      nonRetryable = businessErrorCodes\<rparr>"

text \<open>The setters, each applied to the builder it is called on.\<close>

datatype builder_call =
    WithScheduleToClose duration
  | WithStartToClose duration
  | WithHeartbeat duration
  | WithMaxAttempts int
  | WithInitialInterval duration
  | WithMaxInterval duration
  | WithBackoffCoefficient f64
  | WithNonRetryableErrors "string list"
  | AddNonRetryableErrors "string list"
  | NoRetry

fun builder_step :: "builder_call \<Rightarrow> OptionsBuilder \<Rightarrow> OptionsBuilder" where
  "builder_step (WithScheduleToClose d) b = b\<lparr>scheduleToClose := d\<rparr>"
| "builder_step (WithStartToClose d) b = b\<lparr>startToClose := d\<rparr>"
| "builder_step (WithHeartbeat d) b = b\<lparr>heartbeat := d\<rparr>"
| "builder_step (WithMaxAttempts n) b = b\<lparr>maxAttempts := n\<rparr>"
| "builder_step (WithInitialInterval d) b = b\<lparr>initialInterval := d\<rparr>"
| "builder_step (WithMaxInterval d) b = b\<lparr>maxInterval := d\<rparr>"
| "builder_step (WithBackoffCoefficient c) b = b\<lparr>backoff := c\<rparr>"
| "builder_step (WithNonRetryableErrors codes) b = b\<lparr>nonRetryable := codes\<rparr>"
| "builder_step (AddNonRetryableErrors codes) b = b\<lparr>nonRetryable := nonRetryable b @ codes\<rparr>"
| "builder_step NoRetry b = b\<lparr>maxAttempts := 0, nonRetryable := []\<rparr>"

definition Build :: "OptionsBuilder \<Rightarrow> activity_options" where
  "Build b =
     (let opts = \<lparr>ScheduleToCloseTimeout = scheduleToClose b,
                  StartToCloseTimeout = 0,
                  HeartbeatTimeout = 0,
                  RetryPolicy = Some
                    \<lparr>InitialInterval = initialInterval b,
                     BackoffCoefficient = backoff b,
                     MaximumInterval = maxInterval b,
                     MaximumAttempts = maxAttempts b,
                     NonRetryableErrorTypes = nonRetryable b\<rparr>\<rparr>;
          opts1 = (if 0 < startToClose b then opts\<lparr>StartToCloseTimeout := startToClose b\<rparr> else opts)
      in (if 0 < heartbeat b then opts1\<lparr>HeartbeatTimeout := heartbeat b\<rparr> else opts1))"

definition builder_Apply :: "OptionsBuilder \<Rightarrow> 'a ctx_scheme \<Rightarrow> 'a ctx_scheme" where
  "builder_Apply b c = WithActivityOptions c (Build b)"

text \<open>A chain of calls, in the order they are written.\<close>

definition build_chain :: "builder_call list \<Rightarrow> activity_options" where
  "build_chain calls = Build (fold builder_step calls NewOptionsBuilder)"

lemma Build_fields [simp]:
  "ScheduleToCloseTimeout (Build b) = scheduleToClose b"
  "StartToCloseTimeout (Build b) = max 0 (startToClose b)"
  "HeartbeatTimeout (Build b) = max 0 (heartbeat b)"
  "RetryPolicy (Build b) = Some
     \<lparr>InitialInterval = initialInterval b, BackoffCoefficient = backoff b,
      MaximumInterval = maxInterval b, MaximumAttempts = maxAttempts b,
      NonRetryableErrorTypes = nonRetryable b\<rparr>"
  by (simp_all add: Build_def Let_def)

subsection \<open>The retry schedule a policy describes\<close>

text \<open>
  Whether the server retries an attempt that failed is not decided here. What the SDK documents:
  an application error that an activity returns is retried unless it is flagged non-retryable or
  its type is listed in the policy (attempts permitting). Nothing is assumed of other errors, nor of
  an application error that the activity has wrapped.
\<close>

fun returned_application_error :: "go_error \<Rightarrow> app_error option" where
  "returned_application_error (WrapError p e) = None"
| "returned_application_error (ForeignError s c) = None"
| "returned_application_error e = as_application_error e"

lemma returned_application_error_constructors [simp]:
  "returned_application_error (NewRetryableError msg cause) = as_application_error (NewRetryableError msg cause)"
  "returned_application_error (NewBusinessError code msg cause) = as_application_error (NewBusinessError code msg cause)"
  "returned_application_error (NewCompensationError msg sagaID step cause) =
     as_application_error (NewCompensationError msg sagaID step cause)"
  by (simp_all only: NewRetryableError_def NewBusinessError_def NewCompensationError_def Let_def
      returned_application_error.simps)

definition documented_retry_rule :: "(retry_policy \<Rightarrow> go_error \<Rightarrow> bool) \<Rightarrow> bool" where
  "documented_retry_rule retries \<longleftrightarrow>
     (\<forall>p e a. returned_application_error e = Some a \<longrightarrow>
        retries p e = (\<not> ae_NonRetryable a \<and> ae_Type a \<notin> set (NonRetryableErrorTypes p)))"

definition application_retry_rule :: "retry_policy \<Rightarrow> go_error \<Rightarrow> bool" where
  "application_retry_rule p e =
     (case returned_application_error e of
        None \<Rightarrow> True
      | Some a \<Rightarrow> \<not> ae_NonRetryable a \<and> ae_Type a \<notin> set (NonRetryableErrorTypes p))"

lemma application_retry_rule_documented: "documented_retry_rule application_retry_rule"
  by (simp add: documented_retry_rule_def application_retry_rule_def)

text \<open>
  The wait before retry \<open>k + 1\<close> (the first retry is \<open>k = 0\<close>), from the policy's fields: the initial
  interval times the coefficient for each earlier retry, capped. Only finite coefficients are used.
\<close>

fun coefficient :: "f64 \<Rightarrow> rat" where
  "coefficient (Fin q) = q"
| "coefficient _ = 0"

definition retry_wait :: "retry_policy \<Rightarrow> nat \<Rightarrow> rat" where
  "retry_wait p k =
     min (of_int (InitialInterval p) * coefficient (BackoffCoefficient p) ^ k)
         (of_int (MaximumInterval p))"

definition total_wait :: "retry_policy \<Rightarrow> rat" where
  "total_wait p = sum_list (map (retry_wait p) [0..<nat (MaximumAttempts p - 1)])"

text \<open>Options whose limits fit into each other, and whose retries all fit into the schedule.\<close>

definition well_calibrated :: "activity_options \<Rightarrow> bool" where
  "well_calibrated o' \<longleftrightarrow>
     0 < StartToCloseTimeout o' \<and> StartToCloseTimeout o' < ScheduleToCloseTimeout o' \<and>
     0 \<le> HeartbeatTimeout o' \<and> HeartbeatTimeout o' < StartToCloseTimeout o' \<and>
     (case RetryPolicy o' of
        None \<Rightarrow> False
      | Some p \<Rightarrow>
          0 < InitialInterval p \<and> InitialInterval p \<le> MaximumInterval p \<and>
          1 \<le> coefficient (BackoffCoefficient p) \<and> 1 < MaximumAttempts p \<and>
          total_wait p < of_int (ScheduleToCloseTimeout o') \<and>
          NonRetryableErrorTypes p = businessErrorCodes)"

subsection \<open>Builder chains\<close>

lemma builder_fold_attempts:
  "maxAttempts (fold builder_step calls b) =
     last (maxAttempts b # List.map_filter
       (\<lambda>c. case c of WithMaxAttempts n \<Rightarrow> Some n | NoRetry \<Rightarrow> Some 0 | _ \<Rightarrow> None) calls)"
  by (induction calls arbitrary: b) (auto simp: List.map_filter_simps split: builder_call.split)

lemma builder_fold_schedule:
  "scheduleToClose (fold builder_step calls b) =
     last (scheduleToClose b # List.map_filter
       (\<lambda>c. case c of WithScheduleToClose d \<Rightarrow> Some d | _ \<Rightarrow> None) calls)"
  by (induction calls arbitrary: b) (auto simp: List.map_filter_simps split: builder_call.split)

lemma builder_fold_start:
  "startToClose (fold builder_step calls b) =
     last (startToClose b # List.map_filter
       (\<lambda>c. case c of WithStartToClose d \<Rightarrow> Some d | _ \<Rightarrow> None) calls)"
  by (induction calls arbitrary: b) (auto simp: List.map_filter_simps split: builder_call.split)

lemma builder_fold_heartbeat:
  "heartbeat (fold builder_step calls b) =
     last (heartbeat b # List.map_filter
       (\<lambda>c. case c of WithHeartbeat d \<Rightarrow> Some d | _ \<Rightarrow> None) calls)"
  by (induction calls arbitrary: b) (auto simp: List.map_filter_simps split: builder_call.split)

lemma builder_fold_codes:
  "nonRetryable (fold builder_step calls b) =
     foldl (\<lambda>codes c. case c of WithNonRetryableErrors cs \<Rightarrow> cs | AddNonRetryableErrors cs \<Rightarrow> codes @ cs
                      | NoRetry \<Rightarrow> [] | _ \<Rightarrow> codes) (nonRetryable b) calls"
  by (induction calls arbitrary: b) (auto split: builder_call.split)

lemma builder_keeps_codes:
  assumes "list_all (\<lambda>c. c \<noteq> NoRetry \<and> (\<forall>cs. c \<noteq> WithNonRetryableErrors cs)) calls"
  shows "set (nonRetryable b) \<subseteq> set (nonRetryable (fold builder_step calls b))"
  using assms
proof (induction calls arbitrary: b)
  case Nil
  then show ?case by simp
next
  case (Cons c calls)
  have "set (nonRetryable b) \<subseteq> set (nonRetryable (builder_step c b))"
    using Cons.prems by (cases c) auto
  also have "\<dots> \<subseteq> set (nonRetryable (fold builder_step calls (builder_step c b)))"
    using Cons.prems by (intro Cons.IH) simp
  finally show ?case by simp
qed

subsection \<open>Properties\<close>

text \<open>
  Every preset is calibrated: an attempt fits into the schedule and a heartbeat into an attempt,
  the intervals are positive and capped consistently, all the waits between the allowed attempts
  together are shorter than the schedule, and the non-retryable types are the shared list.
\<close>

theorem presets_well_calibrated:
  "well_calibrated financialAPIOptions \<and> well_calibrated notificationOptions \<and>
   well_calibrated internalServiceOptions \<and> well_calibrated longRunningOptions"
  by (simp add: well_calibrated_def option_defs duration_units total_wait_def retry_wait_def
      upt_rec numeral_eq_Suc)

text \<open>
  Under each preset, and any retry rule that does what the SDK documents, business and
  compensation errors that an activity returns are never retried, and retryable errors are.
\<close>

theorem presets_respect_taxonomy:
  assumes "documented_retry_rule retries"
    and "o' \<in> {financialAPIOptions, notificationOptions, internalServiceOptions, longRunningOptions}"
    and "RetryPolicy o' = Some p"
  shows "\<not> retries p (NewBusinessError code msg cause) \<and>
    \<not> retries p (NewCompensationError msg sagaID step cause) \<and>
    retries p (NewRetryableError msg cause)"
proof -
  have "NonRetryableErrorTypes p = businessErrorCodes"
    using assms(2,3) by (auto simp: preset_defs)
  then have "''RetryableError'' \<notin> set (NonRetryableErrorTypes p)"
    by (simp add: businessErrorCodes_def)
  then show ?thesis using assms(1) by (simp add: documented_retry_rule_def)
qed

theorem presets_respect_taxonomy_witness:
  "\<not> application_retry_rule (the (RetryPolicy financialAPIOptions))
       (NewBusinessError ''Custom'' ''m'' None) \<and>
   application_retry_rule (the (RetryPolicy financialAPIOptions))
       (NewRetryableError ''m'' None)"
proof -
  obtain p where p: "RetryPolicy financialAPIOptions = Some p"
    by (simp add: financialAPIOptions_def)
  show ?thesis
    using presets_respect_taxonomy [OF application_retry_rule_documented _ p,
        of "''Custom''" "''m''" None] p by simp
qed

text \<open>
  In a chain of builder calls the last one that sets a field decides it, in whatever order the
  calls for the different fields are written; a timeout that is not positive is left unset; and
  the error codes are those last replaced, plus those added since.
\<close>

theorem builder_last_call_wins:
  "ScheduleToCloseTimeout (build_chain calls) =
     last ((5 * Minute) # List.map_filter
       (\<lambda>c. case c of WithScheduleToClose d \<Rightarrow> Some d | _ \<Rightarrow> None) calls) \<and>
   StartToCloseTimeout (build_chain calls) =
     max 0 (last ((2 * Minute) # List.map_filter
       (\<lambda>c. case c of WithStartToClose d \<Rightarrow> Some d | _ \<Rightarrow> None) calls)) \<and>
   HeartbeatTimeout (build_chain calls) =
     max 0 (last (0 # List.map_filter
       (\<lambda>c. case c of WithHeartbeat d \<Rightarrow> Some d | _ \<Rightarrow> None) calls)) \<and>
   map_option MaximumAttempts (RetryPolicy (build_chain calls)) =
     Some (last (5 # List.map_filter
       (\<lambda>c. case c of WithMaxAttempts n \<Rightarrow> Some n | NoRetry \<Rightarrow> Some 0 | _ \<Rightarrow> None) calls)) \<and>
   map_option NonRetryableErrorTypes (RetryPolicy (build_chain calls)) =
     Some (foldl (\<lambda>codes c. case c of WithNonRetryableErrors cs \<Rightarrow> cs
        | AddNonRetryableErrors cs \<Rightarrow> codes @ cs | NoRetry \<Rightarrow> [] | _ \<Rightarrow> codes) businessErrorCodes calls)"
  by (simp add: build_chain_def builder_fold_attempts builder_fold_schedule builder_fold_start
      builder_fold_heartbeat builder_fold_codes NewOptionsBuilder_def)

text \<open>
  The builder's defaults are those of the financial preset except that no heartbeat timeout is
  set; and a chain that neither replaces the codes nor calls \<open>NoRetry\<close> keeps every built-in code
  non-retryable.
\<close>

theorem builder_defaults_and_codes:
  assumes "list_all (\<lambda>c. c \<noteq> NoRetry \<and> (\<forall>cs. c \<noteq> WithNonRetryableErrors cs)) calls"
  shows "build_chain [] = financialAPIOptions\<lparr>HeartbeatTimeout := 0\<rparr> \<and>
    set businessErrorCodes \<subseteq>
      set (case RetryPolicy (build_chain calls) of None \<Rightarrow> [] | Some p \<Rightarrow> NonRetryableErrorTypes p)"
  using builder_keeps_codes [OF assms, of NewOptionsBuilder]
  by (simp add: build_chain_def Build_def Let_def NewOptionsBuilder_def financialAPIOptions_def
      duration_units)

theorem builder_defaults_and_codes_witness:
  "''ExpiredOffer'' \<in> set (case RetryPolicy (build_chain [WithMaxAttempts 7, AddNonRetryableErrors [''X'']])
     of None \<Rightarrow> [] | Some p \<Rightarrow> NonRetryableErrorTypes p)"
proof -
  have "list_all (\<lambda>c. c \<noteq> NoRetry \<and> (\<forall>cs. c \<noteq> WithNonRetryableErrors cs))
      [WithMaxAttempts 7, AddNonRetryableErrors [''X'']]" by simp
  from builder_defaults_and_codes [OF this] show ?thesis
    by (auto simp: businessErrorCodes_def)
qed

end
