(* ===== verification/BuilderSlices.thy ===== *)
theory BuilderSlices
  imports ActivityOptions
begin

text \<open>
  \<open>activity/builder.go\<close> once more, with the list of error codes as the Go slice it is: a view of an
  array that other slices may share. ActivityOptions has it as a list, a value of its own; here is
  when that is right, and when not.
\<close>

subsection \<open>Slices\<close>

text \<open>
  The arrays of the process, and a slice of one from its start. A nil slice has capacity zero.
\<close>

type_synonym arrays = "string list list"

record slice =
  sl_array :: nat
  sl_len :: nat
  sl_cap :: nat

definition nil_slice :: slice where
  "nil_slice = \<lparr>sl_array = 0, sl_len = 0, sl_cap = 0\<rparr>"

definition slice_read :: "arrays \<Rightarrow> slice \<Rightarrow> string list" where
  "slice_read ms s = take (sl_len s) (ms ! sl_array s)"

text \<open>A new array; its capacity is its length.\<close>

definition new_slice :: "string list \<Rightarrow> nat \<Rightarrow> arrays \<Rightarrow> slice \<times> arrays" where
  "new_slice codes extra ms =
     (\<lparr>sl_array = length ms, sl_len = length codes, sl_cap = length codes + extra\<rparr>,
      ms @ [codes @ replicate extra []])"

text \<open>
  \<open>append\<close>: in place while the capacity lasts, otherwise into a new array, by how much larger than
  needed is the choice \<open>grow\<close> of the runtime.
\<close>

definition go_append :: "(nat \<Rightarrow> nat \<Rightarrow> nat) \<Rightarrow> slice \<Rightarrow> string list \<Rightarrow> arrays \<Rightarrow> slice \<times> arrays" where
  "go_append grow s xs ms =
     (let n = sl_len s + length xs; a = ms ! sl_array s in
      if n \<le> sl_cap s
      then (s\<lparr>sl_len := n\<rparr>, if xs = [] then ms else ms[sl_array s := take (sl_len s) a @ xs @ drop n a])
      else new_slice (slice_read ms s @ xs) (grow (sl_cap s) n) ms)"

subsection \<open>Builders that hold a slice\<close>

text \<open>A builder, or the options built from it: the plain fields, and the slice of codes.\<close>

type_synonym holder = "OptionsBuilder \<times> slice"

definition view :: "arrays \<Rightarrow> holder \<Rightarrow> OptionsBuilder" where
  "view ms h = (fst h)\<lparr>nonRetryable := slice_read ms (snd h)\<rparr>"

text \<open>
  What a setter does to the slice. The arguments of a variadic call that are written out are a new
  array with no room to spare.
\<close>

fun on_slice :: "(nat \<Rightarrow> nat \<Rightarrow> nat) \<Rightarrow> builder_call \<Rightarrow> slice \<Rightarrow> arrays \<Rightarrow> slice \<times> arrays" where
  "on_slice grow (WithNonRetryableErrors codes) s ms = new_slice codes 0 ms"
| "on_slice grow (AddNonRetryableErrors codes) s ms = go_append grow s codes ms"
| "on_slice grow NoRetry s ms = (nil_slice, ms)"
| "on_slice grow c s ms = (s, ms)"

text \<open>
  What a program does: make a slice of its own with room to spare, make a builder, call a setter, pass
  a slice as \<open>codes...\<close>, build options. \<open>businessErrorCodes\<close> is the array at address 0.
\<close>

datatype chain_event =
    MakeSlice "string list" nat
  | MakeBuilder
  | CallSetter nat builder_call
  | SpreadWith nat slice
  | SpreadAdd nat slice
  | TakeOptions nat

type_synonym builder_process = "arrays \<times> holder list \<times> holder list"

definition business_slice :: slice where
  "business_slice = \<lparr>sl_array = 0, sl_len = length businessErrorCodes, sl_cap = length businessErrorCodes\<rparr>"

definition slices_start :: builder_process where
  "slices_start = ([businessErrorCodes], [], [])"

definition set_slice :: "nat \<Rightarrow> OptionsBuilder \<Rightarrow> slice \<times> arrays \<Rightarrow> holder list \<Rightarrow> holder list \<Rightarrow> builder_process" where
  "set_slice i b r bs os = (snd r, bs[i := (b, fst r)], os)"

fun slice_step :: "(nat \<Rightarrow> nat \<Rightarrow> nat) \<Rightarrow> builder_process \<Rightarrow> chain_event \<Rightarrow> builder_process" where
  "slice_step grow (ms, bs, os) (MakeSlice codes extra) = (snd (new_slice codes extra ms), bs, os)"
| "slice_step grow (ms, bs, os) MakeBuilder = (ms, bs @ [(NewOptionsBuilder, business_slice)], os)"
| "slice_step grow (ms, bs, os) (CallSetter i c) =
     (if i < length bs
      then set_slice i (builder_step c (fst (bs ! i))) (on_slice grow c (snd (bs ! i)) ms) bs os
      else (ms, bs, os))"
| "slice_step grow (ms, bs, os) (SpreadWith i s) =
     (if i < length bs then set_slice i (fst (bs ! i)) (s, ms) bs os else (ms, bs, os))"
| "slice_step grow (ms, bs, os) (SpreadAdd i s) =
     (if i < length bs
      then set_slice i (fst (bs ! i)) (go_append grow (snd (bs ! i)) (slice_read ms s) ms) bs os
      else (ms, bs, os))"
| "slice_step grow (ms, bs, os) (TakeOptions i) = (ms, bs, if i < length bs then os @ [bs ! i] else os)"

text \<open>
  The same program on builders that are values; what a spread slice holds is read when it is passed.
\<close>

type_synonym value_process = "OptionsBuilder list \<times> activity_options list"

fun value_step :: "arrays \<Rightarrow> value_process \<Rightarrow> chain_event \<Rightarrow> value_process" where
  "value_step ms (bs, os) (MakeSlice codes extra) = (bs, os)"
| "value_step ms (bs, os) MakeBuilder = (bs @ [NewOptionsBuilder], os)"
| "value_step ms (bs, os) (CallSetter i c) =
     (if i < length bs then bs[i := builder_step c (bs ! i)] else bs, os)"
| "value_step ms (bs, os) (SpreadWith i s) =
     (if i < length bs then bs[i := builder_step (WithNonRetryableErrors (slice_read ms s)) (bs ! i)] else bs, os)"
| "value_step ms (bs, os) (SpreadAdd i s) =
     (if i < length bs then bs[i := builder_step (AddNonRetryableErrors (slice_read ms s)) (bs ! i)] else bs, os)"
| "value_step ms (bs, os) (TakeOptions i) = (bs, if i < length bs then os @ [Build (bs ! i)] else os)"

fun value_run :: "(nat \<Rightarrow> nat \<Rightarrow> nat) \<Rightarrow> builder_process \<Rightarrow> value_process \<Rightarrow> chain_event list \<Rightarrow> value_process" where
  "value_run grow p v [] = v"
| "value_run grow p v (e # es) = value_run grow (slice_step grow p e) (value_step (fst p) v e) es"

definition values_of :: "builder_process \<Rightarrow> value_process" where
  "values_of p = (case p of (ms, bs, os) \<Rightarrow> (map (view ms) bs, map (\<lambda>h. Build (view ms h)) os))"

subsection \<open>Who may write where\<close>

definition valid_slice :: "arrays \<Rightarrow> slice \<Rightarrow> bool" where
  "valid_slice ms s \<longleftrightarrow>
     sl_len s \<le> sl_cap s \<and> sl_array s < length ms \<and> sl_cap s \<le> length (ms ! sl_array s)"

text \<open>A slice with room to spare: the next \<open>append\<close> writes into its array.\<close>

definition spare :: "slice \<Rightarrow> bool" where
  "spare s \<longleftrightarrow> sl_len s < sl_cap s"

text \<open>
  A builder whose slice has room is alone on its array, but for options that were built from it
  before and see no more of the array than it does.
\<close>

definition slices_inv :: "builder_process \<Rightarrow> bool" where
  "slices_inv p = (case p of (ms, bs, os) \<Rightarrow>
     ms \<noteq> [] \<and> ms ! 0 = businessErrorCodes \<and>
     (\<forall>h \<in> set bs \<union> set os. valid_slice ms (snd h)) \<and>
     (\<forall>i < length bs. spare (snd (bs ! i)) \<longrightarrow> sl_array (snd (bs ! i)) \<noteq> 0 \<and>
        (\<forall>j < length bs. j \<noteq> i \<longrightarrow> sl_array (snd (bs ! j)) \<noteq> sl_array (snd (bs ! i))) \<and>
        (\<forall>h \<in> set os. sl_array (snd h) = sl_array (snd (bs ! i)) \<longrightarrow> sl_len (snd h) \<le> sl_len (snd (bs ! i)))))"

text \<open>
  What a program may pass in place of the codes: a slice with no room to spare, of an array that no
  builder is about to append to.
\<close>

fun spread_ok :: "builder_process \<Rightarrow> chain_event \<Rightarrow> bool" where
  "spread_ok (ms, bs, os) (SpreadWith i s) =
     (valid_slice ms s \<and> \<not> spare s \<and> list_all (\<lambda>h. spare (snd h) \<longrightarrow> sl_array (snd h) \<noteq> sl_array s) bs)"
| "spread_ok p e = True"

fun all_spreads_ok :: "(nat \<Rightarrow> nat \<Rightarrow> nat) \<Rightarrow> builder_process \<Rightarrow> chain_event list \<Rightarrow> bool" where
  "all_spreads_ok grow p [] = True"
| "all_spreads_ok grow p (e # es) = (spread_ok p e \<and> all_spreads_ok grow (slice_step grow p e) es)"

subsection \<open>One step\<close>

text \<open>A slice that reads the same and is still one.\<close>

definition undisturbed :: "arrays \<Rightarrow> arrays \<Rightarrow> slice \<Rightarrow> bool" where
  "undisturbed ms ms' t \<longleftrightarrow> slice_read ms' t = slice_read ms t \<and> valid_slice ms' t"

lemma undisturbed_refl: "valid_slice ms t \<Longrightarrow> undisturbed ms ms t"
  by (simp add: undisturbed_def)

lemma undisturbed_new: "valid_slice ms t \<Longrightarrow> undisturbed ms (snd (new_slice codes extra ms)) t"
  by (auto simp: undisturbed_def new_slice_def slice_read_def valid_slice_def nth_append)

lemma new_slice_read [simp]:
  "slice_read (snd (new_slice codes extra ms)) (fst (new_slice codes extra ms)) = codes"
  "valid_slice (snd (new_slice codes extra ms)) (fst (new_slice codes extra ms))"
  by (simp_all add: new_slice_def slice_read_def valid_slice_def)

lemma append_reads:
  assumes "valid_slice ms s"
  shows "slice_read (snd (go_append grow s xs ms)) (fst (go_append grow s xs ms)) = slice_read ms s @ xs \<and>
    valid_slice (snd (go_append grow s xs ms)) (fst (go_append grow s xs ms))"
proof (cases "sl_len s + length xs \<le> sl_cap s")
  case True
  with assms show ?thesis
    by (cases xs) (auto simp: go_append_def Let_def slice_read_def valid_slice_def min_def)
next
  case False
  then show ?thesis by (simp add: go_append_def Let_def)
qed

lemma append_undisturbed:
  assumes "valid_slice ms s" and "valid_slice ms t"
    and "spare s \<Longrightarrow> sl_array t = sl_array s \<Longrightarrow> sl_len t \<le> sl_len s"
  shows "undisturbed ms (snd (go_append grow s xs ms)) t"
proof (cases "sl_len s + length xs \<le> sl_cap s \<and> xs \<noteq> []")
  case True
  then have "spare s" by (cases xs) (auto simp: spare_def)
  with True assms show ?thesis
    by (auto simp: go_append_def Let_def undisturbed_def slice_read_def valid_slice_def nth_list_update min_def)
next
  case False
  with assms(2) show ?thesis
    by (auto simp: go_append_def Let_def undisturbed_refl undisturbed_new)
qed

lemma append_array:
  "sl_array (fst (go_append grow s xs ms)) = length ms \<or>
   sl_array (fst (go_append grow s xs ms)) = sl_array s \<and>
     (spare (fst (go_append grow s xs ms)) \<longrightarrow> spare s) \<and> sl_len s \<le> sl_len (fst (go_append grow s xs ms))"
  by (auto simp: go_append_def Let_def new_slice_def spare_def)

lemma append_first:
  assumes "ms \<noteq> []" and "spare s \<Longrightarrow> sl_array s \<noteq> 0"
  shows "snd (go_append grow s xs ms) \<noteq> [] \<and> snd (go_append grow s xs ms) ! 0 = ms ! 0"
proof (cases "sl_len s + length xs \<le> sl_cap s \<and> xs \<noteq> []")
  case True
  then have "spare s" by (cases xs) (simp_all add: spare_def)
  with True assms show ?thesis by (simp add: go_append_def Let_def)
next
  case False
  with assms(1) show ?thesis by (auto simp: go_append_def Let_def new_slice_def nth_append)
qed

text \<open>A builder gets a new slice, and nobody else notices.\<close>

lemma slices_inv_set:
  assumes inv: "slices_inv (ms, bs, os)" and "i < length bs" and s': "valid_slice ms' s'"
    and kept_nth: "\<And>j. j < length bs \<Longrightarrow> j \<noteq> i \<Longrightarrow> undisturbed ms ms' (snd (bs ! j))"
    and kept: "\<And>h. h \<in> set os \<Longrightarrow> undisturbed ms ms' (snd h)"
    and first: "ms' \<noteq> []" "ms' ! 0 = ms ! 0"
    and alone: "spare s' \<Longrightarrow> sl_array s' \<noteq> 0 \<and>
      (\<forall>j < length bs. j \<noteq> i \<longrightarrow> sl_array (snd (bs ! j)) \<noteq> sl_array s') \<and>
      (\<forall>h \<in> set os. sl_array (snd h) = sl_array s' \<longrightarrow> sl_len (snd h) \<le> sl_len s')"
    and others: "\<And>j. j < length bs \<Longrightarrow> j \<noteq> i \<Longrightarrow> spare (snd (bs ! j)) \<Longrightarrow> sl_array s' \<noteq> sl_array (snd (bs ! j))"
  shows "slices_inv (ms', bs[i := (b, s')], os) \<and>
    values_of (ms', bs[i := (b, s')], os) =
      ((map (view ms) bs)[i := b\<lparr>nonRetryable := slice_read ms' s'\<rparr>], map (\<lambda>h. Build (view ms h)) os)"
proof -
  have "map (view ms') (bs[i := (b, s')]) = (map (view ms) bs)[i := b\<lparr>nonRetryable := slice_read ms' s'\<rparr>]"
    using kept_nth assms(2)
    by (intro nth_equalityI) (auto simp: nth_list_update view_def undisturbed_def)
  moreover have "map (\<lambda>h. Build (view ms' h)) os = map (\<lambda>h. Build (view ms h)) os"
    using kept by (auto simp: view_def undisturbed_def)
  moreover have "valid_slice ms' (snd (bs[i := (b, s')] ! j))" if "j < length bs" for j
    using that kept_nth [of j] s' assms(2) by (cases "j = i") (simp_all add: undisturbed_def)
  then have "\<forall>h \<in> set (bs[i := (b, s')]). valid_slice ms' (snd h)" by (simp add: all_set_conv_all_nth)
  moreover have "\<forall>h \<in> set os. valid_slice ms' (snd h)" using kept by (simp add: undisturbed_def)
  moreover have "spare (snd (bs[i := (b, s')] ! k)) \<longrightarrow> sl_array (snd (bs[i := (b, s')] ! k)) \<noteq> 0 \<and>
      (\<forall>j < length bs. j \<noteq> k \<longrightarrow> sl_array (snd (bs[i := (b, s')] ! j)) \<noteq> sl_array (snd (bs[i := (b, s')] ! k))) \<and>
      (\<forall>h \<in> set os. sl_array (snd h) = sl_array (snd (bs[i := (b, s')] ! k)) \<longrightarrow>
         sl_len (snd h) \<le> sl_len (snd (bs[i := (b, s')] ! k)))" if "k < length bs" for k
  proof (cases "k = i")
    case True
    with alone assms(2) show ?thesis by (auto simp: nth_list_update)
  next
    case False
    with that inv others [of k] assms(2) show ?thesis
      by (auto simp: slices_inv_def nth_list_update)
  qed
  ultimately show ?thesis
    using inv first by (auto simp: values_of_def slices_inv_def)
qed

text \<open>The reasons why nobody else may notice, from the invariant.\<close>

lemma slices_invD:
  assumes "slices_inv (ms, bs, os)"
  shows "ms \<noteq> []" "ms ! 0 = businessErrorCodes"
    and "i < length bs \<Longrightarrow> valid_slice ms (snd (bs ! i))" and "h \<in> set os \<Longrightarrow> valid_slice ms (snd h)"
    and "i < length bs \<Longrightarrow> spare (snd (bs ! i)) \<Longrightarrow> sl_array (snd (bs ! i)) \<noteq> 0"
    and "i < length bs \<Longrightarrow> spare (snd (bs ! i)) \<Longrightarrow> j < length bs \<Longrightarrow> j \<noteq> i \<Longrightarrow>
      sl_array (snd (bs ! j)) \<noteq> sl_array (snd (bs ! i))"
    and "i < length bs \<Longrightarrow> spare (snd (bs ! i)) \<Longrightarrow> h \<in> set os \<Longrightarrow>
      sl_array (snd h) = sl_array (snd (bs ! i)) \<Longrightarrow> sl_len (snd h) \<le> sl_len (snd (bs ! i))"
  using assms by (auto simp: slices_inv_def)

lemma valid_not_fresh: "valid_slice ms t \<Longrightarrow> sl_array t \<noteq> length ms"
  by (simp add: valid_slice_def)

text \<open>A fresh array is nobody's.\<close>

lemma step_new_slice:
  assumes inv: "slices_inv (ms, bs, os)" and i: "i < length bs"
  shows "slices_inv (set_slice i b (new_slice codes extra ms) bs os) \<and>
    values_of (set_slice i b (new_slice codes extra ms) bs os) =
      ((map (view ms) bs)[i := b\<lparr>nonRetryable := codes\<rparr>], map (\<lambda>h. Build (view ms h)) os)"
proof -
  note inv' = slices_invD [OF inv]
  let ?r = "new_slice codes extra ms"
  note old = valid_not_fresh
  have new: "sl_array (fst ?r) = length ms" "snd ?r \<noteq> []" "snd ?r ! 0 = ms ! 0"
    using inv'(1) by (simp_all add: new_slice_def nth_append)
  have "slices_inv (snd ?r, bs[i := (b, fst ?r)], os) \<and> values_of (snd ?r, bs[i := (b, fst ?r)], os) =
      ((map (view ms) bs)[i := b\<lparr>nonRetryable := slice_read (snd ?r) (fst ?r)\<rparr>], map (\<lambda>h. Build (view ms h)) os)"
  proof (rule slices_inv_set [OF inv i new_slice_read(2) _ _ new(2,3)])
    show "undisturbed ms (snd ?r) (snd (bs ! j))" if "j < length bs" for j
      by (rule undisturbed_new [OF inv'(3) [OF that]])
    show "undisturbed ms (snd ?r) (snd h)" if "h \<in> set os" for h
      by (rule undisturbed_new [OF inv'(4) [OF that]])
    show "sl_array (fst ?r) \<noteq> 0 \<and> (\<forall>j < length bs. j \<noteq> i \<longrightarrow> sl_array (snd (bs ! j)) \<noteq> sl_array (fst ?r)) \<and>
        (\<forall>h \<in> set os. sl_array (snd h) = sl_array (fst ?r) \<longrightarrow> sl_len (snd h) \<le> sl_len (fst ?r))"
      using new(1) inv'(1) old [OF inv'(3)] old [OF inv'(4)] by auto
    show "sl_array (fst ?r) \<noteq> sl_array (snd (bs ! j))" if "j < length bs" for j
      using new(1) old [OF inv'(3) [OF that]] by simp
  qed
  then show ?thesis by (simp add: set_slice_def)
qed

text \<open>Appending writes where only the builder itself will look.\<close>

lemma step_append:
  assumes inv: "slices_inv (ms, bs, os)" and i: "i < length bs"
  shows "slices_inv (set_slice i b (go_append grow (snd (bs ! i)) xs ms) bs os) \<and>
    values_of (set_slice i b (go_append grow (snd (bs ! i)) xs ms) bs os) =
      ((map (view ms) bs)[i := b\<lparr>nonRetryable := slice_read ms (snd (bs ! i)) @ xs\<rparr>], map (\<lambda>h. Build (view ms h)) os)"
proof -
  note inv' = slices_invD [OF inv]
  let ?s = "snd (bs ! i)" and ?r = "go_append grow (snd (bs ! i)) xs ms"
  have read: "slice_read (snd ?r) (fst ?r) = slice_read ms ?s @ xs" "valid_slice (snd ?r) (fst ?r)"
    using append_reads [OF inv'(3) [OF i]] by auto
  have kept: "undisturbed ms (snd ?r) t" if "valid_slice ms t"
      "spare ?s \<Longrightarrow> sl_array t = sl_array ?s \<Longrightarrow> sl_len t \<le> sl_len ?s" for t
    by (rule append_undisturbed [OF inv'(3) [OF i] that])
  have first: "snd ?r \<noteq> []" "snd ?r ! 0 = ms ! 0"
    using append_first [of ms ?s grow xs] inv'(1) inv'(5) [OF i] by blast+
  have "slices_inv (snd ?r, bs[i := (b, fst ?r)], os) \<and> values_of (snd ?r, bs[i := (b, fst ?r)], os) =
      ((map (view ms) bs)[i := b\<lparr>nonRetryable := slice_read (snd ?r) (fst ?r)\<rparr>], map (\<lambda>h. Build (view ms h)) os)"
  proof (rule slices_inv_set [OF inv i read(2) _ _ first])
    show "undisturbed ms (snd ?r) (snd (bs ! j))" if "j < length bs" "j \<noteq> i" for j
      using inv'(6) [OF i _ that] by (intro kept inv'(3) that) simp
    show "undisturbed ms (snd ?r) (snd h)" if "h \<in> set os" for h
      using inv'(7) [OF i _ that] by (intro kept inv'(4) that)
    show "sl_array (fst ?r) \<noteq> 0 \<and> (\<forall>j < length bs. j \<noteq> i \<longrightarrow> sl_array (snd (bs ! j)) \<noteq> sl_array (fst ?r)) \<and>
        (\<forall>h \<in> set os. sl_array (snd h) = sl_array (fst ?r) \<longrightarrow> sl_len (snd h) \<le> sl_len (fst ?r))"
      if "spare (fst ?r)"
      using append_array [of grow ?s xs ms]
    proof
      assume "sl_array (fst ?r) = length ms"
      then show ?thesis
        using inv'(1) valid_not_fresh [OF inv'(3)] valid_not_fresh [OF inv'(4)] by auto
    next
      assume same: "sl_array (fst ?r) = sl_array ?s \<and> (spare (fst ?r) \<longrightarrow> spare ?s) \<and> sl_len ?s \<le> sl_len (fst ?r)"
      with that have sp: "spare ?s" by blast
      note own = inv'(5) [OF i sp] inv'(6) [OF i sp] inv'(7) [OF i sp]
      have "sl_len (snd h) \<le> sl_len (fst ?r)" if "h \<in> set os" "sl_array (snd h) = sl_array ?s" for h
        using own(3) [OF that] same by linarith
      with own(1,2) same show ?thesis by simp
    qed
    show "sl_array (fst ?r) \<noteq> sl_array (snd (bs ! j))" if "j < length bs" "j \<noteq> i" "spare (snd (bs ! j))" for j
      using append_array [of grow ?s xs ms] inv'(6) [OF that(1,3) i] that(2) valid_not_fresh [OF inv'(3) [OF that(1)]]
      by auto
  qed
  with read(1) show ?thesis by (simp add: set_slice_def)
qed

text \<open>Passing a slice that no builder appends to.\<close>

lemma step_spread:
  assumes inv: "slices_inv (ms, bs, os)" and i: "i < length bs"
    and s: "valid_slice ms s" "\<not> spare s" "list_all (\<lambda>h. spare (snd h) \<longrightarrow> sl_array (snd h) \<noteq> sl_array s) bs"
  shows "slices_inv (set_slice i b (s, ms) bs os) \<and>
    values_of (set_slice i b (s, ms) bs os) =
      ((map (view ms) bs)[i := b\<lparr>nonRetryable := slice_read ms s\<rparr>], map (\<lambda>h. Build (view ms h)) os)"
proof -
  note inv' = slices_invD [OF inv]
  have "slices_inv (ms, bs[i := (b, s)], os) \<and> values_of (ms, bs[i := (b, s)], os) =
      ((map (view ms) bs)[i := b\<lparr>nonRetryable := slice_read ms s\<rparr>], map (\<lambda>h. Build (view ms h)) os)"
  proof (rule slices_inv_set [OF inv i s(1) _ _ inv'(1) refl])
    show "undisturbed ms ms (snd (bs ! j))" if "j < length bs" for j
      by (rule undisturbed_refl [OF inv'(3) [OF that]])
    show "undisturbed ms ms (snd h)" if "h \<in> set os" for h
      by (rule undisturbed_refl [OF inv'(4) [OF that]])
    show "sl_array s \<noteq> sl_array (snd (bs ! j))" if "j < length bs" "spare (snd (bs ! j))" for j
      using s(3) that by (auto simp: list_all_length)
  qed (use s(2) in simp)
  then show ?thesis by (simp add: set_slice_def)
qed

text \<open>The plain fields go through a setter whatever the codes are.\<close>

lemma builder_step_view:
  "builder_step (WithNonRetryableErrors codes) (view ms h) = (fst h)\<lparr>nonRetryable := codes\<rparr>"
  "builder_step (AddNonRetryableErrors codes) (view ms h) = (fst h)\<lparr>nonRetryable := slice_read ms (snd h) @ codes\<rparr>"
  by (simp_all add: view_def)

lemma step_setter:
  assumes inv: "slices_inv (ms, bs, os)" and i: "i < length bs"
  shows "slices_inv (set_slice i (builder_step c (fst (bs ! i))) (on_slice grow c (snd (bs ! i)) ms) bs os) \<and>
    values_of (set_slice i (builder_step c (fst (bs ! i))) (on_slice grow c (snd (bs ! i)) ms) bs os) =
      ((map (view ms) bs)[i := builder_step c (view ms (bs ! i))], map (\<lambda>h. Build (view ms h)) os)"
proof -
  have same: ?thesis if "on_slice grow c (snd (bs ! i)) ms = (snd (bs ! i), ms)"
      "(builder_step c (fst (bs ! i)))\<lparr>nonRetryable := slice_read ms (snd (bs ! i))\<rparr> = builder_step c (view ms (bs ! i))"
    using step_append [OF inv i, of "builder_step c (fst (bs ! i))" grow "[]"] that slices_invD(3) [OF inv i]
    by (simp add: go_append_def Let_def valid_slice_def)
  show ?thesis
  proof (cases c)
    case (WithNonRetryableErrors codes)
    with step_new_slice [OF inv i, of "builder_step c (fst (bs ! i))" codes 0] show ?thesis
      by (simp add: view_def)
  next
    case (AddNonRetryableErrors codes)
    with step_append [OF inv i, of "builder_step c (fst (bs ! i))" grow codes] show ?thesis
      by (simp add: view_def)
  next
    case NoRetry
    have "valid_slice ms nil_slice" "\<not> spare nil_slice" "slice_read ms nil_slice = []"
      using slices_invD(1) [OF inv] by (simp_all add: valid_slice_def nil_slice_def spare_def slice_read_def)
    moreover have "list_all (\<lambda>h. spare (snd h) \<longrightarrow> sl_array (snd h) \<noteq> sl_array nil_slice) bs"
      using slices_invD(5) [OF inv] by (simp add: list_all_length nil_slice_def)
    ultimately show ?thesis
      using step_spread [OF inv i, of nil_slice "builder_step c (fst (bs ! i))"] NoRetry by (simp add: view_def)
  qed (rule same; simp add: view_def)+
qed

subsection \<open>Builders are values, unless a slice with room is passed\<close>

lemma slice_step_values:
  assumes "slices_inv p" and "spread_ok p e"
  shows "slices_inv (slice_step grow p e) \<and> values_of (slice_step grow p e) = value_step (fst p) (values_of p) e"
proof -
  obtain ms bs os where p: "p = (ms, bs, os)" by (cases p)
  note inv = assms(1) [unfolded p] and inv' = slices_invD [OF assms(1) [unfolded p]]
  have idle: "slices_inv (ms, bs, os) \<and> values_of (ms, bs, os) = (map (view ms) bs, map (\<lambda>h. Build (view ms h)) os)"
    using inv by (simp add: values_of_def)
  show ?thesis
  proof (cases e)
    case (MakeSlice codes extra)
    let ?ms = "snd (new_slice codes extra ms)"
    have kept: "slice_read ?ms t = slice_read ms t \<and> valid_slice ?ms t" if "valid_slice ms t" for t
      using undisturbed_new [OF that] by (simp add: undisturbed_def)
    have "view ?ms h = view ms h" if "h \<in> set bs \<union> set os" for h
      using inv that kept [of "snd h"] by (simp add: slices_inv_def view_def)
    then have "map (view ?ms) bs = map (view ms) bs" "map (\<lambda>h. Build (view ?ms h)) os = map (\<lambda>h. Build (view ms h)) os"
      by simp_all
    moreover have "slices_inv (?ms, bs, os)"
      using inv kept by (auto simp: slices_inv_def new_slice_def nth_append)
    ultimately show ?thesis using MakeSlice p by (simp add: values_of_def)
  next
    case MakeBuilder
    have b: "valid_slice ms business_slice" "\<not> spare business_slice" "slice_read ms business_slice = businessErrorCodes"
      using inv'(1,2) by (simp_all add: valid_slice_def business_slice_def spare_def slice_read_def)
    then have "view ms (NewOptionsBuilder, business_slice) = NewOptionsBuilder"
      by (simp add: view_def NewOptionsBuilder_def)
    moreover have "slices_inv (ms, bs @ [(NewOptionsBuilder, business_slice)], os)"
      using inv b by (auto simp: slices_inv_def nth_append less_Suc_eq business_slice_def)
    ultimately show ?thesis using MakeBuilder p by (simp add: values_of_def)
  next
    case (CallSetter i c)
    then show ?thesis using step_setter [OF inv, of i c grow] idle p by (auto simp: values_of_def)
  next
    case (SpreadWith i s)
    then show ?thesis
      using step_spread [OF inv, of i s "fst (bs ! i)"] idle p assms(2)
      by (auto simp: builder_step_view values_of_def simp del: builder_step.simps)
  next
    case (SpreadAdd i s)
    then show ?thesis
      using step_append [OF inv, of i "fst (bs ! i)" grow "slice_read ms s"] idle p
      by (auto simp: builder_step_view values_of_def simp del: builder_step.simps)
  next
    case (TakeOptions i)
    have "slices_inv (ms, bs, os @ [bs ! i])" if "i < length bs"
      using inv that by (fastforce simp: slices_inv_def)
    then show ?thesis using TakeOptions p idle by (auto simp: values_of_def)
  qed
qed

lemma slices_start_inv: "slices_inv slices_start" "values_of slices_start = ([], [])"
  by (simp_all add: slices_start_def slices_inv_def values_of_def)

text \<open>
  C23. Builders are independent of each other and of the options built from them: whatever a program
  does with any number of builders, in any order, each builder holds the codes its own calls gave
  it and each options value those of its \<open>Build\<close>, as if the codes were values and not slices,
  as long as the slices that the program itself spreads into \<open>WithNonRetryableErrors\<close> have no room to
  spare. In particular the shared \<open>businessErrorCodes\<close> is never written.
\<close>

theorem builders_are_values:
  assumes "all_spreads_ok grow slices_start evs"
  shows "values_of (foldl (slice_step grow) slices_start evs) = value_run grow slices_start ([], []) evs \<and>
    fst (foldl (slice_step grow) slices_start evs) ! 0 = businessErrorCodes"
proof -
  have "values_of (foldl (slice_step grow) p evs) = value_run grow p (values_of p) evs \<and>
      slices_inv (foldl (slice_step grow) p evs)"
    if "slices_inv p" "all_spreads_ok grow p evs" for p
    using that
  proof (induction evs arbitrary: p)
    case (Cons e evs)
    then show ?case using slice_step_values [of p e grow] by simp
  qed simp
  from this [OF slices_start_inv(1) assms] show ?thesis
    by (auto simp: slices_start_inv(2) slices_inv_def split: prod.splits)
qed

theorem builders_are_values_witness:
  "let evs = [MakeBuilder, CallSetter 0 (AddNonRetryableErrors [''A'']), TakeOptions 0, MakeBuilder,
       CallSetter 0 (AddNonRetryableErrors [''B'']), CallSetter 1 (AddNonRetryableErrors [''C'']), TakeOptions 0] in
     values_of (foldl (slice_step (\<lambda>c n. n)) slices_start evs) = value_run (\<lambda>c n. n) slices_start ([], []) evs"
  unfolding Let_def by (rule conjunct1 [OF builders_are_values]) simp

text \<open>
  A slice with room to spare is shared. Two builders that are given the same one, and each add a code
  of its own, write into the same place: the options of the first end up with the code of the second.
\<close>

theorem spread_slices_are_shared:
  assumes "s = \<lparr>sl_array = 1, sl_len = 1, sl_cap = 2\<rparr>"
  shows "map (\<lambda>o'. map_option NonRetryableErrorTypes (RetryPolicy o'))
    (snd (values_of (foldl (slice_step grow) slices_start
      [MakeSlice [''Closed''] 1,
       MakeBuilder, SpreadWith 0 s, CallSetter 0 (AddNonRetryableErrors [''First'']), TakeOptions 0,
       MakeBuilder, SpreadWith 1 s, CallSetter 1 (AddNonRetryableErrors [''Second'']), TakeOptions 1]))) =
    [Some [''Closed'', ''Second''], Some [''Closed'', ''Second'']]"
  using assms
  by (simp add: slices_start_def set_slice_def go_append_def new_slice_def values_of_def view_def slice_read_def)

theorem spread_slices_are_shared_witness:
  "map (\<lambda>o'. map_option NonRetryableErrorTypes (RetryPolicy o'))
    (snd (values_of (foldl (slice_step (\<lambda>c n. n)) slices_start
      [MakeSlice [''Closed''] 1,
       MakeBuilder, SpreadWith 0 \<lparr>sl_array = 1, sl_len = 1, sl_cap = 2\<rparr>,
       CallSetter 0 (AddNonRetryableErrors [''First'']), TakeOptions 0,
       MakeBuilder, SpreadWith 1 \<lparr>sl_array = 1, sl_len = 1, sl_cap = 2\<rparr>,
       CallSetter 1 (AddNonRetryableErrors [''Second'']), TakeOptions 1]))) =
    [Some [''Closed'', ''Second''], Some [''Closed'', ''Second'']]"
  by (rule spread_slices_are_shared) (rule refl)

end
