(* ===== verification/WorkflowEnv.thy ===== *)
theory WorkflowEnv
  imports SdkTypes
begin

text \<open>
  A workflow execution as the library's workflow code sees it. The Temporal SDK and the server
  are not under src/: what they answer is a record of parameters over an unknown state \<open>'w\<close>,
  which every call may change. What the code asks of them is written into a history, so that a
  property can say which activities were started, in which order and with which options.
\<close>

subsection \<open>Futures, selectors and events\<close>

text \<open>A future of \<open>workflow.ExecuteActivity\<close>: its number in the execution and the call it stands for.\<close>

record future =
  f_id :: nat
  f_opts :: "activity_options option"
  f_fn :: gofunc
  f_args :: "gval list"

text \<open>The cases a selector can wait for: a signal channel, a timer, an activity's future.\<close>

datatype sel_case = RecvCase string | TimerCase duration | FutureCase future

datatype wf_event =
    Scheduled future
  | Awaited future "go_error option"
  | TimerStarted duration
  | Selected nat
  | SignalReceived string
  | Logged level string "(string \<times> gval) list"
  | Upserted "(string \<times> string) list"
  | VersionRead string int int int
  | QueryRegistered string "go_error option"

subsection \<open>The SDK as parameters\<close>

text \<open>
  \<open>sdk_get\<close> is the final outcome of an activity after the server's retries: the error that
  \<open>Future.Get\<close> returns or the result it decodes. \<open>sdk_select\<close> is the position of the case that
  \<open>Selector.Select\<close> runs.
\<close>

record 'w sdk =
  sdk_WorkflowID :: string
  sdk_RunID :: string
  sdk_now :: "'w \<Rightarrow> time"
  sdk_schedule :: "future \<Rightarrow> 'w \<Rightarrow> 'w"
  sdk_get :: "future \<Rightarrow> 'w \<Rightarrow> (go_error + gval) \<times> 'w"
  sdk_select :: "sel_case list \<Rightarrow> 'w \<Rightarrow> nat \<times> 'w"
  sdk_get_version :: "string \<Rightarrow> int \<Rightarrow> int \<Rightarrow> 'w \<Rightarrow> int \<times> 'w"
  sdk_set_query :: "string \<Rightarrow> 'w \<Rightarrow> go_error option \<times> 'w"
  sdk_app_text :: app_text

text \<open>\<open>Selector.Select\<close> runs one of the cases that were added.\<close>

definition selector_documented :: "'w sdk \<Rightarrow> bool" where
  "selector_documented S \<longleftrightarrow> (\<forall>cs w. cs \<noteq> [] \<longrightarrow> fst (sdk_select S cs w) < length cs)"

text \<open>
  The execution: the SDK's state, the history so far, the number of futures made, and the
  variables that result pointers point to.
\<close>

record 'w wf =
  world :: 'w
  history :: "wf_event list"
  next_future :: nat
  result_vars :: "nat \<Rightarrow> gval"

type_synonym ('w, 'a) workflow = "('w wf, 'a) state"

subsection \<open>Calls of the SDK\<close>

abbreviation return :: "'a \<Rightarrow> ('w, 'a) workflow" where
  "return \<equiv> State_Monad.return"

definition emit :: "wf_event \<Rightarrow> ('w, unit) workflow" where
  "emit e = State (\<lambda>s. ((), s\<lparr>history := history s @ [e]\<rparr>))"

definition wf_log :: "level \<Rightarrow> string \<Rightarrow> (string \<times> gval) list \<Rightarrow> ('w, unit) workflow" where
  "wf_log l msg kvs = emit (Logged l msg kvs)"

definition Now :: "'w sdk \<Rightarrow> ('w, time) workflow" where
  "Now S = State (\<lambda>s. (sdk_now S (world s), s))"

definition execute_activity ::
    "'w sdk \<Rightarrow> 'c ctx_scheme \<Rightarrow> gofunc \<Rightarrow> gval list \<Rightarrow> ('w, future) workflow" where
  "execute_activity S c fn args = State (\<lambda>s.
     let f = \<lparr>f_id = next_future s, f_opts = ctx_opts c, f_fn = fn, f_args = args\<rparr>
     in (f, s\<lparr>world := sdk_schedule S f (world s), history := history s @ [Scheduled f],
              next_future := Suc (next_future s)\<rparr>))"

definition sum_error :: "go_error + 'a \<Rightarrow> go_error option" where
  "sum_error r = (case r of Inl e \<Rightarrow> Some e | Inr _ \<Rightarrow> None)"

lemma sum_error_simps [simp]: "sum_error (Inl e) = Some e" "sum_error (Inr x) = None"
  by (simp_all add: sum_error_def)

definition future_get :: "'w sdk \<Rightarrow> future \<Rightarrow> ('w, go_error + gval) workflow" where
  "future_get S f = State (\<lambda>s.
     case sdk_get S f (world s) of (r, w') \<Rightarrow>
       (r, s\<lparr>world := w', history := history s @ [Awaited f (sum_error r)]\<rparr>))"

text \<open>\<open>workflow.ExecuteActivity(...).Get(...)\<close>, as most call sites write it.\<close>

definition run_activity ::
    "'w sdk \<Rightarrow> 'c ctx_scheme \<Rightarrow> gofunc \<Rightarrow> gval list \<Rightarrow> ('w, go_error + gval) workflow" where
  "run_activity S c fn args = do { f \<leftarrow> execute_activity S c fn args; future_get S f }"

definition select_case :: "'w sdk \<Rightarrow> sel_case list \<Rightarrow> ('w, nat) workflow" where
  "select_case S cs = State (\<lambda>s.
     case sdk_select S cs (world s) of (k, w') \<Rightarrow>
       (k, s\<lparr>world := w', history := history s @ [Selected k]\<rparr>))"

definition write_result :: "nat \<Rightarrow> gval \<Rightarrow> ('w, unit) workflow" where
  "write_result p v = State (\<lambda>s. ((), s\<lparr>result_vars := (result_vars s)(p := v)\<rparr>))"

lemmas wf_prims =
  emit_def wf_log_def Now_def execute_activity_def future_get_def select_case_def write_result_def

subsection \<open>Reading a history\<close>

text \<open>The activities started under given options, with their arguments, in order.\<close>

definition started :: "(activity_options option \<Rightarrow> bool) \<Rightarrow> wf_event list \<Rightarrow> (gofunc \<times> gval list) list" where
  "started P h = List.map_filter
     (\<lambda>e. case e of Scheduled f \<Rightarrow> if P (f_opts f) then Some (f_fn f, f_args f) else None | _ \<Rightarrow> None) h"

text \<open>All activities started, in order, by name.\<close>

definition activities :: "wf_event list \<Rightarrow> gofunc list" where
  "activities h = List.map_filter (\<lambda>e. case e of Scheduled f \<Rightarrow> Some (f_fn f) | _ \<Rightarrow> None) h"

text \<open>The errors that awaiting activities started under given options brought, in order.\<close>

definition failures ::
    "(activity_options option \<Rightarrow> bool) \<Rightarrow> wf_event list \<Rightarrow> (gofunc \<times> gval list \<times> go_error) list" where
  "failures P h = List.map_filter
     (\<lambda>e. case e of Awaited f (Some err) \<Rightarrow>
              if P (f_opts f) then Some (f_fn f, f_args f, err) else None
          | _ \<Rightarrow> None) h"

text \<open>Starting and awaiting the activities under given options, as they interleave.\<close>

definition under :: "(activity_options option \<Rightarrow> bool) \<Rightarrow> wf_event list \<Rightarrow> wf_event list" where
  "under P h = filter
     (\<lambda>e. case e of Scheduled f \<Rightarrow> P (f_opts f) | Awaited f r \<Rightarrow> P (f_opts f) | _ \<Rightarrow> False) h"

text \<open>The worst level logged; Debug for none.\<close>

definition worst_level :: "wf_event list \<Rightarrow> level" where
  "worst_level h = foldr max
     (List.map_filter (\<lambda>e. case e of Logged l m kvs \<Rightarrow> Some l | _ \<Rightarrow> None) h) Debug"

lemma started_simps [trace_simps]:
  "started P [] = []"
  "started P (h @ h') = started P h @ started P h'"
  "started P (Scheduled f # h) =
     (if P (f_opts f) then (f_fn f, f_args f) # started P h else started P h)"
  "started P (Awaited f r # h) = started P h"
  "started P (Logged l m kvs # h) = started P h"
  "started P (Selected c # h) = started P h"
  "started P (TimerStarted d # h) = started P h"
  "started P (SignalReceived n # h) = started P h"
  "started P (Upserted us # h) = started P h"
  "started P (VersionRead n lo hi v # h) = started P h"
  "started P (QueryRegistered n err # h) = started P h"
  by (simp_all add: started_def List.map_filter_def)

lemma activities_simps [trace_simps]:
  "activities [] = []"
  "activities (h @ h') = activities h @ activities h'"
  "activities (Scheduled f # h) = f_fn f # activities h"
  "activities (Awaited f r # h) = activities h"
  "activities (Logged l m kvs # h) = activities h"
  "activities (Selected c # h) = activities h"
  "activities (TimerStarted d # h) = activities h"
  "activities (SignalReceived n # h) = activities h"
  "activities (Upserted us # h) = activities h"
  "activities (VersionRead n lo hi v # h) = activities h"
  "activities (QueryRegistered n err # h) = activities h"
  by (simp_all add: activities_def List.map_filter_def)

lemma failures_simps [trace_simps]:
  "failures P [] = []"
  "failures P (h @ h') = failures P h @ failures P h'"
  "failures P (Scheduled f # h) = failures P h"
  "failures P (Awaited f None # h) = failures P h"
  "failures P (Awaited f (Some e) # h) =
     (if P (f_opts f) then (f_fn f, f_args f, e) # failures P h else failures P h)"
  "failures P (Logged l m kvs # h) = failures P h"
  "failures P (Selected c # h) = failures P h"
  "failures P (TimerStarted d # h) = failures P h"
  "failures P (SignalReceived n # h) = failures P h"
  "failures P (Upserted us # h) = failures P h"
  "failures P (VersionRead n lo hi v # h) = failures P h"
  "failures P (QueryRegistered n err # h) = failures P h"
  by (simp_all add: failures_def List.map_filter_def)

lemma under_simps [trace_simps]:
  "under P [] = []"
  "under P (h @ h') = under P h @ under P h'"
  "under P (Scheduled f # h) = (if P (f_opts f) then Scheduled f # under P h else under P h)"
  "under P (Awaited f r # h) = (if P (f_opts f) then Awaited f r # under P h else under P h)"
  "under P (Logged l m kvs # h) = under P h"
  "under P (Selected c # h) = under P h"
  "under P (TimerStarted d # h) = under P h"
  "under P (SignalReceived n # h) = under P h"
  "under P (Upserted us # h) = under P h"
  "under P (VersionRead n lo hi v # h) = under P h"
  "under P (QueryRegistered n err # h) = under P h"
  by (simp_all add: under_def)

lemma started_under: "started P (under P h) = started P h"
  and failures_under: "failures P (under P h) = failures P h"
  by (induction h) (auto simp: started_def failures_def under_def List.map_filter_simps
      split: wf_event.split option.split)

lemma under_nothing:
  "under P h = [] \<Longrightarrow> started P h = []" "under P h = [] \<Longrightarrow> failures P h = []"
  using started_under [of P h] failures_under [of P h] by (simp_all add: trace_simps)

lemma Debug_max [simp]: "max Debug l = l" "max l Debug = l"
  by (simp_all add: max_def antisym)

lemma Error_max [simp]: "max Error l = Error" "max l Error = Error"
  by (simp_all add: max_def antisym)

lemma worst_level_simps [trace_simps]:
  "worst_level [] = Debug"
  "worst_level (h @ h') = max (worst_level h) (worst_level h')"
  "worst_level (Scheduled f # h) = worst_level h"
  "worst_level (Awaited f r # h) = worst_level h"
  "worst_level (Logged l m kvs # h) = max l (worst_level h)"
  "worst_level (Selected c # h) = worst_level h"
  "worst_level (TimerStarted d # h) = worst_level h"
  "worst_level (SignalReceived n # h) = worst_level h"
  "worst_level (Upserted us # h) = worst_level h"
  "worst_level (VersionRead n lo hi v # h) = worst_level h"
  "worst_level (QueryRegistered n err # h) = worst_level h"
proof -
  show "worst_level (h @ h') = max (worst_level h) (worst_level h')"
    by (induction h) (auto simp: worst_level_def List.map_filter_simps ac_simps split: option.split)
qed (simp_all add: worst_level_def List.map_filter_simps)

subsection \<open>What the calls do to an execution\<close>

lemma run_emit [simp]:
  "run_state (emit e) s = ((), s\<lparr>history := history s @ [e]\<rparr>)"
  by (simp add: emit_def)

lemma run_wf_log [simp]:
  "run_state (wf_log l m kvs) s = ((), s\<lparr>history := history s @ [Logged l m kvs]\<rparr>)"
  by (simp add: wf_log_def)

lemma run_Now [simp]: "run_state (Now S) s = (sdk_now S (world s), s)"
  by (simp add: Now_def)

lemma run_write_result [simp]:
  "run_state (write_result p v) s = ((), s\<lparr>result_vars := (result_vars s)(p := v)\<rparr>)"
  by (simp add: write_result_def)

text \<open>
  An operation extends the history: it never rewrites what happened. Every operation of the
  model does; the rules compose along the monad.
\<close>

definition extends :: "('w, 'a) workflow \<Rightarrow> bool" where
  "extends m \<longleftrightarrow> state_io_rel (\<lambda>s s'. \<exists>es. history s' = history s @ es) m"

lemma extendsI [intro]: "(\<And>s. \<exists>es. history (snd (run_state m s)) = history s @ es) \<Longrightarrow> extends m"
  by (simp add: extends_def state_io_rel_def)

lemma extendsD: "extends m \<Longrightarrow> \<exists>es. history (snd (run_state m s)) = history s @ es"
  by (simp add: extends_def state_io_rel_def)

lemma extends_bind [frame_intros]:
  assumes "extends m" and "\<And>x. extends (f x)"
  shows "extends (m \<bind> f)"
  using assms unfolding extends_def by (rule state_io_rel_bindI) auto

lemma extends_prims [frame_intros]:
  "extends (return x)" "extends (emit e)" "extends (wf_log l msg kvs)" "extends (Now S)"
  "extends (execute_activity S c fn args)" "extends (future_get S f)" "extends (select_case S cs)"
  "extends (write_result p v)"
  by (auto simp: execute_activity_def future_get_def select_case_def Let_def split: prod.split)

lemma extends_run_activity [frame_intros]: "extends (run_activity S c fn args)"
  by (simp add: run_activity_def frame_intros)

text \<open>What an operation appends, from a given execution.\<close>

definition appended :: "('w, 'a) workflow \<Rightarrow> 'w wf \<Rightarrow> wf_event list" where
  "appended m s = drop (length (history s)) (history (snd (run_state m s)))"

lemma history_appended: "extends m \<Longrightarrow> history (snd (run_state m s)) = history s @ appended m s"
  using extendsD [of m s] by (auto simp: appended_def)

lemma appended_return [simp]: "appended (return x) s = []"
  by (simp add: appended_def)

lemma appended_bind:
  assumes "extends m" and "\<And>x. extends (f x)"
  shows "appended (m \<bind> f) s =
    appended m s @ appended (f (fst (run_state m s))) (snd (run_state m s))"
proof -
  let ?s' = "snd (run_state m s)" and ?x = "fst (run_state m s)"
  have "history (snd (run_state (f ?x) ?s')) = history s @ appended m s @ appended (f ?x) ?s'"
    using history_appended [OF assms(2), of ?x ?s'] history_appended [OF assms(1), of s] by simp
  then show ?thesis unfolding appended_def [of "m \<bind> f"] snd_run_state_bind by simp
qed

text \<open>The future an activity call makes, and what starting and awaiting it leaves behind.\<close>

definition call_future :: "'c ctx_scheme \<Rightarrow> gofunc \<Rightarrow> gval list \<Rightarrow> nat \<Rightarrow> future" where
  "call_future c fn args n = \<lparr>f_id = n, f_opts = ctx_opts c, f_fn = fn, f_args = args\<rparr>"

lemma call_future_simps [simp]:
  "f_id (call_future c fn args n) = n" "f_opts (call_future c fn args n) = ctx_opts c"
  "f_fn (call_future c fn args n) = fn" "f_args (call_future c fn args n) = args"
  by (simp_all add: call_future_def)

lemma run_activity_effects:
  assumes "run_state (run_activity S c fn args) s = (r, s')"
  shows "history s' = history s @
      [Scheduled (call_future c fn args (next_future s)),
       Awaited (call_future c fn args (next_future s)) (sum_error r)] \<and>
    next_future s' = Suc (next_future s) \<and> result_vars s' = result_vars s \<and>
    (r, world s') = sdk_get S (call_future c fn args (next_future s))
      (sdk_schedule S (call_future c fn args (next_future s)) (world s))"
  using assms
  by (auto simp: run_activity_def execute_activity_def future_get_def call_future_def Let_def
      split: prod.splits)

lemma run_activity_history [trace_simps]:
  "history (snd (run_state (run_activity S c fn args) s)) = history s @
      [Scheduled (call_future c fn args (next_future s)),
       Awaited (call_future c fn args (next_future s))
         (sum_error (fst (run_state (run_activity S c fn args) s)))]"
  using run_activity_effects [of S c fn args s] by (cases "run_state (run_activity S c fn args) s") simp

lemma appended_prims [simp]:
  "appended (emit e) s = [e]" "appended (wf_log l m kvs) s = [Logged l m kvs]"
  "appended (Now S) s = []" "appended (write_result p v) s = []"
  by (simp_all add: appended_def)

lemma appended_run_activity:
  "appended (run_activity S c fn as) s =
     [Scheduled (call_future c fn as (next_future s)),
      Awaited (call_future c fn as (next_future s)) (sum_error (fst (run_state (run_activity S c fn as) s)))]"
  by (simp add: appended_def run_activity_history)

lemma run_activity_get:
  "\<exists>u. fst (run_state (run_activity S c fn as) s) = fst (sdk_get S (call_future c fn as (next_future s)) u)"
  using run_activity_effects [of S c fn as s] by (metis fst_conv prod.collapse)

subsection \<open>An SDK to evaluate with\<close>

text \<open>An SDK over a trivial world where every activity of a given set fails.\<close>

definition sample_sdk :: "(gofunc \<Rightarrow> bool) \<Rightarrow> unit sdk" where
  "sample_sdk bad =
     \<lparr>sdk_WorkflowID = ''wf-1'', sdk_RunID = ''run-1'', sdk_now = (\<lambda>w. 0), sdk_schedule = (\<lambda>f w. w),
      sdk_get = (\<lambda>f w. (if bad (f_fn f) then Inl (ErrorString ''canceled'') else Inr GNil, w)),
      sdk_select = (\<lambda>cs w. (0, w)), sdk_get_version = (\<lambda>n lo hi w. (hi, w)),
      sdk_set_query = (\<lambda>n w. (None, w)), sdk_app_text = (\<lambda>m t nr c. m)\<rparr>"

definition sample_wf :: "unit wf" where
  "sample_wf = \<lparr>world = (), history = [], next_future = 0, result_vars = (\<lambda>_. GNil)\<rparr>"

end
