(* ===== verification/Compensation.thy ===== *)
theory Compensation
  imports WorkflowEnv ActivityOptions
begin

text \<open>
  The data of a saga's rollback steps in \<open>workflow/saga.go\<close>: the registered step, the activity
  options all of them run under, and the label of a step.
\<close>

record compensation =
  activityFn :: gofunc
  args :: "gval list"
  stepName :: string

definition getFunctionName :: "gofunc \<Rightarrow> string" where
  "getFunctionName fn = (if fn = '''' then ''unknown'' else fn)"

definition compensationActivityOptions :: activity_options where
  "compensationActivityOptions =
     \<lparr>ScheduleToCloseTimeout = 0,
      StartToCloseTimeout = 1 * Hour,
      HeartbeatTimeout = 60 * Second,
      RetryPolicy = Some
        \<lparr>InitialInterval = 5 * Second,
         BackoffCoefficient = Fin 2,
         MaximumInterval = 5 * Minute,
         MaximumAttempts = 0,
         NonRetryableErrorTypes = []\<rparr>\<rparr>"

text \<open>Whether an activity was started as a compensation: by the options it runs under.\<close>

definition is_comp :: "activity_options option \<Rightarrow> bool" where
  "is_comp o' \<longleftrightarrow> o' = Some compensationActivityOptions"

lemma is_comp_simps [simp]:
  "is_comp (Some compensationActivityOptions)"
  "\<not> is_comp (Some financialAPIOptions)" "\<not> is_comp (Some notificationOptions)"
  "\<not> is_comp (Some internalServiceOptions)" "\<not> is_comp (Some longRunningOptions)"
  by (simp_all add: is_comp_def compensationActivityOptions_def preset_defs duration_units)

text \<open>The arguments of one run of a step, as a history shows it.\<close>

definition step_call :: "compensation \<Rightarrow> gofunc \<times> gval list" where
  "step_call c = (activityFn c, args c)"

end
