(* ===== verification/Dlq.thy ===== *)
theory Dlq
  imports Compensation
begin

text \<open>
  \<open>workflow/dlq.go\<close>: what is reported when a compensation step fails permanently, the handler
  interface, and the handler that hands the report to a sink activity.
\<close>

record CompensationFailureEvent =
  SagaID :: string
  RunID :: string
  StepName :: string
  StepIndex :: int
  ErrorMessage :: string
  OccurredAt :: time

text \<open>The event as the argument of the sink activity.\<close>

definition event_val :: "CompensationFailureEvent \<Rightarrow> gval" where
  "event_val ev = GStruct ''CompensationFailureEvent''
     [(''SagaID'', GStr (SagaID ev)), (''RunID'', GStr (RunID ev)),
      (''StepName'', GStr (StepName ev)), (''StepIndex'', GInt (StepIndex ev)),
      (''ErrorMessage'', GStr (ErrorMessage ev)), (''OccurredAt'', GTime (OccurredAt ev))]"

lemma event_val_inject [simp]: "event_val a = event_val b \<longleftrightarrow> a = b"
  by (cases a; cases b) (auto simp: event_val_def)

text \<open>
  A value of the interface \<open>CompensationDLQHandler\<close> is its one method, which may panic.
\<close>

type_synonym 'w CompensationDLQHandler =
  "ctx \<Rightarrow> CompensationFailureEvent \<Rightarrow> ('w, (gval, unit) outcome) workflow"

record ActivityDLQHandler =
  dlq_activityFn :: gofunc
  dlq_optionsFn :: "(ctx \<Rightarrow> ctx) option"

definition NewActivityDLQHandler :: "gofunc \<Rightarrow> ActivityDLQHandler" where
  "NewActivityDLQHandler fn = \<lparr>dlq_activityFn = fn, dlq_optionsFn = None\<rparr>"

definition NewActivityDLQHandlerWithOptions :: "gofunc \<Rightarrow> (ctx \<Rightarrow> ctx) \<Rightarrow> ActivityDLQHandler" where
  "NewActivityDLQHandlerWithOptions fn optionsFn =
     \<lparr>dlq_activityFn = fn, dlq_optionsFn = Some optionsFn\<rparr>"

definition OnCompensationFailed :: "'w sdk \<Rightarrow> ActivityDLQHandler \<Rightarrow> 'w CompensationDLQHandler" where
  "OnCompensationFailed S h c event =
     (let applyOpts = (case dlq_optionsFn h of None \<Rightarrow> WithInternalServiceOptions | Some f \<Rightarrow> f);
          sinkCtx = applyOpts c
      in do {
        r \<leftarrow> run_activity S sinkCtx (dlq_activityFn h) [event_val event];
        (case r of
           Inr _ \<Rightarrow> return (Returned ())
         | Inl err \<Rightarrow> do {
             wf_log Error ''saga: DLQ sink activity failed''
               [(''sagaID'', GStr (SagaID event)), (''step'', GStr (StepName event)),
                (''error'', GErr err)];
             return (Returned ())
           })
      })"

subsection \<open>The contract of a handler\<close>

text \<open>
  What \<open>Compensate\<close> needs of a handler so that the rollback stays what was registered: it only
  adds to the execution, and it starts no compensation of its own.
\<close>

locale dlq_handler =
  fixes h :: "'w CompensationDLQHandler"
  assumes handler_extends: "extends (h c ev)"
    and handler_compensates_nothing: "under is_comp (appended (h c ev) s) = []"

text \<open>
  A handler that delivers: each report starts the sink activity exactly once, with the event, under
  options that are not those of compensations.
\<close>

locale delivering_dlq_handler = dlq_handler +
  fixes sink :: "activity_options option \<Rightarrow> bool"
    and sink_fn :: gofunc
  assumes sink_not_comp: "\<not> sink (Some compensationActivityOptions)"
    and handler_delivers: "started sink (appended (h c ev) s) = [(sink_fn, [event_val ev])]"

subsection \<open>The handlers of the library keep it\<close>

lemma extends_OnCompensationFailed [frame_intros]: "extends (OnCompensationFailed S h c ev)"
  by (auto simp: OnCompensationFailed_def Let_def intro!: frame_intros split: sum.split)

lemma appended_OnCompensationFailed:
  assumes "dlq_optionsFn h = None"
  shows "\<exists>logs r. appended (OnCompensationFailed S h c ev) s =
      [Scheduled (call_future (WithInternalServiceOptions c) (dlq_activityFn h) [event_val ev] (next_future s)),
       Awaited (call_future (WithInternalServiceOptions c) (dlq_activityFn h) [event_val ev] (next_future s)) r]
      @ logs \<and> list_all (\<lambda>e. case e of Logged _ _ _ \<Rightarrow> True | _ \<Rightarrow> False) logs"
proof -
  let ?c = "WithInternalServiceOptions c" and ?a = "[event_val ev]"
  obtain r s' where run: "run_state (run_activity S ?c (dlq_activityFn h) ?a) s = (r, s')"
    by fastforce
  show ?thesis
    using run_activity_effects [OF run] run assms
    by (cases r) (simp_all add: OnCompensationFailed_def appended_def)
qed

lemma logs_started [simp]:
  "list_all (\<lambda>e. case e of Logged _ _ _ \<Rightarrow> True | _ \<Rightarrow> False) logs \<Longrightarrow>
     under P logs = [] \<and> started P logs = [] \<and> failures P logs = [] \<and> activities logs = []"
  by (induction logs) (auto simp: trace_simps split: wf_event.splits)

text \<open>The default handler: its sink runs under the internal-service preset.\<close>

lemma default_handler_contract:
  "under is_comp (appended (OnCompensationFailed S (NewActivityDLQHandler fn) c ev) s) = [] \<and>
   started (\<lambda>o'. o' = Some internalServiceOptions)
     (appended (OnCompensationFailed S (NewActivityDLQHandler fn) c ev) s) = [(fn, [event_val ev])]"
proof -
  have "dlq_optionsFn (NewActivityDLQHandler fn) = None" "dlq_activityFn (NewActivityDLQHandler fn) = fn"
    by (simp_all add: NewActivityDLQHandler_def)
  then obtain logs r where "appended (OnCompensationFailed S (NewActivityDLQHandler fn) c ev) s =
      [Scheduled (call_future (WithInternalServiceOptions c) fn [event_val ev] (next_future s)),
       Awaited (call_future (WithInternalServiceOptions c) fn [event_val ev] (next_future s)) r] @ logs"
    and "list_all (\<lambda>e. case e of Logged _ _ _ \<Rightarrow> True | _ \<Rightarrow> False) logs"
    using appended_OnCompensationFailed [of "NewActivityDLQHandler fn" S c ev s] by auto
  then show ?thesis
    by (cases r) (simp_all add: trace_simps WithInternalServiceOptions_def)
qed

lemma comp_not_internal [simp]: "compensationActivityOptions \<noteq> internalServiceOptions"
  using is_comp_simps(4) by (auto simp: is_comp_def)

interpretation activity_dlq: delivering_dlq_handler
  "OnCompensationFailed S (NewActivityDLQHandler fn)" "\<lambda>o'. o' = Some internalServiceOptions" fn
  for S fn
  by unfold_locales (simp_all add: default_handler_contract frame_intros)

text \<open>No handler configured: nothing is added.\<close>

definition no_handler :: "'w CompensationDLQHandler" where
  "no_handler c ev = return (Returned ())"

interpretation no_dlq: dlq_handler no_handler
  by unfold_locales (auto simp: no_handler_def frame_intros trace_simps)

end
