(* ===== verification/SagaRollback.thy ===== *)
theory SagaRollback
  imports Dlq ActivityErrors
begin

text \<open>
  \<open>workflow/saga.go\<close>: the saga's state, the operations that a workflow calls on it, and
  \<open>Compensate\<close>, which undoes the registered steps. The saga's logger is the one of its context:
  its messages are entries of the history.
\<close>

record 'w Saga =
  sg_ctx :: ctx
  sg_id :: string
  sg_runID :: string
  compensations :: "compensation list"
  pivotIdx :: int
  completed :: bool
  dlqHandler :: "'w CompensationDLQHandler option"

type_synonym 'w SagaOption = "'w Saga \<Rightarrow> 'w Saga"

definition WithDLQHandler :: "'w CompensationDLQHandler option \<Rightarrow> 'w SagaOption" where
  "WithDLQHandler h s = s\<lparr>dlqHandler := h\<rparr>"

definition NewSaga :: "'w sdk \<Rightarrow> ctx \<Rightarrow> 'w SagaOption list \<Rightarrow> 'w Saga" where
  "NewSaga S c opts = fold (\<lambda>f s. f s) opts
     \<lparr>sg_ctx = c, sg_id = sdk_WorkflowID S, sg_runID = sdk_RunID S, compensations = [],
      pivotIdx = - 1, completed = False, dlqHandler = None\<rparr>"

definition AddCompensation :: "gofunc \<Rightarrow> gval list \<Rightarrow> 'w Saga \<Rightarrow> 'w Saga" where
  "AddCompensation fn as s = s\<lparr>compensations := compensations s @
     [\<lparr>activityFn = fn, args = as, stepName = getFunctionName fn\<rparr>]\<rparr>"

definition SetPivot :: "'w Saga \<Rightarrow> 'w Saga" where
  "SetPivot s = s\<lparr>pivotIdx := int (length (compensations s))\<rparr>"

definition Complete :: "'w Saga \<Rightarrow> 'w Saga" where
  "Complete s = s\<lparr>completed := True\<rparr>"

subsection \<open>Compensate\<close>

text \<open>The event for the step at a position of the stack.\<close>

definition failure_event ::
    "'w sdk \<Rightarrow> 'w Saga \<Rightarrow> nat \<Rightarrow> compensation \<Rightarrow> go_error \<Rightarrow> time \<Rightarrow> CompensationFailureEvent" where
  "failure_event S s i c err t =
     \<lparr>SagaID = sg_id s, RunID = sg_runID s, StepName = stepName c, StepIndex = int i,
      ErrorMessage = error_text (sdk_app_text S) err, OccurredAt = t\<rparr>"

text \<open>The handler's call under the deferred \<open>recover\<close>: a panic ends in the log.\<close>

definition report_to_dlq ::
    "'w sdk \<Rightarrow> 'w Saga \<Rightarrow> nat \<Rightarrow> compensation \<Rightarrow> go_error \<Rightarrow> ('w, unit) workflow" where
  "report_to_dlq S s i c err =
     (case dlqHandler s of
        None \<Rightarrow> return ()
      | Some h \<Rightarrow> do {
          t \<leftarrow> Now S;
          r \<leftarrow> h (sg_ctx s) (failure_event S s i c err t);
          (case r of
             Returned _ \<Rightarrow> return ()
           | Panicked v \<Rightarrow> wf_log Error ''saga: DLQ handler panicked''
               [(''sagaID'', GStr (sg_id s)), (''step'', GStr (stepName c)), (''panic'', v)])
        })"

text \<open>One round of the loop: the step at position \<open>i\<close>.\<close>

definition compensate_step ::
    "'w sdk \<Rightarrow> 'w Saga \<Rightarrow> ctx \<Rightarrow> nat \<Rightarrow> compensation \<Rightarrow> ('w, unit) workflow" where
  "compensate_step S s compensationCtx i c = do {
     wf_log Info ''saga: compensating step''
       [(''sagaID'', GStr (sg_id s)), (''step'', GStr (stepName c)), (''index'', GInt (int i))];
     r \<leftarrow> run_activity S compensationCtx (activityFn c) (args c);
     (case r of
        Inr _ \<Rightarrow> return ()
      | Inl err \<Rightarrow>
          (let compErr = NewCompensationError
                 (''step '' @ go_quote (stepName c) @ '' failed permanently'')
                 (sg_id s) (stepName c) (Some err)
           in do {
             wf_log Error (''saga: compensation step failed '' @ em_dash @ '' human intervention required'')
               [(''sagaID'', GStr (sg_id s)), (''step'', GStr (stepName c)), (''error'', GErr compErr)];
             report_to_dlq S s i c err
           }))
   }"

text \<open>The loop from position \<open>n - 1\<close> down to 0.\<close>

fun compensate_from :: "'w sdk \<Rightarrow> 'w Saga \<Rightarrow> ctx \<Rightarrow> nat \<Rightarrow> ('w, unit) workflow" where
  "compensate_from S s compensationCtx 0 = return ()"
| "compensate_from S s compensationCtx (Suc i) = do {
     compensate_step S s compensationCtx i (compensations s ! i);
     compensate_from S s compensationCtx i
   }"

definition Compensate :: "'w sdk \<Rightarrow> 'w Saga \<Rightarrow> ('w, unit) workflow" where
  "Compensate S s =
     (if completed s then return ()
      else if length (compensations s) = 0 then return ()
      else (let compensationCtx = WithActivityOptions (sg_ctx s) compensationActivityOptions in do {
        wf_log Info ''saga: starting compensation''
          [(''sagaID'', GStr (sg_id s)), (''steps'', GInt (int (length (compensations s))))];
        compensate_from S s compensationCtx (length (compensations s));
        wf_log Info ''saga: compensation complete'' [(''sagaID'', GStr (sg_id s))]
      }))"

subsection \<open>What the rollback does, for every handler that keeps its contract\<close>

text \<open>A saga without a handler behaves as one whose handler does nothing.\<close>

definition effective_handler :: "'w Saga \<Rightarrow> 'w CompensationDLQHandler" where
  "effective_handler s = (case dlqHandler s of None \<Rightarrow> no_handler | Some h \<Rightarrow> h)"

lemma report_to_dlq_effective:
  "report_to_dlq S s i c err = do {
     t \<leftarrow> Now S;
     r \<leftarrow> effective_handler s (sg_ctx s) (failure_event S s i c err t);
     (case r of
        Returned _ \<Rightarrow> return ()
      | Panicked v \<Rightarrow> wf_log Error ''saga: DLQ handler panicked''
          [(''sagaID'', GStr (sg_id s)), (''step'', GStr (stepName c)), (''panic'', v)])
   }"
  by (rule state_eqI)
    (simp add: report_to_dlq_def effective_handler_def no_handler_def split: option.split)

text \<open>What a step logs when it starts, and when it cannot be undone.\<close>

abbreviation step_log :: "'w Saga \<Rightarrow> nat \<Rightarrow> compensation \<Rightarrow> wf_event" where
  "step_log s i c \<equiv> Logged Info ''saga: compensating step''
     [(''sagaID'', GStr (sg_id s)), (''step'', GStr (stepName c)), (''index'', GInt (int i))]"

abbreviation failure_log :: "'w Saga \<Rightarrow> compensation \<Rightarrow> go_error \<Rightarrow> wf_event" where
  "failure_log s c err \<equiv> Logged Error (''saga: compensation step failed '' @ em_dash @ '' human intervention required'')
     [(''sagaID'', GStr (sg_id s)), (''step'', GStr (stepName c)),
      (''error'', GErr (NewCompensationError
           (''step '' @ go_quote (stepName c) @ '' failed permanently'')
           (sg_id s) (stepName c) (Some err)))]"

text \<open>The events of one compensation: started, then awaited.\<close>

definition comp_run :: "future \<Rightarrow> go_error option \<Rightarrow> wf_event list" where
  "comp_run f r = [Scheduled f, Awaited f r]"

context dlq_handler
begin

lemma extends_report [frame_intros]:
  "effective_handler s = h \<Longrightarrow> extends (report_to_dlq S s i c err)"
  unfolding report_to_dlq_effective
  by (simp add: frame_intros handler_extends split: outcome.split)

lemma under_report:
  assumes "effective_handler s = h"
  shows "under is_comp (appended (report_to_dlq S s i c err) w) = []"
  unfolding report_to_dlq_effective assms
  by (simp add: appended_bind handler_extends frame_intros trace_simps handler_compensates_nothing
      split: outcome.split)

lemma extends_step [frame_intros]:
  "effective_handler s = h \<Longrightarrow> extends (compensate_step S s cc i c)"
  by (simp add: compensate_step_def Let_def frame_intros split: sum.split)

lemma extends_compensate_from [frame_intros]:
  "effective_handler s = h \<Longrightarrow> extends (compensate_from S s cc n)"
  by (induction n) (simp_all add: frame_intros)

lemma extends_Compensate:
  "effective_handler s = h \<Longrightarrow> extends (Compensate S s)"
  by (simp add: Compensate_def Let_def frame_intros)

lemma appended_step:
  assumes "effective_handler s = h"
  shows "\<exists>f r w'. f = call_future cc (activityFn c) (args c) (next_future w) \<and>
    (\<exists>u. r = sum_error (fst (sdk_get S f u))) \<and>
    appended (compensate_step S s cc i c) w =
      step_log s i c #
      comp_run f r @
      (case r of None \<Rightarrow> [] | Some err \<Rightarrow>
         failure_log s c err #
         appended (report_to_dlq S s i c err) w')"
proof -
  let ?w = "w\<lparr>history := history w @ [step_log s i c]\<rparr>"
  let ?m = "run_activity S cc (activityFn c) (args c)"
  have get: "\<exists>u. fst (run_state ?m ?w) =
      fst (sdk_get S (call_future cc (activityFn c) (args c) (next_future w)) u)"
    by (rule run_activity_get [where s = ?w, simplified])
  let ?r = "fst (run_state ?m ?w)" and ?w1 = "snd (run_state ?m ?w)"
  define k where "k = (\<lambda>r :: go_error + gval. case r of Inr _ \<Rightarrow> return ()
        | Inl err \<Rightarrow> emit (failure_log s c err) \<bind> (\<lambda>_. report_to_dlq S s i c err))"
  have step: "compensate_step S s cc i c = emit (step_log s i c) \<bind> (\<lambda>_. ?m \<bind> k)"
    by (simp only: compensate_step_def Let_def wf_log_def k_def)
  have k: "k (Inr x) = return ()"
      "k (Inl err) = emit (failure_log s c err) \<bind> (\<lambda>_. report_to_dlq S s i c err)" for x err
    by (simp_all only: k_def sum.case)
  have ext: "extends (k r)" for r
    using assms by (cases r) (simp_all add: k frame_intros)
  have app: "appended (compensate_step S s cc i c) w =
      step_log s i c # appended ?m ?w @ appended (k ?r) ?w1"
    unfolding step by (simp add: appended_bind ext frame_intros)
  have "\<exists>w'. appended (k ?r) ?w1 = (case sum_error ?r of None \<Rightarrow> []
       | Some err \<Rightarrow> failure_log s c err # appended (report_to_dlq S s i c err) w')"
    using assms by (cases ?r) (auto simp: k appended_bind frame_intros)
  with get app show ?thesis
    unfolding appended_run_activity by (auto simp: comp_run_def)
qed

end

text \<open>The call that a future stands for.\<close>

definition call_of :: "future \<Rightarrow> gofunc \<times> gval list" where
  "call_of f = (f_fn f, f_args f)"

lemma rev_take_Suc: "i < length xs \<Longrightarrow> rev (take (Suc i) xs) = xs ! i # rev (take i xs)"
  by (simp add: take_Suc_conv_app_nth)

text \<open>Every compensation that is awaited fails, as under a cancelled context.\<close>

definition no_compensation_succeeds :: "'w sdk \<Rightarrow> bool" where
  "no_compensation_succeeds S \<longleftrightarrow>
     (\<forall>f w. is_comp (f_opts f) \<longrightarrow> sum_error (fst (sdk_get S f w)) \<noteq> None)"

lemma started_comp_runs:
  "length rs = length fs \<Longrightarrow> \<forall>f \<in> set fs. P (f_opts f) \<Longrightarrow>
    started P (concat (map2 comp_run fs rs)) = map call_of fs"
  by (induction fs rs rule: list_induct2') (auto simp: comp_run_def call_of_def trace_simps)

context dlq_handler
begin

lemma under_step:
  assumes "effective_handler s = h" "ctx_opts cc = Some compensationActivityOptions"
  shows "\<exists>f r. call_of f = step_call c \<and> is_comp (f_opts f) \<and>
    (no_compensation_succeeds S \<longrightarrow> r \<noteq> None) \<and>
    under is_comp (appended (compensate_step S s cc i c) w) = comp_run f r"
proof -
  let ?f = "call_future cc (activityFn c) (args c) (next_future w)"
  obtain r u w' where r: "r = sum_error (fst (sdk_get S ?f u))" and
    app: "appended (compensate_step S s cc i c) w =
      step_log s i c #
      comp_run ?f r @
      (case r of None \<Rightarrow> [] | Some err \<Rightarrow>
         failure_log s c err #
         appended (report_to_dlq S s i c err) w')"
    using appended_step [OF assms(1), where S = S and cc = cc and i = i and c = c and w = w] by blast
  have "under is_comp (appended (compensate_step S s cc i c) w) = comp_run ?f r"
    unfolding app using assms(2) under_report [OF assms(1)]
    by (cases r) (simp_all add: trace_simps comp_run_def)
  with r show ?thesis
    using assms(2) unfolding no_compensation_succeeds_def
    by (intro exI [of _ ?f] exI [of _ r]) (simp add: call_of_def step_call_def)
qed

lemma under_compensate_from:
  assumes "effective_handler s = h" "ctx_opts cc = Some compensationActivityOptions"
    and "n \<le> length (compensations s)"
  shows "\<exists>fs rs. length rs = length fs \<and> (\<forall>f \<in> set fs. is_comp (f_opts f)) \<and>
    (no_compensation_succeeds S \<longrightarrow> (\<forall>r \<in> set rs. r \<noteq> None)) \<and>
    map call_of fs = map step_call (rev (take n (compensations s))) \<and>
    under is_comp (appended (compensate_from S s cc n) w) = concat (map2 comp_run fs rs)"
  using assms(3)
proof (induction n arbitrary: w)
  case 0
  show ?case by (intro exI [of _ "[]"]) (simp add: trace_simps)
next
  case (Suc i)
  let ?c = "compensations s ! i"
  let ?w = "snd (run_state (compensate_step S s cc i ?c) w)"
  obtain f r where f: "call_of f = step_call ?c" "is_comp (f_opts f)"
      "no_compensation_succeeds S \<longrightarrow> r \<noteq> None"
      "under is_comp (appended (compensate_step S s cc i ?c) w) = comp_run f r"
    using under_step [OF assms(1,2)] by blast
  obtain fs rs where fs: "length rs = length fs" "\<forall>f \<in> set fs. is_comp (f_opts f)"
      "no_compensation_succeeds S \<longrightarrow> (\<forall>r \<in> set rs. r \<noteq> None)"
      "map call_of fs = map step_call (rev (take i (compensations s)))"
      "under is_comp (appended (compensate_from S s cc i) ?w) = concat (map2 comp_run fs rs)"
    using Suc by fastforce
  show ?case
    using f fs Suc.prems assms(1)
    by (intro exI [of _ "f # fs"] exI [of _ "r # rs"])
      (simp add: appended_bind frame_intros trace_simps rev_take_Suc)
qed

lemma under_Compensate:
  assumes "effective_handler s = h"
  shows "\<exists>fs rs. length rs = length fs \<and> (\<forall>f \<in> set fs. is_comp (f_opts f)) \<and>
    (no_compensation_succeeds S \<longrightarrow> (\<forall>r \<in> set rs. r \<noteq> None)) \<and>
    map call_of fs = (if completed s then [] else map step_call (rev (compensations s))) \<and>
    under is_comp (appended (Compensate S s) w) = concat (map2 comp_run fs rs)"
proof (cases "completed s \<or> compensations s = []")
  case True
  then show ?thesis by (intro exI [of _ "[]"]) (auto simp: Compensate_def trace_simps)
next
  case False
  let ?cc = "WithActivityOptions (sg_ctx s) compensationActivityOptions"
  let ?w = "snd (run_state (wf_log Info ''saga: starting compensation''
          [(''sagaID'', GStr (sg_id s)), (''steps'', GInt (int (length (compensations s))))]) w)"
  show ?thesis
    using under_compensate_from [OF assms, where S = S and cc = ?cc and n = "length (compensations s)" and w = ?w] False
    by (simp add: Compensate_def Let_def appended_bind frame_intros trace_simps assms)
qed

text \<open>Which compensations run, and in which order.\<close>

lemma started_Compensate:
  assumes "effective_handler s = h"
  shows "started is_comp (appended (Compensate S s) w) =
    (if completed s then [] else map step_call (rev (compensations s)))"
proof -
  obtain fs rs where "length rs = length fs" "\<forall>f \<in> set fs. is_comp (f_opts f)"
      "map call_of fs = (if completed s then [] else map step_call (rev (compensations s)))"
      "under is_comp (appended (Compensate S s) w) = concat (map2 comp_run fs rs)"
    using under_Compensate [OF assms] by blast
  then show ?thesis
    using started_under [of is_comp "appended (Compensate S s) w"] started_comp_runs [of rs fs is_comp]
    by simp
qed

end

lemma failures_comp_runs:
  "length rs = length fs \<Longrightarrow> \<forall>f \<in> set fs. P (f_opts f) \<Longrightarrow> (\<forall>r \<in> set rs. r \<noteq> None) \<Longrightarrow>
    map (\<lambda>(fn, as, err). (fn, as)) (failures P (concat (map2 comp_run fs rs))) = map call_of fs"
  by (induction fs rs rule: list_induct2') (auto simp: comp_run_def call_of_def trace_simps)

context dlq_handler
begin

text \<open>When nothing can be undone, every step is still tried once, in the same order.\<close>

lemma failures_Compensate_all:
  assumes "effective_handler s = h" "no_compensation_succeeds S"
  shows "map (\<lambda>(fn, as, err). (fn, as)) (failures is_comp (appended (Compensate S s) w)) =
    (if completed s then [] else map step_call (rev (compensations s)))"
proof -
  obtain fs rs where "length rs = length fs" "\<forall>f \<in> set fs. is_comp (f_opts f)"
      "(\<forall>r \<in> set rs. r \<noteq> None)"
      "map call_of fs = (if completed s then [] else map step_call (rev (compensations s)))"
      "under is_comp (appended (Compensate S s) w) = concat (map2 comp_run fs rs)"
    using under_Compensate [OF assms(1), of S w] assms(2) by blast
  then show ?thesis
    using failures_under [of is_comp "appended (Compensate S s) w"] failures_comp_runs [of rs fs is_comp]
    by simp
qed

text \<open>What a rollback logs: it complains if and only if some step could not be undone.\<close>

lemma worst_level_step:
  assumes "effective_handler s = h" "ctx_opts cc = Some compensationActivityOptions"
  shows "worst_level (appended (compensate_step S s cc i c) w) =
    (if failures is_comp (appended (compensate_step S s cc i c) w) = [] then Info else Error)"
proof -
  obtain f r w' where "f = call_future cc (activityFn c) (args c) (next_future w)" and
    app: "appended (compensate_step S s cc i c) w = step_log s i c # comp_run f r @
      (case r of None \<Rightarrow> []
       | Some err \<Rightarrow> failure_log s c err # appended (report_to_dlq S s i c err) w')"
    using appended_step [OF assms(1), where S = S and cc = cc and i = i and c = c and w = w] by blast
  then show ?thesis
    using assms(2) by (cases r) (simp_all add: trace_simps comp_run_def)
qed

lemma worst_level_compensate_from:
  assumes "effective_handler s = h" "ctx_opts cc = Some compensationActivityOptions"
  shows "worst_level (appended (compensate_from S s cc n) w) \<le> Info \<and>
      failures is_comp (appended (compensate_from S s cc n) w) = [] \<or>
    worst_level (appended (compensate_from S s cc n) w) = Error \<and>
      failures is_comp (appended (compensate_from S s cc n) w) \<noteq> []"
proof (induction n arbitrary: w)
  case 0
  show ?case by (simp add: trace_simps)
next
  case (Suc i)
  let ?m = "compensate_step S s cc i (compensations s ! i)"
  show ?case
    using Suc.IH [of "snd (run_state ?m w)"] worst_level_step [OF assms, of S i "compensations s ! i" w] assms(1)
    by (auto simp: appended_bind frame_intros trace_simps max_def antisym split: if_splits)
qed

lemma worst_level_Compensate:
  assumes "effective_handler s = h"
  shows "worst_level (appended (Compensate S s) w) =
    (if completed s \<or> compensations s = [] then Debug
     else if failures is_comp (appended (Compensate S s) w) = [] then Info else Error)"
  using worst_level_compensate_from [OF assms, where S = S and n = "length (compensations s)" and
      cc = "WithActivityOptions (sg_ctx s) compensationActivityOptions" and
      w = "snd (run_state (wf_log Info ''saga: starting compensation''
          [(''sagaID'', GStr (sg_id s)), (''steps'', GInt (int (length (compensations s))))]) w)"]
  by (auto simp: Compensate_def Let_def appended_bind frame_intros assms trace_simps max_def antisym)

end

subsection \<open>What the sink of a delivering handler is told\<close>

text \<open>A failure of the step at a position: its error and the time it was reported.\<close>

type_synonym report = "nat \<times> go_error \<times> time"

definition failed_call :: "'w Saga \<Rightarrow> report \<Rightarrow> gofunc \<times> gval list \<times> go_error" where
  "failed_call s = (\<lambda>(i, err, t). (activityFn (compensations s ! i), args (compensations s ! i), err))"

definition sink_call :: "'w sdk \<Rightarrow> 'w Saga \<Rightarrow> gofunc \<Rightarrow> report \<Rightarrow> gofunc \<times> gval list" where
  "sink_call S s fn = (\<lambda>(i, err, t). (fn, [event_val
     \<lparr>SagaID = sg_id s, RunID = sg_runID s, StepName = stepName (compensations s ! i), StepIndex = int i,
      ErrorMessage = error_text (sdk_app_text S) err, OccurredAt = t\<rparr>]))"

lemma sink_call_event:
  "sink_call S s fn (i, err, t) = (fn, [event_val (failure_event S s i (compensations s ! i) err t)])"
  by (simp add: sink_call_def failure_event_def)

context delivering_dlq_handler
begin

lemma started_sink_report:
  assumes "effective_handler s = h"
  shows "\<exists>t. started sink (appended (report_to_dlq S s i c err) w) =
    [(sink_fn, [event_val (failure_event S s i c err t)])]"
  unfolding report_to_dlq_effective assms
  by (rule exI [of _ "sdk_now S (world w)"])
    (simp add: appended_bind handler_extends handler_delivers frame_intros trace_simps split: outcome.split)

lemma step_reports:
  assumes "effective_handler s = h" "ctx_opts cc = Some compensationActivityOptions"
  shows "\<exists>rs. (rs = [] \<or> (\<exists>err t. rs = [(i, err, t)])) \<and>
    failures is_comp (appended (compensate_step S s cc i (compensations s ! i)) w) = map (failed_call s) rs \<and>
    started sink (appended (compensate_step S s cc i (compensations s ! i)) w) = map (sink_call S s sink_fn) rs"
proof -
  let ?c = "compensations s ! i"
  note app = appended_step [OF assms(1), where S = S and cc = cc and i = i and c = ?c and w = w]
  show ?thesis
  proof (cases "failures is_comp (appended (compensate_step S s cc i ?c) w)")
    case Nil
    then have "started sink (appended (compensate_step S s cc i ?c) w) = []"
      using app assms sink_not_comp by (auto simp: comp_run_def trace_simps split: option.splits)
    with Nil show ?thesis by (intro exI [of _ "[]"]) simp
  next
    case (Cons x xs)
    then obtain err w' where 1: "failures is_comp (appended (compensate_step S s cc i ?c) w) =
          [(activityFn ?c, args ?c, err)]"
      and 2: "started sink (appended (compensate_step S s cc i ?c) w) =
          started sink (appended (report_to_dlq S s i ?c err) w')"
      using app assms sink_not_comp under_nothing(2) [OF under_report [OF assms(1)]]
      by (auto simp: comp_run_def trace_simps split: option.splits)
    obtain t where "started sink (appended (report_to_dlq S s i ?c err) w') =
        [(sink_fn, [event_val (failure_event S s i ?c err t)])]"
      using started_sink_report [OF assms(1)] by blast
    with 1 2 show ?thesis
      by (intro exI [of _ "[(i, err, t)]"]) (auto simp: failed_call_def sink_call_event)
  qed
qed

lemma compensate_from_reports:
  assumes "effective_handler s = h" "ctx_opts cc = Some compensationActivityOptions"
  shows "\<exists>rs. sorted_wrt (>) (map fst rs) \<and> (\<forall>i \<in> set (map fst rs). i < n) \<and>
    failures is_comp (appended (compensate_from S s cc n) w) = map (failed_call s) rs \<and>
    started sink (appended (compensate_from S s cc n) w) = map (sink_call S s sink_fn) rs"
proof (induction n arbitrary: w)
  case 0
  show ?case by (intro exI [of _ "[]"]) (simp add: trace_simps)
next
  case (Suc i)
  let ?m = "compensate_step S s cc i (compensations s ! i)"
  obtain r where r: "r = [] \<or> (\<exists>err t. r = [(i, err, t)])"
    "failures is_comp (appended ?m w) = map (failed_call s) r"
    "started sink (appended ?m w) = map (sink_call S s sink_fn) r"
    using step_reports [OF assms] by blast
  obtain rs where rs: "sorted_wrt (>) (map fst rs)" "\<forall>j \<in> set (map fst rs). j < i"
    "failures is_comp (appended (compensate_from S s cc i) (snd (run_state ?m w))) = map (failed_call s) rs"
    "started sink (appended (compensate_from S s cc i) (snd (run_state ?m w))) = map (sink_call S s sink_fn) rs"
    using Suc.IH by blast
  have "failures is_comp (appended (compensate_from S s cc (Suc i)) w) = map (failed_call s) (r @ rs)"
    "started sink (appended (compensate_from S s cc (Suc i)) w) = map (sink_call S s sink_fn) (r @ rs)"
    using r(2,3) rs(3,4) assms(1) by (simp_all add: appended_bind frame_intros trace_simps)
  moreover have "sorted_wrt (>) (map fst (r @ rs))" "\<forall>j \<in> set (map fst (r @ rs)). j < Suc i"
    using r(1) rs(1,2) by auto
  ultimately show ?case by blast
qed

lemma Compensate_reports:
  assumes "effective_handler s = h"
  shows "\<exists>rs. sorted_wrt (>) (map fst rs) \<and> (\<forall>i \<in> set (map fst rs). i < length (compensations s)) \<and>
    failures is_comp (appended (Compensate S s) w) = map (failed_call s) rs \<and>
    started sink (appended (Compensate S s) w) = map (sink_call S s sink_fn) rs"
proof (cases "completed s \<or> compensations s = []")
  case True
  then show ?thesis by (intro exI [of _ "[]"]) (auto simp: Compensate_def trace_simps)
next
  case False
  then show ?thesis
    using compensate_from_reports [OF assms, where S = S and n = "length (compensations s)" and
      cc = "WithActivityOptions (sg_ctx s) compensationActivityOptions" and
      w = "snd (run_state (wf_log Info ''saga: starting compensation''
          [(''sagaID'', GStr (sg_id s)), (''steps'', GInt (int (length (compensations s))))]) w)"]
    by (simp add: Compensate_def Let_def appended_bind frame_intros assms trace_simps)
qed

end

subsection \<open>The saga as a state machine\<close>

text \<open>What a workflow calls on its saga before it returns.\<close>

datatype saga_op = DoAdd gofunc "gval list" | DoPivot | DoComplete

primrec saga_apply :: "saga_op \<Rightarrow> 'w Saga \<Rightarrow> 'w Saga" where
  "saga_apply (DoAdd fn as) = AddCompensation fn as"
| "saga_apply DoPivot = SetPivot"
| "saga_apply DoComplete = Complete"

definition saga_run :: "saga_op list \<Rightarrow> 'w Saga \<Rightarrow> 'w Saga" where
  "saga_run ops s = fold saga_apply ops s"

definition registered :: "saga_op list \<Rightarrow> (gofunc \<times> gval list) list" where
  "registered ops = List.map_filter (\<lambda>x. case x of DoAdd fn as \<Rightarrow> Some (fn, as) | _ \<Rightarrow> None) ops"

inductive saga_step :: "'w Saga \<Rightarrow> 'w Saga \<Rightarrow> bool" where
  add: "saga_step s (AddCompensation fn as s)"
| pivot: "saga_step s (SetPivot s)"
| complete: "saga_step s (Complete s)"

inductive_simps saga_step_iff: "saga_step s s'"

lemmas saga_ops = AddCompensation_def SetPivot_def Complete_def

lemma saga_step_run: "saga_step s s' \<longleftrightarrow> (\<exists>x. s' = saga_run [x] s)"
proof
  show "saga_step s s' \<Longrightarrow> \<exists>x. s' = saga_run [x] s"
    unfolding saga_run_def
    by (erule saga_step.cases)
      (fastforce intro: exI [of _ "DoAdd _ _"] exI [of _ DoPivot] exI [of _ DoComplete])+
  assume "\<exists>x. s' = saga_run [x] s"
  then obtain x where "s' = saga_apply x s" by (auto simp: saga_run_def)
  then show "saga_step s s'" by (cases x) (auto intro: saga_step.intros)
qed

lemma saga_run_fields:
  "map step_call (compensations (saga_run ops s)) = map step_call (compensations s) @ registered ops"
  "completed (saga_run ops s) \<longleftrightarrow> completed s \<or> DoComplete \<in> set ops"
  "dlqHandler (saga_run ops s) = dlqHandler s"
  "sg_ctx (saga_run ops s) = sg_ctx s" "sg_id (saga_run ops s) = sg_id s"
  "sg_runID (saga_run ops s) = sg_runID s"
proof -
  have one: "map step_call (compensations (saga_apply x s)) = map step_call (compensations s) @ registered [x]"
      "completed (saga_apply x s) \<longleftrightarrow> completed s \<or> x = DoComplete" "dlqHandler (saga_apply x s) = dlqHandler s"
      "sg_ctx (saga_apply x s) = sg_ctx s" "sg_id (saga_apply x s) = sg_id s"
      "sg_runID (saga_apply x s) = sg_runID s" for x and s :: "'a Saga"
    by (cases x; simp add: saga_ops registered_def step_call_def List.map_filter_simps)+
  show "map step_call (compensations (saga_run ops s)) = map step_call (compensations s) @ registered ops"
  proof (induction ops arbitrary: s)
    case (Cons x ops)
    then show ?case
      by (cases x) (simp_all add: saga_run_def saga_ops step_call_def registered_def List.map_filter_simps)
  qed (simp add: saga_run_def registered_def List.map_filter_simps)
  show "completed (saga_run ops s) \<longleftrightarrow> completed s \<or> DoComplete \<in> set ops"
    "dlqHandler (saga_run ops s) = dlqHandler s"
    "sg_ctx (saga_run ops s) = sg_ctx s" "sg_id (saga_run ops s) = sg_id s"
    "sg_runID (saga_run ops s) = sg_runID s"
    by (induction ops arbitrary: s) (auto simp: saga_run_def one)
qed

lemma NewSaga_fields [simp]:
  "compensations (NewSaga S c (map WithDLQHandler hs)) = []"
  "completed (NewSaga S c (map WithDLQHandler hs)) = False"
  "pivotIdx (NewSaga S c (map WithDLQHandler hs)) = - 1"
  "dlqHandler (NewSaga S c (map WithDLQHandler hs)) = (if hs = [] then None else last hs)"
  "sg_id (NewSaga S c (map WithDLQHandler hs)) = sdk_WorkflowID S"
  by (induction hs rule: rev_induct) (auto simp: NewSaga_def WithDLQHandler_def)

text \<open>A saga of one handler, or of none, after a sequence of calls.\<close>

definition saga_of :: "'w sdk \<Rightarrow> ctx \<Rightarrow> 'w CompensationDLQHandler option \<Rightarrow> saga_op list \<Rightarrow> 'w Saga" where
  "saga_of S c h ops = saga_run ops (NewSaga S c [WithDLQHandler h])"

lemma saga_of_fields [simp]:
  "map step_call (compensations (saga_of S c h ops)) = registered ops"
  "completed (saga_of S c h ops) \<longleftrightarrow> DoComplete \<in> set ops"
  "dlqHandler (saga_of S c h ops) = h" "sg_id (saga_of S c h ops) = sdk_WorkflowID S"
  using NewSaga_fields [of S c "[h]"] by (simp_all add: saga_of_def saga_run_fields)

lemma effective_handler_saga_of [simp]:
  "effective_handler (saga_of S c (Some h) ops) = h"
  "effective_handler (saga_of S c None ops) = no_handler"
  by (simp_all add: effective_handler_def)

lemma rev_step_calls: "map step_call (rev (compensations (saga_of S c h ops))) = rev (registered ops)"
  by (simp flip: rev_map)

lemma Compensate_pivot [simp]: "Compensate S (s\<lparr>pivotIdx := p\<rparr>) = Compensate S s"
proof -
  have report: "report_to_dlq S (s\<lparr>pivotIdx := p\<rparr>) i c err = report_to_dlq S s i c err" for i c err
    by (simp add: report_to_dlq_def failure_event_def cong: option.case_cong outcome.case_cong)
  have "compensate_step S (s\<lparr>pivotIdx := p\<rparr>) cc i c = compensate_step S s cc i c" for cc i c
    by (simp add: compensate_step_def report cong: sum.case_cong)
  then have "compensate_from S (s\<lparr>pivotIdx := p\<rparr>) cc n = compensate_from S s cc n" for cc n
    by (induction n) simp_all
  then show ?thesis by (simp add: Compensate_def)
qed

lemma saga_run_pivots:
  "\<exists>q. saga_run ops (s\<lparr>pivotIdx := p\<rparr>) =
      (saga_run (filter (\<lambda>x. x \<noteq> DoPivot) ops) s)\<lparr>pivotIdx := q\<rparr>"
proof -
  have one: "\<exists>q. saga_apply x (s\<lparr>pivotIdx := p\<rparr>) = (saga_apply x s)\<lparr>pivotIdx := q\<rparr>"
    for x p and s :: "'a Saga"
  proof (cases x)
    case DoPivot
    then show ?thesis
      by (intro exI [of _ "int (length (compensations s))"]) (simp add: SetPivot_def)
  qed (auto simp: AddCompensation_def Complete_def intro: exI [of _ p])
  show ?thesis
  proof (induction ops arbitrary: s p)
    case (Cons x ops)
    show ?case
    proof (cases "x = DoPivot")
      case True
      then show ?thesis using Cons by (simp add: saga_run_def SetPivot_def)
    next
      case False
      then show ?thesis using Cons one [where x = x and s = s and p = p] by (auto simp: saga_run_def)
    qed
  qed (auto simp: saga_run_def)
qed

subsection \<open>Instances used as witnesses\<close>

definition sample_ctx :: ctx where
  "sample_ctx = \<lparr>ctx_opts = Some financialAPIOptions\<rparr>"

text \<open>A handler that tells its sink, and then panics.\<close>

definition panicking_handler :: "'w sdk \<Rightarrow> gofunc \<Rightarrow> 'w CompensationDLQHandler" where
  "panicking_handler S fn c ev = do {
     _ \<leftarrow> OnCompensationFailed S (NewActivityDLQHandler fn) c ev;
     return (Panicked (GStr ''boom''))
   }"

interpretation panicking_dlq: delivering_dlq_handler
  "panicking_handler S fn" "\<lambda>o'. o' = Some internalServiceOptions" fn
  for S fn
  by unfold_locales
    (simp_all add: panicking_handler_def appended_bind default_handler_contract frame_intros)

subsection \<open>Properties\<close>

text \<open>
  C1. A deferred \<open>Compensate\<close> undoes exactly the steps that were registered, in reverse order,
  each once, and awaits each before it starts the next, whatever each outcome is; after
  \<open>Complete\<close> it starts none. It holds for every DLQ handler that starts no compensation itself,
  whether it returns or panics.
\<close>

theorem rollback_is_lifo_and_sequential:
  assumes "dlq_handler h"
  shows "\<exists>fs rs. length rs = length fs \<and>
    map call_of fs = (if DoComplete \<in> set ops then [] else rev (registered ops)) \<and>
    under is_comp (appended (Compensate S (saga_of S c (Some h) ops)) w) = concat (map2 comp_run fs rs)"
  using dlq_handler.under_Compensate [OF assms effective_handler_saga_of(1), of S S c ops w]
  unfolding rev_step_calls saga_of_fields by blast

theorem rollback_is_lifo_and_sequential_witness:
  "\<exists>fs rs. length rs = length fs \<and>
    map call_of fs = [(''Refund'', [GInt 7]), (''Release'', [])] \<and>
    under is_comp (appended (Compensate (sample_sdk (\<lambda>f. f = ''Refund''))
      (saga_of (sample_sdk (\<lambda>f. f = ''Refund'')) sample_ctx
        (Some (panicking_handler (sample_sdk (\<lambda>f. f = ''Refund'')) ''Sink''))
        [DoAdd ''Release'' [], DoPivot, DoAdd ''Refund'' [GInt 7]])) sample_wf) =
    concat (map2 comp_run fs rs)"
  using rollback_is_lifo_and_sequential [OF panicking_dlq.dlq_handler_axioms,
      of "[DoAdd ''Release'' [], DoPivot, DoAdd ''Refund'' [GInt 7]]" "sample_sdk (\<lambda>f. f = ''Refund'')"
        sample_ctx "sample_sdk (\<lambda>f. f = ''Refund'')" "''Sink''" sample_wf]
  by (simp add: registered_def List.map_filter_simps)

text \<open>
  C2. Every step that cannot be undone is reported to the sink exactly once, in the order of the
  failures (from the last registered step down), with the workflow and run ids, the step's name
  and position and the text of its error; steps that are undone are not reported. A handler that
  panics after it has told its sink changes nothing of this.
\<close>

theorem failed_steps_reported_once:
  assumes "delivering_dlq_handler h sink fn"
  shows "let s = saga_of S c (Some h) ops; es = appended (Compensate S s) w in
    \<exists>rs. sorted_wrt (>) (map fst rs) \<and>
      list_all (\<lambda>r. fst r < length (compensations s)) rs \<and>
      failures is_comp es = map (failed_call s) rs \<and> started sink es = map (sink_call S s fn) rs"
  using delivering_dlq_handler.Compensate_reports [OF assms effective_handler_saga_of(1), of S c ops S w]
  by (auto simp: Let_def list_all_iff)

theorem failed_steps_reported_once_witness:
  "let S = sample_sdk (\<lambda>f. f = ''Refund'');
       s = saga_of S sample_ctx (Some (panicking_handler S ''Sink'')) [DoAdd ''Release'' [], DoAdd ''Refund'' []];
       es = appended (Compensate S s) sample_wf in
    \<exists>rs. sorted_wrt (>) (map fst rs) \<and> list_all (\<lambda>r. fst r < length (compensations s)) rs \<and>
      failures is_comp es = map (failed_call s) rs \<and>
      started (\<lambda>o'. o' = Some internalServiceOptions) es = map (sink_call S s ''Sink'') rs"
  unfolding Let_def
  by (rule failed_steps_reported_once [unfolded Let_def, OF panicking_dlq.delivering_dlq_handler_axioms])

text \<open>
  Best effort: when no compensation can succeed (as when the workflow's context, which
  \<open>Compensate\<close> uses, is cancelled) every registered step is still tried once, in reverse order, and
  every one of them fails.
\<close>

theorem rollback_attempts_every_step:
  assumes "dlq_handler h" and "no_compensation_succeeds S"
  shows "map (\<lambda>(fn, as, err). (fn, as))
      (failures is_comp (appended (Compensate S (saga_of S c (Some h) ops)) w)) =
    (if DoComplete \<in> set ops then [] else rev (registered ops))"
  using dlq_handler.failures_Compensate_all [OF assms(1) effective_handler_saga_of(1) assms(2)]
  by (simp add: rev_step_calls)

theorem rollback_attempts_every_step_witness:
  "map (\<lambda>(fn, as, err). (fn, as))
      (failures is_comp (appended (Compensate (sample_sdk (\<lambda>f. True))
        (saga_of (sample_sdk (\<lambda>f. True)) sample_ctx (Some (OnCompensationFailed (sample_sdk (\<lambda>f. True))
          (NewActivityDLQHandler ''Sink''))) [DoAdd ''Release'' [], DoAdd ''Refund'' [GInt 7]])) sample_wf)) =
    [(''Refund'', [GInt 7]), (''Release'', [])]"
  using rollback_attempts_every_step [OF activity_dlq.dlq_handler_axioms, of "sample_sdk (\<lambda>f. True)"
      sample_ctx "sample_sdk (\<lambda>f. True)" "''Sink''" "[DoAdd ''Release'' [], DoAdd ''Refund'' [GInt 7]]" sample_wf]
  by (simp add: no_compensation_succeeds_def sample_sdk_def registered_def List.map_filter_simps)

text \<open>
  The pivot does nothing: the rollback of a saga with \<open>SetPivot\<close> calls is the rollback of the
  saga without them. The comment on \<open>SetPivot\<close> promises that a failure after the pivot, and only
  there, emits a \<open>CompensationError\<close>.
\<close>

theorem pivot_has_no_effect:
  "Compensate S (saga_run ops s) = Compensate S (saga_run (filter (\<lambda>x. x \<noteq> DoPivot) ops) s)"
proof -
  obtain q where "saga_run ops s = (saga_run (filter (\<lambda>x. x \<noteq> DoPivot) ops) s)\<lparr>pivotIdx := q\<rparr>"
    using saga_run_pivots [where ops = ops and s = s and p = "pivotIdx s"] by auto
  then show ?thesis by simp
qed

text \<open>
  \<open>Compensate\<close> does not remember that it ran: called again (by hand and by the \<open>defer\<close> of the
  documented pattern) it starts every compensation a second time.
\<close>

theorem second_compensate_repeats:
  assumes "dlqHandler s = None"
  shows "started is_comp (appended (do { Compensate S s; Compensate S s }) w) =
    (if completed s then [] else map step_call (rev (compensations s) @ rev (compensations s)))"
proof -
  have "effective_handler s = no_handler" using assms by (simp add: effective_handler_def)
  then show ?thesis
    by (simp add: appended_bind no_dlq.extends_Compensate no_dlq.started_Compensate trace_simps)
qed

theorem second_compensate_repeats_witness:
  "started is_comp (appended (do { Compensate (sample_sdk (\<lambda>f. False)) (saga_of (sample_sdk (\<lambda>f. False)) sample_ctx None [DoAdd ''Release'' []]);
      Compensate (sample_sdk (\<lambda>f. False)) (saga_of (sample_sdk (\<lambda>f. False)) sample_ctx None [DoAdd ''Release'' []]) }) sample_wf) =
    [(''Release'', []), (''Release'', [])]"
  using second_compensate_repeats [of "saga_of (sample_sdk (\<lambda>f. False)) sample_ctx None [DoAdd ''Release'' []]"
      "sample_sdk (\<lambda>f. False)" sample_wf]
  by (simp add: rev_step_calls registered_def List.map_filter_simps)

text \<open>
  The state of a saga, through any calls in any order: the pivot is -1 or a position of the
  stack, every step has a name, and no handler, id or context changes.
\<close>

theorem saga_state_invariant:
  assumes "saga_step\<^sup>*\<^sup>* (NewSaga S c (map WithDLQHandler hs)) s"
  shows "- 1 \<le> pivotIdx s \<and> pivotIdx s \<le> int (length (compensations s)) \<and>
    list_all (\<lambda>st. stepName st \<noteq> '''') (compensations s) \<and>
    dlqHandler s = (if hs = [] then None else last hs) \<and> sg_id s = sdk_WorkflowID S"
  using assms
proof (induction rule: rtranclp_induct)
  case (step s s')
  then show ?case by (auto simp: saga_step_iff saga_ops getFunctionName_def)
qed simp

theorem saga_state_invariant_witness:
  "pivotIdx (Complete (SetPivot (AddCompensation ''Release'' [] (NewSaga (sample_sdk (\<lambda>f. True)) sample_ctx [])))) \<le> 1"
proof -
  let ?s = "NewSaga (sample_sdk (\<lambda>f. True)) sample_ctx (map WithDLQHandler [])"
  have "saga_step\<^sup>*\<^sup>* ?s (Complete (SetPivot (AddCompensation ''Release'' [] ?s)))"
    by (meson saga_step.intros rtranclp.intros)
  from saga_state_invariant [OF this] show ?thesis by (simp add: saga_ops NewSaga_def)
qed

text \<open>
  C28. The log tells the two ends of a rollback apart, with any DLQ handler that starts no compensation
  itself: a completed or empty saga leaves no event at all, in particular no log entry; otherwise the
  highest level logged during \<open>Compensate\<close>, the handler's entries included, is Info when every
  compensation succeeded and Error when one failed. So who watches for errors learns of every
  incomplete rollback, and of no other.
\<close>

theorem rollback_log_level:
  assumes "dlq_handler h"
  shows "let s = saga_of S c (Some h) ops; es = appended (Compensate S s) w in
    (if DoComplete \<in> set ops \<or> registered ops = [] then es = []
     else worst_level es = (if failures is_comp es = [] then Info else Error))"
proof -
  have empty: "compensations (saga_of S c (Some h) ops) = [] \<longleftrightarrow> registered ops = []"
    using saga_of_fields(1) [of S c "Some h" ops] by (metis map_is_Nil_conv)
  have "completed s \<or> compensations s = [] \<Longrightarrow> appended (Compensate S s) w = []" for s
    by (auto simp: Compensate_def appended_def)
  with empty show ?thesis
    using dlq_handler.worst_level_Compensate [OF assms effective_handler_saga_of(1), of S S c ops w]
      saga_of_fields [of S c "Some h" ops]
    by (auto simp: Let_def)
qed

theorem rollback_log_level_witness:
  "let S = sample_sdk (\<lambda>f. f = ''Release'');
       es = appended (Compensate S (saga_of S sample_ctx (Some (panicking_handler S ''Sink'')) [DoAdd ''Release'' []])) sample_wf in
    worst_level es = (if failures is_comp es = [] then Info else Error)"
  using rollback_log_level [OF panicking_dlq.dlq_handler_axioms, of "sample_sdk (\<lambda>f. f = ''Release'')" sample_ctx
      "sample_sdk (\<lambda>f. f = ''Release'')" "''Sink''" "[DoAdd ''Release'' []]" sample_wf]
  by (simp add: Let_def registered_def List.map_filter_simps)

end
