(* ===== verification/ActivityRetries.thy ===== *)
theory ActivityRetries
  imports SagaRollback ActivityDeduplication
begin

text \<open>
  What the activity options of \<open>activity/options.go\<close>, \<open>activity/builder.go\<close> and
  \<open>workflow/saga.go\<close> come to once a server retries the activities that run under them: which
  activities end, which never give up, what a rollback can ever report, and what the stable key is
  worth when responses are lost. A loop that may go on for ever has an optional result.
\<close>

subsection \<open>The server's loop\<close>

text \<open>
  The server is a parameter: whether it makes another attempt, by the time since the activity was
  scheduled and the number of the attempt that failed; the wait before the next one; and its clock.
\<close>

record 'w retry_server =
  again :: "activity_options \<Rightarrow> duration \<Rightarrow> nat \<Rightarrow> go_error \<Rightarrow> bool"
  pause :: "activity_options \<Rightarrow> time \<Rightarrow> nat \<Rightarrow> 'w \<Rightarrow> 'w"
  srv_now :: "'w \<Rightarrow> time"

type_synonym ('r, 'w) attempts = "nat \<Rightarrow> 'w \<Rightarrow> (go_error + 'r) \<times> 'w"

partial_function (option) serve ::
    "'w retry_server \<Rightarrow> activity_options \<Rightarrow> ('r, 'w) attempts \<Rightarrow> time \<Rightarrow> nat \<Rightarrow> 'w \<Rightarrow>
     (nat \<times> (go_error + 'r) \<times> 'w) option" where
  "serve R o' body t0 n w =
     (case body n w of (r, w') \<Rightarrow>
       (case r of
          Inr v \<Rightarrow> Some (n, r, w')
        | Inl e \<Rightarrow>
            if again R o' (srv_now R w' - t0) n e
            then serve R o' body t0 (Suc n) (pause R o' t0 n w')
            else Some (n, r, w')))"

text \<open>
  What the retry policy is documented to mean. The attempts are at most \<open>MaximumAttempts\<close>, unless
  that is zero; a retry that would begin after the schedule-to-close timeout is not made; within
  these limits an application error that the activity returns is retried unless it is flagged
  or listed. The wait is at least the policy's interval, and a retry that is made begins in time.
\<close>

definition within_limits :: "activity_options \<Rightarrow> retry_policy \<Rightarrow> duration \<Rightarrow> nat \<Rightarrow> bool" where
  "within_limits o' p elapsed n \<longleftrightarrow>
     (MaximumAttempts p = 0 \<or> int n < MaximumAttempts p) \<and>
     (ScheduleToCloseTimeout o' = 0 \<or>
      of_int elapsed + retry_wait p (n - 1) < of_int (ScheduleToCloseTimeout o'))"

definition retries_documented :: "'w retry_server \<Rightarrow> bool" where
  "retries_documented R \<longleftrightarrow>
     (\<forall>o' p t n e. RetryPolicy o' = Some p \<longrightarrow>
        (again R o' t n e \<longrightarrow> within_limits o' p t n) \<and>
        (\<forall>a. returned_application_error e = Some a \<longrightarrow>
           again R o' t n e =
             (within_limits o' p t n \<and> \<not> ae_NonRetryable a \<and> ae_Type a \<notin> set (NonRetryableErrorTypes p)))) \<and>
     (\<forall>o' p t0 n w. RetryPolicy o' = Some p \<longrightarrow>
        of_int (srv_now R w) + retry_wait p (n - 1) \<le> of_int (srv_now R (pause R o' t0 n w)) \<and>
        (ScheduleToCloseTimeout o' \<noteq> 0 \<and> within_limits o' p (srv_now R w - t0) n \<longrightarrow>
           srv_now R (pause R o' t0 n w) \<le> t0 + ScheduleToCloseTimeout o'))"

lemma retries_documentedD:
  assumes "retries_documented R" and "RetryPolicy o' = Some p"
  shows "again R o' t n e \<Longrightarrow> within_limits o' p t n"
    and "returned_application_error e = Some a \<Longrightarrow> again R o' t n e \<longleftrightarrow>
      within_limits o' p t n \<and> \<not> ae_NonRetryable a \<and> ae_Type a \<notin> set (NonRetryableErrorTypes p)"
    and "of_int (srv_now R w) + retry_wait p (n - 1) \<le> of_int (srv_now R (pause R o' t0 n w))"
    and "ScheduleToCloseTimeout o' \<noteq> 0 \<Longrightarrow> within_limits o' p (srv_now R w - t0) n \<Longrightarrow>
      srv_now R (pause R o' t0 n w) \<le> t0 + ScheduleToCloseTimeout o'"
  using assms unfolding retries_documented_def by blast+

text \<open>One round of the loop.\<close>

lemma serve_success: "body n w = (Inr v, w') \<Longrightarrow> serve R o' body t0 n w = Some (n, Inr v, w')"
  by (simp add: serve.simps)

lemma serve_failure:
  "body n w = (Inl e, w') \<Longrightarrow> serve R o' body t0 n w =
     (if again R o' (srv_now R w' - t0) n e then serve R o' body t0 (Suc n) (pause R o' t0 n w')
      else Some (n, Inl e, w'))"
  by (simp add: serve.simps)

text \<open>Induction over the rounds of a loop that ends.\<close>

lemma serve_induct [consumes 1, case_names succeeds gives_up retries]:
  assumes ret: "serve R o' body t0 n w = Some (m, r, w')"
    and succeeds: "\<And>n w v w'. body n w = (Inr v, w') \<Longrightarrow> P n w n (Inr v) w'"
    and gives_up: "\<And>n w e w'. body n w = (Inl e, w') \<Longrightarrow> \<not> again R o' (srv_now R w' - t0) n e \<Longrightarrow>
      P n w n (Inl e) w'"
    and retries: "\<And>n w e w1 m r w'. body n w = (Inl e, w1) \<Longrightarrow> again R o' (srv_now R w1 - t0) n e \<Longrightarrow>
      P (Suc n) (pause R o' t0 n w1) m r w' \<Longrightarrow> P n w m r w'"
  shows "P n w m r w'"
proof -
  let ?P = "\<lambda>R1 o1 b1 t1 n w x. R1 = R \<and> o1 = o' \<and> b1 = body \<and> t1 = t0 \<longrightarrow>
      P n w (fst x) (fst (snd x)) (snd (snd x))"
  have "?P R o' body t0 n w (m, r, w')"
  proof (rule serve.raw_induct [where P = ?P, OF _ ret])
    fix f R1 o1 b1 t1 n w x
    assume IH: "\<And>R1 o1 b1 t1 n w x. f R1 o1 b1 t1 n w = Some x \<Longrightarrow> ?P R1 o1 b1 t1 n w x"
      and eq: "(case b1 n w of (r, w') \<Rightarrow> (case r of Inl e \<Rightarrow>
          if again R1 o1 (srv_now R1 w' - t1) n e then f R1 o1 b1 t1 (Suc n) (pause R1 o1 t1 n w')
          else Some (n, r, w') | Inr v \<Rightarrow> Some (n, r, w'))) = Some x"
    show "?P R1 o1 b1 t1 n w x"
    proof
      assume same: "R1 = R \<and> o1 = o' \<and> b1 = body \<and> t1 = t0"
      obtain r1 w1 where b: "body n w = (r1, w1)" by fastforce
      show "P n w (fst x) (fst (snd x)) (snd (snd x))"
      proof (cases r1)
        case (Inr v)
        with b eq same succeeds [of n w v w1] show ?thesis by auto
      next
        case (Inl e)
        show ?thesis
        proof (cases "again R o' (srv_now R w1 - t0) n e")
          case True
          with Inl b eq same have "f R o' body t0 (Suc n) (pause R o' t0 n w1) = Some x" by simp
          from IH [OF this] retries [of n w e w1] Inl b True show ?thesis by blast
        next
          case False
          with Inl b eq same gives_up [of n w e w1] show ?thesis by auto
        qed
      qed
    qed
  qed
  then show ?thesis by simp
qed

text \<open>A failure that is final is one that the server does not retry.\<close>

lemma serve_gives_up:
  assumes "serve R o' body t0 n w = Some (m, r, w')"
  shows "n \<le> m \<and> (\<forall>e. r = Inl e \<longrightarrow> \<not> again R o' (srv_now R w' - t0) m e)"
  using assms by (induction rule: serve_induct) auto

subsection \<open>Activities that end\<close>

text \<open>With a bound on the attempts, the loop ends after at most as many.\<close>

lemma bounded_attempts_end:
  assumes "retries_documented R" and "RetryPolicy o' = Some p"
    and "0 < MaximumAttempts p" and "int n \<le> MaximumAttempts p"
  shows "\<exists>m r w'. serve R o' body t0 n w = Some (m, r, w') \<and> n \<le> m \<and> int m \<le> MaximumAttempts p"
  using assms(4)
proof (induction "nat (MaximumAttempts p) - n" arbitrary: n w)
  case (Suc k)
  show ?case
  proof (cases "body n w")
    case (Pair r w1)
    show ?thesis
    proof (cases "\<exists>e. r = Inl e \<and> again R o' (srv_now R w1 - t0) n e")
      case True
      then obtain e where e: "r = Inl e" "again R o' (srv_now R w1 - t0) n e" by blast
      then have "int (Suc n) \<le> MaximumAttempts p"
        using retries_documentedD(1) [OF assms(1,2) e(2)] assms(3) by (simp add: within_limits_def)
      with Suc.hyps(1) [of "Suc n" "pause R o' t0 n w1"] Suc.hyps(2) e Pair show ?thesis
        by (fastforce simp: serve_failure)
    next
      case False
      with Pair Suc.prems show ?thesis
        by (cases r) (auto simp: serve_failure serve_success)
    qed
  qed
next
  case 0
  then have last: "int n = MaximumAttempts p" by simp
  then have "\<not> again R o' t n e" for t e
    using retries_documentedD(1) [OF assms(1,2), of t n e] assms(3) by (auto simp: within_limits_def)
  then show ?case
    using last by (cases "body n w"; cases "fst (body n w)") (auto simp: serve_failure serve_success)
qed

text \<open>So does it with a schedule-to-close timeout, when there is time between the attempts.\<close>

definition keeps_time :: "('w \<Rightarrow> time) \<Rightarrow> ('r, 'w) attempts \<Rightarrow> bool" where
  "keeps_time now body \<longleftrightarrow> (\<forall>n w. now w \<le> now (snd (body n w)))"

lemma timed_attempts_end:
  assumes "retries_documented R" and "RetryPolicy o' = Some p"
    and "ScheduleToCloseTimeout o' \<noteq> 0" and "\<And>k. 0 < retry_wait p k" and "keeps_time (srv_now R) body"
  shows "\<exists>m r w'. serve R o' body t0 n w = Some (m, r, w') \<and> n \<le> m"
proof (induction "nat (t0 + ScheduleToCloseTimeout o' - srv_now R w)" arbitrary: n w rule: less_induct)
  case less
  obtain r w1 where b: "body n w = (r, w1)" by fastforce
  show ?case
  proof (cases "\<exists>e. r = Inl e \<and> again R o' (srv_now R w1 - t0) n e")
    case True
    then obtain e where e: "r = Inl e" "again R o' (srv_now R w1 - t0) n e" by blast
    let ?w = "pause R o' t0 n w1"
    have "srv_now R w \<le> srv_now R w1" using assms(5) b by (metis keeps_time_def snd_conv)
    moreover have "srv_now R w1 < srv_now R ?w"
      using retries_documentedD(3) [OF assms(1,2), of w1 n t0] assms(4) [of "n - 1"]
      by (simp add: of_int_less_iff [symmetric, where ?'a = rat] del: of_int_less_iff)
    moreover have "srv_now R ?w \<le> t0 + ScheduleToCloseTimeout o'"
      using retries_documentedD(1,4) [OF assms(1,2)] assms(3) e(2) by blast
    ultimately have "\<exists>m r w'. serve R o' body t0 (Suc n) ?w = Some (m, r, w') \<and> Suc n \<le> m"
      by (intro less) linarith
    then obtain m r1 w2 where "serve R o' body t0 (Suc n) ?w = Some (m, r1, w2)" "Suc n \<le> m" by blast
    with e b show ?thesis by (simp add: serve_failure)
  next
    case False
    with b show ?thesis by (cases r) (auto simp: serve_failure serve_success)
  qed
qed

subsection \<open>A server to evaluate with\<close>

definition sample_server :: "('w \<Rightarrow> time) \<Rightarrow> (duration \<Rightarrow> 'w \<Rightarrow> 'w) \<Rightarrow> 'w retry_server" where
  "sample_server now wait =
     \<lparr>again = (\<lambda>o' t n e. case RetryPolicy o' of None \<Rightarrow> False
        | Some p \<Rightarrow> within_limits o' p t n \<and> application_retry_rule p e),
      pause = (\<lambda>o' t0 n w. case RetryPolicy o' of None \<Rightarrow> w | Some p \<Rightarrow> wait \<lceil>retry_wait p (n - 1)\<rceil> w),
      srv_now = now\<rparr>"

lemma sample_server_documented:
  assumes "\<And>d w. now (wait d w) = now w + d"
  shows "retries_documented (sample_server now wait)"
proof -
  have "now w + \<lceil>retry_wait p (n - 1)\<rceil> \<le> t0 + ScheduleToCloseTimeout o'"
    if "ScheduleToCloseTimeout o' \<noteq> 0" "within_limits o' p (now w - t0) n" for w p n t0 o'
  proof -
    have "of_int (now w - t0) + retry_wait p (n - 1) < of_int (ScheduleToCloseTimeout o')"
      using that by (simp add: within_limits_def)
    then have "retry_wait p (n - 1) \<le> of_int (ScheduleToCloseTimeout o' - (now w - t0))" by simp
    then have "\<lceil>retry_wait p (n - 1)\<rceil> \<le> ScheduleToCloseTimeout o' - (now w - t0)" by (simp only: ceiling_le_iff)
    then show ?thesis by simp
  qed
  then show ?thesis
    using assms
    by (auto simp: retries_documented_def sample_server_def application_retry_rule_def)
qed

subsection \<open>What the options of the library come to\<close>

text \<open>A failure that is an application error, returned as it is, that does not forbid a retry.\<close>

fun transient_failure :: "go_error + 'r \<Rightarrow> bool" where
  "transient_failure (Inr v) = False"
| "transient_failure (Inl e) = (case returned_application_error e of None \<Rightarrow> False | Some a \<Rightarrow> \<not> ae_NonRetryable a)"

lemma transient_failureE:
  assumes "transient_failure r"
  obtains e a where "r = Inl e" "returned_application_error e = Some a" "\<not> ae_NonRetryable a"
  using assms by (cases r) (auto split: option.splits)

lemma compensation_again:
  assumes "retries_documented R" and "returned_application_error e = Some a"
  shows "again R compensationActivityOptions t n e \<longleftrightarrow> \<not> ae_NonRetryable a"
  using retries_documentedD(2) [OF assms(1) _ assms(2), of compensationActivityOptions _ t n]
  by (simp add: compensationActivityOptions_def within_limits_def)

definition presets :: "activity_options set" where
  "presets = {financialAPIOptions, notificationOptions, internalServiceOptions, longRunningOptions}"

lemma preset_policy:
  assumes "o' \<in> presets"
  shows "\<exists>p. RetryPolicy o' = Some p \<and> 1 \<le> MaximumAttempts p \<and>
    0 < ScheduleToCloseTimeout o' \<and> ScheduleToCloseTimeout o' \<le> DefaultTTL"
  using assms by (auto simp: presets_def preset_defs duration_units DefaultTTL_def)

definition bounded_chain :: "builder_call list \<Rightarrow> bool" where
  "bounded_chain calls \<longleftrightarrow>
     list_all (\<lambda>c. case c of NoRetry \<Rightarrow> False | WithMaxAttempts n \<Rightarrow> 0 < n | _ \<Rightarrow> True) calls"

lemma bounded_chain_attempts:
  "bounded_chain calls \<Longrightarrow> 0 < maxAttempts b \<Longrightarrow> 0 < maxAttempts (fold builder_step calls b)"
  by (induction calls arbitrary: b) (auto simp: bounded_chain_def split: builder_call.splits)

text \<open>The attempts that \<open>references/retry-presets.md\<close> promises for each preset.\<close>

definition preset_attempts :: "activity_options \<Rightarrow> nat" where
  "preset_attempts o' =
     (if o' = financialAPIOptions then 5 else if o' = internalServiceOptions then 10 else 3)"

lemma preset_attempts_policy:
  assumes "o' \<in> presets"
  shows "\<exists>p. RetryPolicy o' = Some p \<and> MaximumAttempts p = int (preset_attempts o')"
  using assms by (auto simp: presets_def preset_attempts_def preset_defs duration_units)

lemma limited_policy:
  assumes "o' \<in> presets \<or> (\<exists>calls. o' = build_chain calls \<and> bounded_chain calls)"
  obtains p where "RetryPolicy o' = Some p" "1 \<le> MaximumAttempts p"
proof (cases "o' \<in> presets")
  case True
  with preset_policy that show ?thesis by blast
next
  case False
  then obtain calls where "o' = build_chain calls" "bounded_chain calls" using assms by blast
  moreover have "0 < maxAttempts (fold builder_step calls NewOptionsBuilder)"
    by (rule bounded_chain_attempts [OF \<open>bounded_chain calls\<close>]) (simp add: NewOptionsBuilder_def)
  ultimately have "\<exists>p. RetryPolicy o' = Some p \<and> 1 \<le> MaximumAttempts p" by (simp add: build_chain_def)
  with that show ?thesis by blast
qed

text \<open>
  C13. On a server that follows the retry policy as documented, every activity under a preset, or under
  options from a builder chain that keeps a bound on the attempts, ends whatever its attempts do, after
  at most as many as the options say, which for the presets is the number in the documented table (5,
  3, 10, 3). If it ends with a failure that is an application error, then that error is flagged
  non-retryable, or its type is listed, or the attempts are used up, or at the time of the failure the
  wait for the next attempt reaches beyond the schedule-to-close timeout.
\<close>

theorem limited_activities_end:
  assumes "retries_documented R"
    and "o' \<in> presets \<or> (\<exists>calls. o' = build_chain calls \<and> bounded_chain calls)"
  shows "\<exists>p m r w'. RetryPolicy o' = Some p \<and> serve R o' body t0 1 w = Some (m, r, w') \<and>
    1 \<le> m \<and> int m \<le> MaximumAttempts p \<and> (o' \<in> presets \<longrightarrow> m \<le> preset_attempts o') \<and>
    (\<forall>e a. r = Inl e \<and> returned_application_error e = Some a \<longrightarrow>
       ae_NonRetryable a \<or> ae_Type a \<in> set (NonRetryableErrorTypes p) \<or> int m = MaximumAttempts p \<or>
       (ScheduleToCloseTimeout o' \<noteq> 0 \<and>
        of_int (ScheduleToCloseTimeout o') \<le> of_int (srv_now R w' - t0) + retry_wait p (m - 1)))"
proof -
  obtain p where p: "RetryPolicy o' = Some p" "1 \<le> MaximumAttempts p"
    by (rule limited_policy [OF assms(2)])
  obtain m r w' where run: "serve R o' body t0 1 w = Some (m, r, w')" "1 \<le> m" "int m \<le> MaximumAttempts p"
    using bounded_attempts_end [OF assms(1) p(1), of 1 body t0 w] p(2) by auto
  have "ae_NonRetryable a \<or> ae_Type a \<in> set (NonRetryableErrorTypes p) \<or> int m = MaximumAttempts p \<or>
      (ScheduleToCloseTimeout o' \<noteq> 0 \<and>
       of_int (ScheduleToCloseTimeout o') \<le> of_int (srv_now R w' - t0) + retry_wait p (m - 1))"
    if "r = Inl e" "returned_application_error e = Some a" for e a
  proof -
    have "\<not> again R o' (srv_now R w' - t0) m e" using serve_gives_up [OF run(1)] that(1) by blast
    then show ?thesis
      using retries_documentedD(2) [OF assms(1) p(1) that(2), of "srv_now R w' - t0" m] run(3)
      by (auto simp: within_limits_def not_less)
  qed
  moreover have "m \<le> preset_attempts o'" if "o' \<in> presets"
    using preset_attempts_policy [OF that] p(1) run(3) by auto
  ultimately show ?thesis using p(1) run by blast
qed

theorem limited_activities_end_witness:
  "\<exists>p m r w'. RetryPolicy internalServiceOptions = Some p \<and>
    serve (sample_server id (+)) internalServiceOptions
      (\<lambda>n w. (Inl (NewRetryableError ''down'' None) :: go_error + unit, w)) 0 1 0 = Some (m, r, w') \<and>
    int m \<le> MaximumAttempts p \<and> m \<le> 10"
proof -
  have "retries_documented (sample_server id (+))" by (rule sample_server_documented) simp
  from limited_activities_end [OF this, of internalServiceOptions
      "\<lambda>n w. (Inl (NewRetryableError ''down'' None) :: go_error + unit, w)" 0 0]
  obtain p m r w' where "RetryPolicy internalServiceOptions = Some p"
    "serve (sample_server id (+)) internalServiceOptions
      (\<lambda>n w. (Inl (NewRetryableError ''down'' None) :: go_error + unit, w)) 0 1 0 = Some (m, r, w')"
    "int m \<le> MaximumAttempts p" by (auto simp: presets_def)
  moreover from this have "m \<le> 10" by (auto simp: internalServiceOptions_def)
  ultimately show ?thesis by blast
qed

text \<open>
  C5. Compensations are retried until they succeed: while the attempts fail with retryable errors the
  activity does not end, so that neither does the rollback that awaits it; it ends with the first
  attempt that succeeds, however late.
\<close>

theorem compensation_retried_until_it_succeeds:
  assumes "retries_documented R"
  shows "((\<forall>n w. transient_failure (fst (body n w))) \<longrightarrow>
      serve R compensationActivityOptions body t0 1 w = None) \<and>
    (\<forall>k. 1 \<le> k \<and> (\<forall>n w. n < k \<longrightarrow> transient_failure (fst (body n w))) \<and> (\<forall>w. \<exists>v. fst (body k w) = Inr v) \<longrightarrow>
      (\<exists>v w'. serve R compensationActivityOptions body t0 1 w = Some (k, Inr v, w')))"
proof (intro conjI allI impI)
  assume fails: "\<forall>n w. transient_failure (fst (body n w))"
  have again: "again R compensationActivityOptions t n e" if "body n w = (Inl e, w1)" for n w e w1 t
    using fails compensation_again [OF assms] that by (metis fst_conv sum.inject(1) transient_failureE)
  have False if "serve R compensationActivityOptions body t0 1 w = Some (m, r, w')" for m r w'
    using that
  proof (induction rule: serve_induct)
    case (succeeds n w v w')
    with fails show ?case by (metis fst_conv transient_failure.simps(1))
  qed (use again in blast)+
  then show "serve R compensationActivityOptions body t0 1 w = None" by (cases "serve R compensationActivityOptions body t0 1 w") auto
next
  fix k
  assume k: "1 \<le> k \<and> (\<forall>n w. n < k \<longrightarrow> transient_failure (fst (body n w))) \<and> (\<forall>w. \<exists>v. fst (body k w) = Inr v)"
  have "\<exists>v w'. serve R compensationActivityOptions body t0 n w = Some (k, Inr v, w')" if "n \<le> k" for n w
    using that
  proof (induction "k - n" arbitrary: n w)
    case 0
    then have "n = k" by simp
    moreover obtain v where "fst (body k w) = Inr v" using k by blast
    ultimately show ?case using serve_success [of body n w v "snd (body k w)"] by (metis prod.collapse)
  next
    case (Suc d)
    then have "transient_failure (fst (body n w))" using k by simp
    then obtain e a where e: "fst (body n w) = Inl e" "returned_application_error e = Some a" "\<not> ae_NonRetryable a"
      by (rule transient_failureE)
    have "serve R compensationActivityOptions body t0 n w =
        serve R compensationActivityOptions body t0 (Suc n) (pause R compensationActivityOptions t0 n (snd (body n w)))"
      using e compensation_again [OF assms e(2)] serve_failure [of body n w e "snd (body n w)"]
      by (metis (no_types, lifting) prod.collapse)
    with Suc.hyps(1) [of "Suc n"] Suc.hyps(2) Suc.prems show ?case by simp
  qed
  with k show "\<exists>v w'. serve R compensationActivityOptions body t0 1 w = Some (k, Inr v, w')" by blast
qed

theorem compensation_retried_until_it_succeeds_witness:
  "serve (sample_server id (+)) compensationActivityOptions
     (\<lambda>n w. (Inl (NewRetryableError ''down'' None) :: go_error + unit, w)) 0 1 0 = None"
proof -
  have "retries_documented (sample_server id (+))" by (rule sample_server_documented) simp
  from compensation_retried_until_it_succeeds [OF this, of
      "\<lambda>n w. (Inl (NewRetryableError ''down'' None) :: go_error + unit, w)" 0 0]
  show ?thesis by simp
qed

text \<open>
  \<open>NoRetry\<close> is documented as unlimited retries for compensations. It leaves the builder's
  schedule-to-close timeout of five minutes: the activity ends, where one under the saga's own
  options goes on.
\<close>

definition keeps_schedule :: "builder_call \<Rightarrow> bool" where
  "keeps_schedule c \<longleftrightarrow> (case c of WithScheduleToClose d \<Rightarrow> False | WithInitialInterval d \<Rightarrow> False
     | WithMaxInterval d \<Rightarrow> False | WithBackoffCoefficient q \<Rightarrow> False | _ \<Rightarrow> True)"

lemma keeps_schedule_fold:
  "list_all keeps_schedule calls \<Longrightarrow>
   scheduleToClose (fold builder_step calls b) = scheduleToClose b \<and>
   initialInterval (fold builder_step calls b) = initialInterval b \<and>
   maxInterval (fold builder_step calls b) = maxInterval b \<and> backoff (fold builder_step calls b) = backoff b"
  by (induction calls arbitrary: b) (auto simp: keeps_schedule_def split: builder_call.splits)

theorem no_retry_is_cut_off:
  assumes "retries_documented R" and "keeps_time (srv_now R) body" and "list_all keeps_schedule calls"
  shows "map_option MaximumAttempts (RetryPolicy (build_chain (calls @ [NoRetry]))) = Some 0 \<and>
    (\<exists>m r w'. serve R (build_chain (calls @ [NoRetry])) body t0 1 w = Some (m, r, w'))"
proof -
  let ?b = "fold builder_step (calls @ [NoRetry]) NewOptionsBuilder"
  have fields: "scheduleToClose ?b = 5 * Minute" "initialInterval ?b = 2 * Second" "maxInterval ?b = 30 * Second"
      "backoff ?b = Fin 2" "maxAttempts ?b = 0"
    using keeps_schedule_fold [of calls NewOptionsBuilder] assms(3) by (simp_all add: NewOptionsBuilder_def)
  obtain p where p: "RetryPolicy (build_chain (calls @ [NoRetry])) = Some p"
    "InitialInterval p = 2 * Second" "MaximumInterval p = 30 * Second" "BackoffCoefficient p = Fin 2"
    using fields by (simp add: build_chain_def)
  then have "0 < retry_wait p k" for k by (simp add: retry_wait_def duration_units)
  moreover have "ScheduleToCloseTimeout (build_chain (calls @ [NoRetry])) \<noteq> 0"
    using fields by (simp add: build_chain_def duration_units)
  ultimately have "\<exists>m r w'. serve R (build_chain (calls @ [NoRetry])) body t0 1 w = Some (m, r, w')"
    using timed_attempts_end [OF assms(1) p(1) _ _ assms(2), of t0 1 w] by blast
  with fields show ?thesis by (simp add: build_chain_def)
qed

theorem no_retry_is_cut_off_witness:
  "\<exists>m r w'. serve (sample_server id (+)) (build_chain [WithHeartbeat (10 * Second), NoRetry])
     (\<lambda>n w. (Inl (NewRetryableError ''down'' None) :: go_error + unit, w)) 0 1 0 = Some (m, r, w')"
proof -
  have "retries_documented (sample_server id (+))" by (rule sample_server_documented) simp
  from no_retry_is_cut_off [OF this, of "\<lambda>n w. (Inl (NewRetryableError ''down'' None) :: go_error + unit, w)"
      "[WithHeartbeat (10 * Second)]" 0 0]
  show ?thesis by (simp add: keeps_time_def keeps_schedule_def)
qed

subsection \<open>What a rollback can report\<close>

context dlq_handler
begin

text \<open>An error that the rollback sees is one that an awaited compensation brought.\<close>

lemma failures_step_served:
  assumes "effective_handler s = h" and "ctx_opts cc = Some compensationActivityOptions"
    and "(fn, as, err) \<in> set (failures is_comp (appended (compensate_step S s cc i c) w))"
  shows "\<exists>f u. f_opts f = Some compensationActivityOptions \<and> f_fn f = fn \<and> f_args f = as \<and> fst (sdk_get S f u) = Inl err"
proof -
  let ?f = "call_future cc (activityFn c) (args c) (next_future w)"
  obtain r u w' where r: "r = sum_error (fst (sdk_get S ?f u))" and
    app: "appended (compensate_step S s cc i c) w = step_log s i c # comp_run ?f r @
      (case r of None \<Rightarrow> [] | Some err \<Rightarrow> failure_log s c err # appended (report_to_dlq S s i c err) w')"
    using appended_step [OF assms(1), where S = S and cc = cc and i = i and c = c and w = w] by blast
  have "failures is_comp (appended (report_to_dlq S s i c e) w') = []" for e
    by (rule under_nothing(2) [OF under_report [OF assms(1)]])
  with app assms(2,3) have "r = Some err" "fn = activityFn c" "as = args c"
    by (auto simp: comp_run_def trace_simps split: option.splits)
  with r assms(2) show ?thesis
    by (intro exI [of _ ?f] exI [of _ u]) (auto simp: sum_error_def split: sum.splits)
qed

lemma failures_Compensate_served:
  assumes "effective_handler s = h"
    and "(fn, as, err) \<in> set (failures is_comp (appended (Compensate S s) w))"
  shows "\<exists>f u. f_opts f = Some compensationActivityOptions \<and> f_fn f = fn \<and> f_args f = as \<and> fst (sdk_get S f u) = Inl err"
proof -
  let ?cc = "WithActivityOptions (sg_ctx s) compensationActivityOptions"
  have loop: "(fn, as, err) \<in> set (failures is_comp (appended (compensate_from S s ?cc n) u)) \<Longrightarrow> ?thesis" for n u
  proof (induction n arbitrary: u)
    case (Suc i)
    then show ?case
      using failures_step_served [OF assms(1) ctx_opts_WithActivityOptions]
      by (auto simp: appended_bind frame_intros trace_simps assms(1))
  qed (simp add: trace_simps)
  have "\<exists>n u. (fn, as, err) \<in> set (failures is_comp (appended (compensate_from S s ?cc n) u))"
    using assms(2) by (auto simp: Compensate_def Let_def appended_bind frame_intros trace_simps assms(1)
        split: if_splits)
  with loop show ?thesis by blast
qed

end

text \<open>
  What the server is documented to do with the failures that are no application error as they are
  returned: a plain error, a wrapped one and a time-out of an attempt count as retryable errors under
  the name \<open>kind\<close> (of the error's Go type, or of the time-out), and are retried within the limits unless
  that name is listed. The exceptions are \<open>stopped\<close>, errors of the SDK itself: a cancelled or
  terminated activity and the time-outs of its schedule.
\<close>

definition other_failures_documented ::
    "'w retry_server \<Rightarrow> (go_error \<Rightarrow> bool) \<Rightarrow> (go_error \<Rightarrow> string) \<Rightarrow> bool" where
  "other_failures_documented R stopped kind \<longleftrightarrow>
     (\<forall>e. stopped e \<longrightarrow> (\<exists>m c. e = ForeignError m c)) \<and>
     (\<forall>o' p t n e. RetryPolicy o' = Some p \<and> returned_application_error e = None \<and> \<not> stopped e \<longrightarrow>
        again R o' t n e = (within_limits o' p t n \<and> kind e \<notin> set (NonRetryableErrorTypes p)))"

text \<open>The error of an attempt that no retry follows: it forbids the retry, or the activity was stopped.\<close>

definition forbids_retry :: "(go_error \<Rightarrow> bool) \<Rightarrow> go_error \<Rightarrow> bool" where
  "forbids_retry stopped e \<longleftrightarrow>
     stopped e \<or> (\<exists>a. returned_application_error e = Some a \<and> ae_NonRetryable a)"

lemma compensation_given_up:
  assumes "retries_documented R" and "other_failures_documented R stopped kind"
    and "\<not> again R compensationActivityOptions t n e"
  shows "forbids_retry stopped e"
proof (cases "returned_application_error e")
  case None
  obtain p where p: "RetryPolicy compensationActivityOptions = Some p" "MaximumAttempts p = 0"
      "NonRetryableErrorTypes p = []" "ScheduleToCloseTimeout compensationActivityOptions = 0"
    by (simp add: compensationActivityOptions_def)
  have "\<forall>o' p t n e. RetryPolicy o' = Some p \<and> returned_application_error e = None \<and> \<not> stopped e \<longrightarrow>
      again R o' t n e = (within_limits o' p t n \<and> kind e \<notin> set (NonRetryableErrorTypes p))"
    using assms(2) by (simp add: other_failures_documented_def)
  with None p(1) have "stopped e \<or> again R compensationActivityOptions t n e =
      (within_limits compensationActivityOptions p t n \<and> kind e \<notin> set (NonRetryableErrorTypes p))"
    by blast
  with assms(3) p show ?thesis by (auto simp: forbids_retry_def within_limits_def)
next
  case (Some a)
  with compensation_again [OF assms(1) Some] assms(3) show ?thesis by (simp add: forbids_retry_def)
qed

text \<open>
  An SDK whose activities are run by the server: an error that a future brings is a cancellation, or
  what the SDK makes (\<open>wrapped\<close>) of the error of the last attempt, which the server did not retry.
\<close>

definition outcomes_served ::
    "(go_error \<Rightarrow> bool) \<Rightarrow> (go_error \<Rightarrow> go_error) \<Rightarrow> 'v retry_server \<Rightarrow> (future \<Rightarrow> (gval, 'v) attempts) \<Rightarrow> 'w sdk \<Rightarrow> bool" where
  "outcomes_served canceled wrapped R bodies S \<longleftrightarrow>
     (\<forall>f o' u e. f_opts f = Some o' \<and> fst (sdk_get S f u) = Inl e \<longrightarrow>
        canceled e \<or>
        (\<exists>t0 v n e0 v'. serve R o' (bodies f) t0 1 v = Some (n, Inl e0, v') \<and> e = wrapped e0))"

text \<open>
  C4. Every error that a rollback meets, logs as "human intervention required" and reports to its DLQ
  handler is a cancellation, or what the SDK makes of the error of an attempt of that very compensation
  which either is an application error with the non-retryable flag, returned as it is, or with which
  the SDK stopped the activity. Plain errors, wrapped errors, retryable and unlisted application errors
  of any type and time-outs of an attempt never get there: the compensation options leave the server no
  limit and no list to stop at. The server is assumed to retry as documented, for application errors
  and for others.
\<close>

theorem only_permanent_failures_surface:
  assumes "dlq_handler h" and "retries_documented R" and "other_failures_documented R stopped kind"
    and "outcomes_served canceled wrapped R bodies S"
  shows "\<forall>(fn, as, err) \<in> set (failures is_comp (appended (Compensate S (saga_of S c (Some h) ops)) w)).
    canceled err \<or>
    (\<exists>f n u e0. f_opts f = Some compensationActivityOptions \<and> f_fn f = fn \<and> f_args f = as \<and>
       fst (bodies f n u) = Inl e0 \<and> forbids_retry stopped e0 \<and> err = wrapped e0)"
proof safe
  fix fn as err
  assume fails: "(fn, as, err) \<in> set (failures is_comp (appended (Compensate S (saga_of S c (Some h) ops)) w))"
    and "\<not> (\<exists>f n u e0. f_opts f = Some compensationActivityOptions \<and> f_fn f = fn \<and> f_args f = as \<and>
      fst (bodies f n u) = Inl e0 \<and> forbids_retry stopped e0 \<and> err = wrapped e0)"
  moreover obtain f u where f: "f_opts f = Some compensationActivityOptions" "f_fn f = fn" "f_args f = as"
      "fst (sdk_get S f u) = Inl err"
    using dlq_handler.failures_Compensate_served [OF assms(1) effective_handler_saga_of(1) fails] by blast
  moreover have "\<exists>u. fst (bodies f n u) = Inl e0 \<and> forbids_retry stopped e0"
    if "serve R compensationActivityOptions (bodies f) t0 1 v = Some (n, Inl e0, v')" for t0 v n e0 v'
  proof -
    note ends = that
    have "\<forall>e. r = Inl e \<longrightarrow> (\<exists>u. fst (bodies f m u) = Inl e)"
      if "serve R compensationActivityOptions (bodies f) t0 k v = Some (m, r, v')" for m k r v v'
      using that by (induction rule: serve_induct) (metis fst_conv sum.inject(1) | simp)+
    with ends obtain u where u: "fst (bodies f n u) = Inl e0" by blast
    have "\<not> again R compensationActivityOptions (srv_now R v' - t0) n e0" using serve_gives_up [OF ends] by blast
    with u compensation_given_up [OF assms(2,3)] show ?thesis by blast
  qed
  ultimately show "canceled err" using assms(4) unfolding outcomes_served_def by metis
qed

text \<open>A server that looks up the names of all failures.\<close>

definition listing_server :: "(go_error \<Rightarrow> string) \<Rightarrow> ('w \<Rightarrow> time) \<Rightarrow> (duration \<Rightarrow> 'w \<Rightarrow> 'w) \<Rightarrow> 'w retry_server" where
  "listing_server kind now wait = (sample_server now wait)\<lparr>again := (\<lambda>o' t n e.
     case RetryPolicy o' of None \<Rightarrow> False
     | Some p \<Rightarrow> within_limits o' p t n \<and>
         (case returned_application_error e of None \<Rightarrow> kind e \<notin> set (NonRetryableErrorTypes p)
          | Some a \<Rightarrow> \<not> ae_NonRetryable a \<and> ae_Type a \<notin> set (NonRetryableErrorTypes p)))\<rparr>"

lemma listing_server_documented:
  assumes "\<And>d w. now (wait d w) = now w + d"
  shows "retries_documented (listing_server kind now wait)"
    and "other_failures_documented (listing_server kind now wait) (\<lambda>e. False) kind"
  using sample_server_documented [where now = now and wait = wait, OF assms]
  by (auto simp: retries_documented_def listing_server_def sample_server_def other_failures_documented_def)

definition refund_closed :: go_error where
  "refund_closed = NewBusinessError ''AccountClosed'' ''account is closed'' None"

definition refund_sdk :: "unit sdk" where
  "refund_sdk = (sample_sdk (\<lambda>fn. False))
     \<lparr>sdk_get := (\<lambda>f w. (if f_fn f = ''Refund'' then Inl (ForeignError ''activity error'' (Some refund_closed)) else Inr GNil, w))\<rparr>"

definition refund_bodies :: "future \<Rightarrow> (gval, time) attempts" where
  "refund_bodies f n w = (if f_fn f = ''Refund'' then Inl refund_closed else Inr GNil, w)"

theorem only_permanent_failures_surface_witness:
  "list_all (\<lambda>(fn, as, err). \<exists>f n u e0. f_opts f = Some compensationActivityOptions \<and> f_fn f = fn \<and> f_args f = as \<and>
      fst (refund_bodies f n u) = Inl e0 \<and> forbids_retry (\<lambda>e. False) e0 \<and> err = ForeignError ''activity error'' (Some e0))
    (failures is_comp (appended (Compensate refund_sdk
      (saga_of refund_sdk sample_ctx (Some (OnCompensationFailed refund_sdk (NewActivityDLQHandler ''Sink'')))
        [DoAdd ''Release'' [], DoAdd ''Refund'' [GInt 7]])) sample_wf))"
proof -
  let ?R = "listing_server (\<lambda>e. ''wrapError'') id (+)"
  have R: "retries_documented ?R" "other_failures_documented ?R (\<lambda>e. False) (\<lambda>e. ''wrapError'')"
    by (rule listing_server_documented, simp)+
  have "serve ?R o' (refund_bodies f) 0 1 0 = Some (1, Inl refund_closed, 0)" if "f_fn f = ''Refund''" for o' and f :: future
    using that serve_failure [of "refund_bodies f" 1 0 refund_closed 0 ?R o' 0]
    by (simp add: refund_bodies_def listing_server_def refund_closed_def split: option.split_asm)
  then have "outcomes_served (\<lambda>e. False) (\<lambda>e. ForeignError ''activity error'' (Some e)) ?R refund_bodies refund_sdk"
    unfolding outcomes_served_def refund_sdk_def by (fastforce split: if_splits)
  from only_permanent_failures_surface [OF activity_dlq.dlq_handler_axioms R this]
  show ?thesis by (simp add: list_all_iff)
qed

subsection \<open>Lost responses\<close>

text \<open>
  The attempts of an activity that goes through \<open>ExecuteIdempotent\<close>: attempt \<open>n\<close> takes \<open>busy n\<close>, and
  when its response is lost the server sees the error \<open>lost n\<close> instead of what the activity returned.
\<close>

definition deduplicated ::
    "(activity_info \<Rightarrow> string) \<Rightarrow> 'r codec \<Rightarrow> 'r bodies \<Rightarrow> 'r \<Rightarrow> activity_info \<Rightarrow> (nat \<Rightarrow> duration) \<Rightarrow>
     (nat \<Rightarrow> go_error option) \<Rightarrow> ('r, noting_process) attempts" where
  "deduplicated key J f r0 i busy lost n w =
     (case attempt key J f r0 (i\<lparr>ai_Attempt := int n\<rparr>) w of (e, r, w') \<Rightarrow>
        (case lost n of
           Some err \<Rightarrow> Inl err
         | None \<Rightarrow> (case e of None \<Rightarrow> Inr r | Some err \<Rightarrow> Inl err), advance (busy n) w'))"

lemma NoRetry_attempt [simp]: "IdempotencyKeyNoRetry (i\<lparr>ai_Attempt := n\<rparr>) = IdempotencyKeyNoRetry i"
  by (simp add: IdempotencyKeyNoRetry_def)

lemma successes_advance [simp]: "successes key f r0 k (advance d w) = successes key f r0 k w"
  by (simp add: successes_def advance_def)

definition retry_inv :: "'r codec \<Rightarrow> 'r bodies \<Rightarrow> 'r \<Rightarrow> activity_info \<Rightarrow> time \<Rightarrow> noting_process \<Rightarrow> bool" where
  "retry_inv J f r0 i limit w \<longleftrightarrow>
     (\<forall>k. key_inv IdempotencyKeyNoRetry J f r0 limit w k) \<and> set (executed w) \<subseteq> range (\<lambda>n. i\<lparr>ai_Attempt := n\<rparr>)"

lemma retry_inv_advance [simp]: "retry_inv J f r0 i limit (advance d w) = retry_inv J f r0 i limit w"
  by (simp add: retry_inv_def key_inv_advance) (simp add: advance_def)

lemma deduplicated_step:
  assumes "codec_roundtrip J" and "\<And>x. Marshal J x \<noteq> None" and "retry_inv J f r0 i limit w"
    and "clock w \<le> limit" and "limit \<le> clock w + DefaultTTL"
    and "deduplicated IdempotencyKeyNoRetry J f r0 i busy lost n w = (res, w')"
  shows "retry_inv J f r0 i limit w' \<and> clock w' = clock w + busy n \<and>
    (\<forall>r. res = Inr r \<longrightarrow> (\<exists>j. successes IdempotencyKeyNoRetry f r0 (IdempotencyKeyNoRetry i) w' = [j] \<and> f j r0 = (None, r)))"
proof -
  let ?i = "i\<lparr>ai_Attempt := int n\<rparr>"
  obtain e r w1 where run: "attempt IdempotencyKeyNoRetry J f r0 ?i w = (e, r, w1)" by (metis prod_cases3)
  have "(\<forall>k. key_inv IdempotencyKeyNoRetry J f r0 limit w1 k) \<and> clock w1 = clock w \<and>
      (\<forall>k. \<exists>new. successes IdempotencyKeyNoRetry f r0 k w1 = successes IdempotencyKeyNoRetry f r0 k w @ new) \<and>
      (e = None \<longrightarrow> (\<exists>j. successes IdempotencyKeyNoRetry f r0 (IdempotencyKeyNoRetry ?i) w1 = [j] \<and> f j r0 = (None, r)))"
    using assms(3) by (intro attempt_step [OF assms(1,2) _ assms(4,5) run]) (simp add: retry_inv_def)
  moreover have "retry_inv J f r0 i limit w1"
    using calculation attempt_executed [OF run] assms(3) by (auto simp: retry_inv_def)
  ultimately show ?thesis
    using assms(6) run by (auto simp: deduplicated_def split: option.splits)
qed

lemma retry_inv_effects:
  assumes "retry_inv J f r0 i limit w"
  shows "filter (\<lambda>j. fst (f j r0) = None) (executed w) =
    successes IdempotencyKeyNoRetry f r0 (IdempotencyKeyNoRetry i) w"
  unfolding successes_def using assms by (intro filter_cong) (auto simp: retry_inv_def)

text \<open>
  C8. What the comment on \<open>IdempotencyStore\<close> asks for, put together: an activity under any preset that
  checks and records under its stable key ends, and takes effect at most once, whichever responses
  are lost and however long the attempts take; when the server reports a success, it is the result of
  that one effect. The record outlives the activity because each preset's schedule-to-close timeout
  is below the store's default time to live. This is for attempts that follow one another, each
  beginning after the one before has run to its end, on an in-memory store that is empty when the
  activity is scheduled and that nobody else uses, with results that can be encoded and decode to
  themselves, and a server that retries as documented on the store's clock. Attempts that overlap, as
  when the server gives up on one that is still running, can both take effect.
\<close>

theorem retried_activity_takes_effect_once:
  assumes "codec_roundtrip J" and "\<And>x. Marshal J x \<noteq> None"
    and "retries_documented R" and "srv_now R = clock" and "\<And>t0 n w. \<exists>d \<ge> 0. pause R o' t0 n w = advance d w"
    and "o' \<in> presets" and "\<And>n. 0 \<le> busy n"
  shows "\<exists>m res w'. serve R o' (deduplicated IdempotencyKeyNoRetry J f r0 i busy lost) t 1
      \<lparr>entries = fmempty, clock = t, executed = []\<rparr> = Some (m, res, w') \<and>
    (let effects = filter (\<lambda>j. fst (f j r0) = None) (executed w') in
       length effects \<le> 1 \<and> set (executed w') \<subseteq> range (\<lambda>n. i\<lparr>ai_Attempt := n\<rparr>) \<and>
       (\<forall>r. res = Inr r \<longrightarrow> (\<exists>j. effects = [j] \<and> f j r0 = (None, r))))"
proof -
  let ?start = "\<lparr>entries = fmempty, clock = t, executed = []\<rparr>"
  let ?body = "deduplicated IdempotencyKeyNoRetry J f r0 i busy lost"
  let ?limit = "t + DefaultTTL"
  obtain p where p: "RetryPolicy o' = Some p" "1 \<le> MaximumAttempts p"
    and stc: "0 < ScheduleToCloseTimeout o'" "ScheduleToCloseTimeout o' \<le> DefaultTTL"
    using preset_policy [OF assms(6)] by blast
  obtain m res w' where run: "serve R o' ?body t 1 ?start = Some (m, res, w')"
    using bounded_attempts_end [OF assms(3) p(1), of 1 ?body t ?start] p(2) by auto
  have step: "retry_inv J f r0 i ?limit w1 \<and> clock w1 = clock w + busy n \<and>
      (\<forall>r. res = Inr r \<longrightarrow> (\<exists>j. successes IdempotencyKeyNoRetry f r0 (IdempotencyKeyNoRetry i) w1 = [j] \<and> f j r0 = (None, r)))"
    if "?body n w = (res, w1)" "retry_inv J f r0 i ?limit w" "t \<le> clock w" "clock w \<le> t + ScheduleToCloseTimeout o'"
    for n w res w1
  proof (rule deduplicated_step [OF assms(1,2) that(2) _ _ that(1)])
    show "clock w \<le> ?limit" "?limit \<le> clock w + DefaultTTL" using that(3,4) stc(2) by simp_all
  qed
  have "retry_inv J f r0 i ?limit w' \<and>
      (\<forall>r. res = Inr r \<longrightarrow> (\<exists>j. successes IdempotencyKeyNoRetry f r0 (IdempotencyKeyNoRetry i) w' = [j] \<and> f j r0 = (None, r)))"
    if "retry_inv J f r0 i ?limit w" "t \<le> clock w" "clock w \<le> t + ScheduleToCloseTimeout o'"
      "serve R o' ?body t n w = Some (m, res, w')" for n w
    using that(4,1-3)
  proof (induction rule: serve_induct)
    case (succeeds n w v w')
    then show ?case using step by blast
  next
    case (gives_up n w e w')
    then show ?case using step [of n w "Inl e" w'] by simp
  next
    case (retries n w e w1 m r w')
    have step: "retry_inv J f r0 i ?limit w1" "clock w1 = clock w + busy n"
      using step [OF retries(1,4,5,6)] by simp_all
    obtain d where d: "0 \<le> d" "pause R o' t n w1 = advance d w1" using assms(5) by blast
    have "clock (pause R o' t n w1) \<le> t + ScheduleToCloseTimeout o'"
      using retries_documentedD(1,4) [OF assms(3) p(1)] retries(2) stc(1) assms(4) by (metis order_less_irrefl)
    with retries(3) step d assms(7) [of n] retries(5) show ?case by auto
  qed
  from this [OF _ _ _ run] have "retry_inv J f r0 i ?limit w' \<and>
      (\<forall>r. res = Inr r \<longrightarrow> (\<exists>j. successes IdempotencyKeyNoRetry f r0 (IdempotencyKeyNoRetry i) w' = [j] \<and> f j r0 = (None, r)))"
    using stc by (simp add: retry_inv_def key_inv_def successes_def)
  moreover from this have "length (successes IdempotencyKeyNoRetry f r0 (IdempotencyKeyNoRetry i) w') \<le> 1"
    by (auto simp: retry_inv_def key_inv_def dest: spec [of _ "IdempotencyKeyNoRetry i"])
  ultimately show ?thesis
    using run retry_inv_effects [of J f r0 i ?limit w'] by (auto simp: Let_def retry_inv_def)
qed

text \<open>A booking whose first response is lost.\<close>

definition first_lost :: "nat \<Rightarrow> go_error option" where
  "first_lost n = (if n = 1 then Some (ForeignError ''activity StartToClose timeout'' None) else None)"

theorem retried_activity_takes_effect_once_witness:
  "\<exists>m res w'. serve (sample_server clock advance) financialAPIOptions
      (deduplicated IdempotencyKeyNoRetry text_codec (\<lambda>i r. (None, ''tx-'' @ show_int (ai_Attempt i))) []
        (charge_attempt ''r1'' 1) (\<lambda>n. 120) first_lost) 0 1
      \<lparr>entries = fmempty, clock = 0, executed = []\<rparr> = Some (m, res, w') \<and>
    length (executed w') \<le> 1"
proof -
  let ?f = "\<lambda>i (r :: string). (None :: go_error option, ''tx-'' @ show_int (ai_Attempt i))"
  have R: "retries_documented (sample_server clock advance)" by (rule sample_server_documented) simp
  have pauses: "\<exists>d \<ge> 0. pause (sample_server clock advance) financialAPIOptions t0 n w = advance d w" for t0 n w
  proof -
    obtain p where p: "RetryPolicy financialAPIOptions = Some p" "InitialInterval p = 2 * Second"
        "MaximumInterval p = 30 * Second" "BackoffCoefficient p = Fin 2"
      by (simp add: financialAPIOptions_def)
    then have "0 \<le> retry_wait p (n - 1)" by (simp add: retry_wait_def duration_units)
    then have "0 \<le> \<lceil>retry_wait p (n - 1)\<rceil>" by simp
    then show ?thesis
      using p(1) by (intro exI [of _ "\<lceil>retry_wait p (n - 1)\<rceil>"]) (simp add: sample_server_def)
  qed
  have sides: "codec_roundtrip text_codec" "\<And>x. Marshal text_codec x \<noteq> None"
    "srv_now (sample_server clock advance) = clock" "financialAPIOptions \<in> presets" "\<And>n :: nat. (0 :: duration) \<le> 120"
    by (simp_all add: codec_roundtrip_def text_codec_def sample_server_def presets_def)
  from retried_activity_takes_effect_once [OF sides(1,2) R sides(3) pauses sides(4,5), of ?f "[]"
      "charge_attempt ''r1'' 1" first_lost 0]
  show ?thesis by (auto simp: Let_def)
qed

end
