(* ===== verification/PanicRecovery.thy ===== *)
theory PanicRecovery
  imports SdkTypes ActivityErrors
begin

text \<open>
  \<open>activity/recover.go\<close>: \<open>WithPanicRecovery\<close> wraps an activity function by reflection. The part of
  package \<open>reflect\<close> that it uses is modelled here: types of functions, \<open>Call\<close>, \<open>MakeFunc\<close> and
  assignability, with the panics they document.
\<close>

datatype go_type = ContextT | ErrorT | EmptyInterfaceT | NamedT string | SliceT go_type

text \<open>
  Values as they cross a function boundary. A context is known by what its \<open>Err\<close> method returns.
\<close>

datatype rv = RCtx "go_error option" | RVal gval | RSlice "rv list" | RErr "go_error option" | RZero go_type

text \<open>
  A function value: its symbol name, its type, and its body, which gets its parameters (a variadic
  one as a slice) and either returns its results or panics; it may change the state \<open>'st\<close> of the
  world around it.
\<close>

record 'st go_func =
  fn_name :: string
  fn_In :: "go_type list"
  fn_Out :: "go_type list"
  fn_variadic :: bool
  fn_body :: "rv list \<Rightarrow> 'st \<Rightarrow> (gval, rv list) outcome \<times> 'st"

datatype 'st iface = NilI | FuncI "'st go_func" | OtherI string

subsection \<open>Reflection\<close>

definition rt_panic :: "string \<Rightarrow> (gval, 'a) outcome" where
  "rt_panic msg = Panicked (GStr msg)"

text \<open>Whether an error value can be stored in a slot of a type.\<close>

definition holds_error :: "go_type \<Rightarrow> bool" where
  "holds_error t \<longleftrightarrow> t = ErrorT \<or> t = EmptyInterfaceT"

text \<open>
  \<open>Value.Call\<close>: for a variadic function every argument past the fixed ones is one element of the
  variadic parameter, so that a slice passed there is an element of a slice type.
\<close>

definition slice_fits :: "go_type list \<Rightarrow> bool" where
  "slice_fits ins \<longleftrightarrow> (case last ins of SliceT t \<Rightarrow> t = EmptyInterfaceT | _ \<Rightarrow> False)"

definition reflect_Call :: "'st go_func \<Rightarrow> rv list \<Rightarrow> 'st \<Rightarrow> (gval, rv list) outcome \<times> 'st" where
  "reflect_Call f as st =
     (if \<not> fn_variadic f then fn_body f as st
      else if slice_fits (fn_In f) then fn_body f (butlast as @ [RSlice [last as]]) st
      else (rt_panic ''reflect: cannot use slice as its element type in Call'', st))"

text \<open>\<open>MakeFunc\<close>: a function of the given type; all of them share one symbol.\<close>

definition MakeFunc ::
    "'st go_func \<Rightarrow> (rv list \<Rightarrow> 'st \<Rightarrow> (gval, rv list) outcome \<times> 'st) \<Rightarrow> 'st go_func" where
  "MakeFunc typ body =
     \<lparr>fn_name = ''reflect.makeFuncStub'', fn_In = fn_In typ, fn_Out = fn_Out typ,
      fn_variadic = fn_variadic typ, fn_body = body\<rparr>"

subsection \<open>The wrapper\<close>

text \<open>
  \<open>zeroResults\<close> with an error in its last slot: storing it panics when there is no such slot, or
  when the slot cannot hold an error.
\<close>

definition error_results :: "go_type list \<Rightarrow> go_error \<Rightarrow> (gval, rv list) outcome" where
  "error_results outs e =
     (if outs = [] then rt_panic ''runtime error: index out of range [-1]''
      else if \<not> holds_error (last outs) then rt_panic ''reflect.Set: value is not assignable to type''
      else Returned (map RZero (butlast outs) @ [RErr (Some e)]))"

text \<open>The text of a recovered panic: \<open>fv\<close> is the verb \<open>%v\<close> on its value, \<open>stack\<close> the trace.\<close>

definition panic_message :: "(gval \<Rightarrow> string) \<Rightarrow> string \<Rightarrow> gval \<Rightarrow> string" where
  "panic_message fv stack r = ''activity panicked: '' @ fv r @ [CHR 0x0A] @ stack"

text \<open>
  What the check of the context comes to: no error, the context's error, or the panic of the type
  assertion \<open>.(context.Context)\<close>, which a nil context, the zero value of the type, does not meet.
\<close>

definition cancelled_args :: "'st go_func \<Rightarrow> rv list \<Rightarrow> (gval, go_error option) outcome" where
  "cancelled_args f as =
     (if fn_In f \<noteq> [] \<and> hd (fn_In f) = ContextT
      then (case hd as of
              RCtx err \<Rightarrow> Returned err
            | _ \<Rightarrow> rt_panic ''interface conversion: interface is nil, not context.Context'')
      else Returned None)"

text \<open>The main body of the wrapper, and the deferred function that recovers.\<close>

definition wrapper_main :: "'st go_func \<Rightarrow> rv list \<Rightarrow> 'st \<Rightarrow> (gval, rv list) outcome \<times> 'st" where
  "wrapper_main f as st =
     (case cancelled_args f as of
        Panicked r \<Rightarrow> (Panicked r, st)
      | Returned (Some err) \<Rightarrow> (error_results (fn_Out f) err, st)
      | Returned None \<Rightarrow> reflect_Call f as st)"

definition wrapper_body ::
    "(gval \<Rightarrow> string) \<Rightarrow> string \<Rightarrow> 'st go_func \<Rightarrow> rv list \<Rightarrow> 'st \<Rightarrow> (gval, rv list) outcome \<times> 'st" where
  "wrapper_body fv stack f as st =
     (case wrapper_main f as st of
        (Returned rs, st') \<Rightarrow> (Returned rs, st')
      | (Panicked r, st') \<Rightarrow>
          (error_results (fn_Out f) (NewRetryableError (panic_message fv stack r) None), st'))"

definition WithPanicRecovery ::
    "(gval \<Rightarrow> string) \<Rightarrow> string \<Rightarrow> 'st iface \<Rightarrow> (gval, 'st go_func) outcome" where
  "WithPanicRecovery fv stack activityFn =
     (case activityFn of
        NilI \<Rightarrow> rt_panic ''reflect: call of reflect.Value.Type on zero Value''
      | OtherI t \<Rightarrow> rt_panic (''WithPanicRecovery: argument must be a function, got '' @ t)
      | FuncI f \<Rightarrow> Returned (MakeFunc f (wrapper_body fv stack f)))"

text \<open>Activities of the documented form: not variadic, with an error as last result.\<close>

definition plain_activity :: "'st go_func \<Rightarrow> bool" where
  "plain_activity f \<longleftrightarrow> \<not> fn_variadic f \<and> fn_Out f \<noteq> [] \<and> last (fn_Out f) = ErrorT"

text \<open>What the recovery makes of a panic with the value \<open>r\<close>: the zero results and a retryable error.\<close>

definition recovered_results :: "(gval \<Rightarrow> string) \<Rightarrow> string \<Rightarrow> 'st go_func \<Rightarrow> gval \<Rightarrow> rv list" where
  "recovered_results fv stack f r = map RZero (butlast (fn_Out f)) @
     [RErr (Some (NewRetryableError (panic_message fv stack r) None))]"

lemma wrapper_plain:
  assumes "plain_activity f"
  shows "wrapper_body fv stack f as st =
    (case cancelled_args f as of
       Panicked r \<Rightarrow> (Returned (recovered_results fv stack f r), st)
     | Returned (Some err) \<Rightarrow> (Returned (map RZero (butlast (fn_Out f)) @ [RErr (Some err)]), st)
     | Returned None \<Rightarrow>
       (case fn_body f as st of
          (Returned rs, st') \<Rightarrow> (Returned rs, st')
        | (Panicked r, st') \<Rightarrow> (Returned (recovered_results fv stack f r), st')))"
  using assms
  by (auto simp: wrapper_body_def wrapper_main_def plain_activity_def error_results_def
      reflect_Call_def holds_error_def recovered_results_def
      split: option.split prod.split outcome.split)

subsection \<open>Properties\<close>

text \<open>
  C25. A wrapped activity that is not variadic and whose last result is an error never panics, has the
  parameters and results of the original, runs it at most once, and hands through what it returns. A
  panic, whether of the body or of the assertion that the first argument is a context, becomes zero
  results and an error that is retryable, so that no caller takes it for a business error of another
  code, after the state the body left; under a cancelled context the body does not run and the
  context's error is returned, and under a nil context it does not run either.
\<close>

theorem recovery_never_panics:
  assumes "plain_activity f"
  shows "\<exists>g. WithPanicRecovery fv stack (FuncI f) = Returned g \<and>
    fn_In g = fn_In f \<and> fn_Out g = fn_Out f \<and>
    fn_body g as st =
      (case cancelled_args f as of
         Panicked r \<Rightarrow> (Returned (recovered_results fv stack f r), st)
       | Returned (Some err) \<Rightarrow> (Returned (map RZero (butlast (fn_Out f)) @ [RErr (Some err)]), st)
       | Returned None \<Rightarrow>
           (case fn_body f as st of
              (Returned rs, st') \<Rightarrow> (Returned rs, st')
            | (Panicked r, st') \<Rightarrow> (Returned (recovered_results fv stack f r), st'))) \<and>
    (fn_In f \<noteq> [] \<and> hd (fn_In f) = ContextT \<and> hd as = RZero ContextT \<longrightarrow>
       (\<exists>r. fn_body g as st = (Returned (recovered_results fv stack f r), st))) \<and>
    (\<forall>r. \<exists>e. last (recovered_results fv stack f r) = RErr (Some e) \<and>
       map_option ae_NonRetryable (as_application_error e) = Some False \<and>
       (\<forall>code. IsBusinessError (Some e) code \<longleftrightarrow> code = ''RetryableError''))"
proof -
  let ?g = "MakeFunc f (wrapper_body fv stack f)"
  have "WithPanicRecovery fv stack (FuncI f) = Returned ?g" "fn_In ?g = fn_In f" "fn_Out ?g = fn_Out f"
    "fn_body ?g as st = wrapper_body fv stack f as st"
    by (simp_all add: WithPanicRecovery_def MakeFunc_def)
  moreover have "\<exists>r. wrapper_body fv stack f as st = (Returned (recovered_results fv stack f r), st)"
    if "fn_In f \<noteq> [] \<and> hd (fn_In f) = ContextT \<and> hd as = RZero ContextT"
    using that wrapper_plain [OF assms, of fv stack as st] by (auto simp: cancelled_args_def rt_panic_def)
  moreover have "last (recovered_results fv stack f r) =
      RErr (Some (NewRetryableError (panic_message fv stack r) None))" for r
    by (simp add: recovered_results_def)
  moreover have "IsBusinessError (Some (NewRetryableError msg None)) code \<longleftrightarrow> code = ''RetryableError''" for msg code
    by (auto simp: IsBusinessError_def)
  ultimately show ?thesis
    using wrapper_plain [OF assms, of fv stack as st] by (intro exI [of _ ?g]) simp
qed

theorem recovery_never_panics_witness:
  "let f = \<lparr>fn_name = ''Disburse'', fn_In = [ContextT], fn_Out = [ErrorT], fn_variadic = False,
            fn_body = (\<lambda>as n. (Panicked (GStr ''boom''), n + 1 :: nat))\<rparr> in
    \<exists>g rs. WithPanicRecovery (\<lambda>v. '''') ''stack'' (FuncI f) = Returned g \<and>
      fst (fn_body g [RCtx None] 0) = Returned rs \<and> snd (fn_body g [RCtx None] 0) = 1"
  using recovery_never_panics [of "\<lparr>fn_name = ''Disburse'', fn_In = [ContextT], fn_Out = [ErrorT],
      fn_variadic = False, fn_body = (\<lambda>as n. (Panicked (GStr ''boom''), n + 1 :: nat))\<rparr>"
      "\<lambda>v. ''''" "''stack''" "[RCtx None]" 0]
  by (auto simp: plain_activity_def cancelled_args_def Let_def)

text \<open>
  Where the wrapper does not keep its word: the comment promises that the name of the activity
  is preserved, but all wrapped functions have one and the same name; a variadic activity whose
  elements are not \<open>interface{}\<close> never runs once it is wrapped, every call ends in the recovery; and
  a function without results lets a panic of its body through.
\<close>

theorem recovery_limits:
  "(\<exists>g. WithPanicRecovery fv stack (FuncI f) = Returned g \<and> fn_name g = ''reflect.makeFuncStub'') \<and>
   (fn_variadic f \<and> \<not> slice_fits (fn_In f) \<and> cancelled_args f as = Returned None \<longrightarrow>
     snd (wrapper_body fv stack f as st) = st \<and>
     fst (wrapper_body fv stack f as st) = error_results (fn_Out f) (NewRetryableError
       (panic_message fv stack (GStr ''reflect: cannot use slice as its element type in Call'')) None)) \<and>
   (fn_Out f = [] \<and> \<not> fn_variadic f \<and> cancelled_args f as = Returned None \<and> fst (fn_body f as st) = Panicked r \<longrightarrow>
     (\<exists>v. fst (wrapper_body fv stack f as st) = Panicked v))"
  by (cases "fn_body f as st")
    (auto simp: WithPanicRecovery_def MakeFunc_def wrapper_body_def wrapper_main_def reflect_Call_def
      error_results_def rt_panic_def)

theorem recovery_limits_witness:
  "let f = \<lparr>fn_name = ''Notify'', fn_In = [ContextT, SliceT (NamedT ''string'')], fn_Out = [ErrorT],
            fn_variadic = True, fn_body = (\<lambda>as n. (Returned [RErr None], n + 1 :: nat))\<rparr> in
    snd (wrapper_body (\<lambda>v. '''') '''' f [RCtx None, RSlice []] 0) = 0"
  using recovery_limits [of "\<lambda>v. ''''" "''''" "\<lparr>fn_name = ''Notify'',
      fn_In = [ContextT, SliceT (NamedT ''string'')], fn_Out = [ErrorT],
      fn_variadic = True, fn_body = (\<lambda>as n. (Returned [RErr None], n + 1 :: nat))\<rparr>"
      "[RCtx None, RSlice []]" 0]
  by (simp add: slice_fits_def cancelled_args_def Let_def)

subsection \<open>Typing\<close>

text \<open>
  Which values conform to a type; \<open>vt\<close> says it of the application's own values. Every value fits
  \<open>interface{}\<close>, and \<open>reflect.Zero\<close> of a type is of that type.
\<close>

primrec has_type :: "(gval \<Rightarrow> go_type \<Rightarrow> bool) \<Rightarrow> go_type \<Rightarrow> rv \<Rightarrow> bool" where
  "has_type vt ContextT v = (case v of RCtx e \<Rightarrow> True | RZero t \<Rightarrow> t = ContextT | _ \<Rightarrow> False)"
| "has_type vt ErrorT v = (case v of RErr e \<Rightarrow> True | RZero t \<Rightarrow> t = ErrorT | _ \<Rightarrow> False)"
| "has_type vt EmptyInterfaceT v = True"
| "has_type vt (NamedT n) v = (case v of RVal x \<Rightarrow> vt x (NamedT n) | RZero t \<Rightarrow> t = NamedT n | _ \<Rightarrow> False)"
| "has_type vt (SliceT t) v = (case v of RSlice vs \<Rightarrow> list_all (has_type vt t) vs | RZero t' \<Rightarrow> t' = SliceT t | _ \<Rightarrow> False)"

definition well_typed :: "(gval \<Rightarrow> go_type \<Rightarrow> bool) \<Rightarrow> 'st go_func \<Rightarrow> bool" where
  "well_typed vt f \<longleftrightarrow> (\<forall>as st rs. list_all2 (has_type vt) (fn_In f) as \<and> fst (fn_body f as st) = Returned rs \<longrightarrow>
     list_all2 (has_type vt) (fn_Out f) rs)"

lemma has_type_RZero [simp]: "has_type vt t (RZero t)"
  by (cases t) simp_all

lemma list_all2_butlast_last:
  assumes "xs \<noteq> []" and "list_all2 P (butlast xs) ys" and "P (last xs) y"
  shows "list_all2 P xs (ys @ [y])"
proof -
  have "list_all2 P (butlast xs @ [last xs]) (ys @ [y])"
    using assms(2,3) by (intro list_all2_appendI) simp_all
  then show ?thesis using assms(1) by simp
qed

lemma error_results_typed:
  assumes "error_results outs e = Returned rs"
  shows "list_all2 (has_type vt) outs rs"
proof -
  from assms have outs: "outs \<noteq> []" "holds_error (last outs)"
    and rs: "rs = map RZero (butlast outs) @ [RErr (Some e)]"
    by (auto simp: error_results_def rt_panic_def split: if_splits)
  show ?thesis
    unfolding rs
    by (rule list_all2_butlast_last [OF outs(1)])
      (use outs(2) in \<open>auto simp: list_all2_map2 list.rel_refl holds_error_def\<close>)
qed

lemma reflect_Call_typed:
  assumes "well_typed vt f" and "list_all2 (has_type vt) (fn_In f) as" and "fn_variadic f \<Longrightarrow> fn_In f \<noteq> []"
    and "fst (reflect_Call f as st) = Returned rs"
  shows "list_all2 (has_type vt) (fn_Out f) rs"
proof (cases "fn_variadic f")
  case False
  with assms show ?thesis by (auto simp: reflect_Call_def well_typed_def)
next
  case True
  with assms(4) have fits: "slice_fits (fn_In f)"
    and run: "fst (fn_body f (butlast as @ [RSlice [last as]]) st) = Returned rs"
    by (auto simp: reflect_Call_def rt_panic_def split: if_splits)
  have "list_all2 (has_type vt) (butlast (fn_In f)) (butlast as)"
    using assms(2) by (auto simp: list_all2_conv_all_nth nth_butlast)
  then have "list_all2 (has_type vt) (fn_In f) (butlast as @ [RSlice [last as]])"
    using fits assms(3) True
    by (intro list_all2_butlast_last) (auto simp: slice_fits_def split: go_type.splits)
  with run assms(1) show ?thesis by (auto simp: well_typed_def)
qed

text \<open>
  C26. Wrapping is type-preserving: for any function at all, of the documented form or not, variadic
  or not, the wrapper has the same parameters and results, and when the function returns values of
  its result types for arguments of its parameter types, so does the wrapper, recovered panics and
  cancelled contexts included.
\<close>

theorem recovery_keeps_types:
  assumes "well_typed vt f" and "fn_variadic f \<longrightarrow> fn_In f \<noteq> []"
    and "WithPanicRecovery fv stack (FuncI f) = Returned g"
  shows "fn_In g = fn_In f \<and> fn_Out g = fn_Out f \<and> fn_variadic g = fn_variadic f \<and> well_typed vt g"
proof -
  have g: "g = MakeFunc f (wrapper_body fv stack f)"
    using assms(3) by (simp add: WithPanicRecovery_def)
  have "list_all2 (has_type vt) (fn_Out f) rs"
    if "list_all2 (has_type vt) (fn_In f) as" and "fst (wrapper_body fv stack f as st) = Returned rs" for as st rs
  proof -
    have call: "reflect_Call f as st = (Returned rs, st') \<Longrightarrow> list_all2 (has_type vt) (fn_Out f) rs" for st'
      using reflect_Call_typed [OF assms(1) that(1), of st rs] assms(2) by simp
    from that(2) show ?thesis
      by (auto simp: wrapper_body_def wrapper_main_def error_results_typed intro: call
          split: option.splits prod.splits outcome.splits)
  qed
  then show ?thesis by (auto simp: g MakeFunc_def well_typed_def)
qed

theorem recovery_keeps_types_witness:
  "\<exists>g. WithPanicRecovery (\<lambda>v. '''') ''stack'' (FuncI \<lparr>fn_name = ''Disburse'', fn_In = [ContextT],
      fn_Out = [NamedT ''Receipt'', ErrorT], fn_variadic = False,
      fn_body = (\<lambda>as n. (Panicked (GStr ''boom''), n + 1 :: nat))\<rparr>) = Returned g \<and>
    well_typed (\<lambda>v t. True) g"
proof -
  let ?f = "\<lparr>fn_name = ''Disburse'', fn_In = [ContextT], fn_Out = [NamedT ''Receipt'', ErrorT], fn_variadic = False,
      fn_body = (\<lambda>as n. (Panicked (GStr ''boom''), n + 1 :: nat))\<rparr>"
  obtain g where g: "WithPanicRecovery (\<lambda>v. '''') ''stack'' (FuncI ?f) = Returned g"
    by (simp add: WithPanicRecovery_def)
  have "well_typed (\<lambda>v t. True) ?f" by (simp add: well_typed_def)
  from recovery_keeps_types [OF this _ g] g show ?thesis by auto
qed

end
