(* ===== verification/RecoveredIdempotency.thy ===== *)
theory RecoveredIdempotency
  imports PanicRecovery IdempotentConcurrency
begin

text \<open>
  An idempotent activity under panic recovery: \<open>activity/recover.go\<close> around an activity whose body
  goes through \<open>ExecuteIdempotent\<close> (\<open>activity/idempotency_store.go\<close>), the way the comments of both
  tell the caller to write one.
\<close>

subsection \<open>A body that may panic\<close>

text \<open>
  \<open>ExecuteIdempotentWithTTL\<close> once more, for a callback that may panic: a panic leaves the function
  at the call of \<open>fn\<close>, before anything is recorded.
\<close>

definition ExecuteIdempotent_panicking ::
    "'r codec \<Rightarrow> 'st IdempotencyStore \<Rightarrow> string \<Rightarrow> bool \<Rightarrow> duration \<Rightarrow>
     ('r \<Rightarrow> 'st \<Rightarrow> (gval, go_error option \<times> 'r) outcome \<times> 'st) \<Rightarrow> 'r \<Rightarrow> 'st \<Rightarrow>
     (gval, go_error option \<times> 'r) outcome \<times> 'st" where
  "ExecuteIdempotent_panicking J store key hasPtr ttl fn r st =
     (case Check store key st of (res, st1) \<Rightarrow>
       (case use_cached J hasPtr res r of
          (True, r1) \<Rightarrow> (Returned (None, r1), st1)
        | (False, r1) \<Rightarrow>
            (case fn r1 st1 of
               (Panicked v, st2) \<Rightarrow> (Panicked v, st2)
             | (Returned (Some execErr, r2), st2) \<Rightarrow> (Returned (Some execErr, r2), st2)
             | (Returned (None, r2), st2) \<Rightarrow>
                 (case encoded_result J hasPtr r2 of
                    None \<Rightarrow> (Returned (None, r2), st2)
                  | Some d \<Rightarrow> (Returned (None, r2), snd (Record store key (Some d) ttl st2))))))"

definition never_panics :: "('r \<Rightarrow> 'st \<Rightarrow> go_error option \<times> 'r \<times> 'st) \<Rightarrow> 'r \<Rightarrow> 'st \<Rightarrow>
    (gval, go_error option \<times> 'r) outcome \<times> 'st" where
  "never_panics fn r st = (case fn r st of (e, r', st') \<Rightarrow> (Returned (e, r'), st'))"

text \<open>Without panics the two definitions are the same function.\<close>

lemma panicking_agrees:
  "ExecuteIdempotent_panicking J store key hasPtr ttl (never_panics fn) r st =
     (case ExecuteIdempotentWithTTL J store key hasPtr ttl fn r st of (e, r', st') \<Rightarrow> (Returned (e, r'), st'))"
  by (auto simp: ExecuteIdempotent_panicking_def ExecuteIdempotentWithTTL_def never_panics_def
      split: prod.split bool.split option.split)

subsection \<open>The activity of the usage comment\<close>

text \<open>
  \<open>key := ...; var result T; err := ExecuteIdempotent(ctx, store, key, &result, fn); return result, err\<close>.
  \<open>val\<close> is the result as a Go value; \<open>r0\<close> the zero value of its type.
\<close>

definition idempotent_activity ::
    "string \<Rightarrow> go_type \<Rightarrow> 'r codec \<Rightarrow> 'st IdempotencyStore \<Rightarrow> (rv list \<Rightarrow> string) \<Rightarrow>
     (rv list \<Rightarrow> 'r \<Rightarrow> 'st \<Rightarrow> (gval, go_error option \<times> 'r) outcome \<times> 'st) \<Rightarrow> 'r \<Rightarrow> ('r \<Rightarrow> gval) \<Rightarrow>
     'st go_func" where
  "idempotent_activity name T J store key fn r0 val =
     \<lparr>fn_name = name, fn_In = [ContextT, EmptyInterfaceT], fn_Out = [T, ErrorT], fn_variadic = False,
      fn_body = (\<lambda>as st.
        (case ExecuteIdempotent_panicking J store (key as) True DefaultTTL (fn as) r0 st of
           (Panicked v, st') \<Rightarrow> (Panicked v, st')
         | (Returned (e, r), st') \<Rightarrow> (Returned [RVal (val r), RErr e], st')))\<rparr>"

lemma idempotent_activity_plain: "plain_activity (idempotent_activity name T J store key fn r0 val)"
  by (simp add: plain_activity_def idempotent_activity_def)

lemma idempotent_activity_simps [simp]:
  "fn_In (idempotent_activity name T J store key fn r0 val) = [ContextT, EmptyInterfaceT]"
  "fn_Out (idempotent_activity name T J store key fn r0 val) = [T, ErrorT]"
  by (simp_all add: idempotent_activity_def)

lemma wrapped_activity:
  assumes "WithPanicRecovery fv stack (FuncI (idempotent_activity name T J store key fn r0 val)) = Returned g"
  shows "fn_body g (RCtx None # as) st =
    (case ExecuteIdempotent_panicking J store (key (RCtx None # as)) True DefaultTTL (fn (RCtx None # as)) r0 st of
       (Panicked v, st') \<Rightarrow>
         (Returned [RZero T, RErr (Some (NewRetryableError (panic_message fv stack v) None))], st')
     | (Returned (e, r), st') \<Rightarrow> (Returned [RVal (val r), RErr e], st'))"
proof -
  let ?f = "idempotent_activity name T J store key fn r0 val"
  have "g = MakeFunc ?f (wrapper_body fv stack ?f)"
    using assms by (simp add: WithPanicRecovery_def)
  then have "fn_body g (RCtx None # as) st = wrapper_body fv stack ?f (RCtx None # as) st"
    by (simp add: MakeFunc_def)
  also have "\<dots> = (case fn_body ?f (RCtx None # as) st of
      (Returned rs, st') \<Rightarrow> (Returned rs, st')
    | (Panicked v, st') \<Rightarrow>
        (Returned [RZero T, RErr (Some (NewRetryableError (panic_message fv stack v) None))], st'))"
    by (simp add: wrapper_plain [OF idempotent_activity_plain] cancelled_args_def recovered_results_def
        split: prod.split outcome.split)
  finally show ?thesis
    by (auto simp: idempotent_activity_def split: prod.split outcome.split)
qed

lemma panicking_miss:
  assumes "mem_held w key = None"
  shows "ExecuteIdempotent_panicking J mem_store key True ttl fn r w =
    (case fn r w of
       (Panicked v, w1) \<Rightarrow> (Panicked v, w1)
     | (Returned (Some e, x), w1) \<Rightarrow> (Returned (Some e, x), w1)
     | (Returned (None, x), w1) \<Rightarrow> (Returned (None, x), case Marshal J x of None \<Rightarrow> w1
         | Some b \<Rightarrow> w1\<lparr>entries := fmupd key \<lparr>data = Some b, expiresAt = clock w1 + ttl\<rparr> (entries w1)\<rparr>))"
proof -
  obtain res where chk: "Check mem_store key w = (res, w)" using mem.check_eq by blast
  have "use_cached J True res r = (False, r)" by (rule mem.miss_runs_body [OF assms chk])
  moreover have "snd (Record mem_store key (Some b) ttl w2) =
      w2\<lparr>entries := fmupd key \<lparr>data = Some b, expiresAt = clock w2 + ttl\<rparr> (entries w2)\<rparr>" for b w2
    by (simp add: mem_defs)
  ultimately show ?thesis
    by (auto simp: ExecuteIdempotent_panicking_def chk encoded_result_def split: prod.split outcome.split option.split)
qed

lemma panicking_hit:
  assumes "mem_held w key = Some b" and "Unmarshal J b r = (True, x)"
  shows "ExecuteIdempotent_panicking J mem_store key True ttl fn r w = (Returned (None, x), w)"
proof -
  obtain d found where chk: "Check mem_store key w = ((d, found, None), w)" using mem.check_eq by blast
  then have "found \<and> d = Some b" using mem.check_complete assms(1) by blast
  with chk assms(2) show ?thesis by (simp add: ExecuteIdempotent_panicking_def)
qed

text \<open>
  What a call of the wrapped activity does that finds nothing recorded: it runs the body, turns its
  panic into a retryable error, returns its error, and records and returns its success.
\<close>

definition body_run ::
    "(gval \<Rightarrow> string) \<Rightarrow> string \<Rightarrow> go_type \<Rightarrow> 'r codec \<Rightarrow> string \<Rightarrow> ('r \<Rightarrow> gval) \<Rightarrow>
     (gval, go_error option \<times> 'r) outcome \<times> 'e InMemoryIdempotencyStore_scheme \<Rightarrow>
     (gval, rv list) outcome \<times> 'e InMemoryIdempotencyStore_scheme" where
  "body_run fv stack T J k val answer =
     (case answer of
        (Panicked v, w1) \<Rightarrow>
          (Returned [RZero T, RErr (Some (NewRetryableError (panic_message fv stack v) None))], w1)
      | (Returned (Some e, x), w1) \<Rightarrow> (Returned [RVal (val x), RErr (Some e)], w1)
      | (Returned (None, x), w1) \<Rightarrow> (Returned [RVal (val x), RErr None],
          case Marshal J x of None \<Rightarrow> w1
          | Some b \<Rightarrow> w1\<lparr>entries := fmupd k \<lparr>data = Some b, expiresAt = clock w1 + DefaultTTL\<rparr> (entries w1)\<rparr>))"

lemma wrapped_miss:
  assumes "WithPanicRecovery fv stack (FuncI (idempotent_activity name T J mem_store key fn r0 val)) = Returned g"
    and "mem_held w (key (RCtx None # as)) = None"
  shows "fn_body g (RCtx None # as) w =
    body_run fv stack T J (key (RCtx None # as)) val (fn (RCtx None # as) r0 w)"
  unfolding wrapped_activity [OF assms(1)] panicking_miss [OF assms(2)] body_run_def
  by (simp split: prod.split outcome.split option.split)

text \<open>The body uses its time, and leaves the store alone.\<close>

definition spares_store ::
    "('r \<Rightarrow> 'e InMemoryIdempotencyStore_scheme \<Rightarrow> (gval, go_error option \<times> 'r) outcome \<times> 'e InMemoryIdempotencyStore_scheme) \<Rightarrow> bool" where
  "spares_store f \<longleftrightarrow> (\<forall>r w. entries (snd (f r w)) = entries w \<and> clock w \<le> clock (snd (f r w)))"

lemma spares_store_miss:
  assumes "spares_store f" and "mem_held w k = None" and "0 \<le> wait"
  shows "mem_held (advance wait (snd (f r w))) k = None"
proof -
  have "entries (snd (f r w)) = entries w" "clock w \<le> clock (snd (f r w))"
    using assms(1) by (simp_all add: spares_store_def)
  with assms(2,3) show ?thesis by (auto simp: mem_defs advance_def split: option.splits if_splits)
qed

text \<open>
  C27. A recovered idempotent activity on the in-memory store, called under a context that is not
  cancelled with a key for which nothing is recorded, and called again after a wait of at most the
  default time to live. The first call runs the body: a panic reaches the caller as a retryable error,
  an error is returned, and in both cases nothing is recorded and the second call runs the body again,
  in the state the first left. A success that could be encoded is recorded, and the second call returns
  it without running the body and without touching the state; one that could not be encoded is
  returned but not recorded, and the second call runs the body again. The body is assumed to
  leave the store's entries alone, and what is encoded to decode to itself.
\<close>

theorem recovered_activity_is_idempotent:
  assumes "WithPanicRecovery fv stack (FuncI (idempotent_activity name T J mem_store key fn r0 val)) = Returned g"
    and "mem_held w (key (RCtx None # as)) = None"
    and "codec_roundtrip J" and "spares_store (fn (RCtx None # as))"
    and "0 \<le> wait" and "wait \<le> DefaultTTL"
  shows "let call = fn_body g (RCtx None # as); body = fn (RCtx None # as) r0;
             run = (\<lambda>u. body_run fv stack T J (key (RCtx None # as)) val (body u));
             later = advance wait (snd (call w)) in
    call w = run w \<and>
    (case body w of
       (Panicked v, w1) \<Rightarrow> snd (call w) = w1 \<and> call later = run later
     | (Returned (Some e, x), w1) \<Rightarrow> snd (call w) = w1 \<and> call later = run later
     | (Returned (None, x), w1) \<Rightarrow>
         if Marshal J x = None then snd (call w) = w1 \<and> call later = run later
         else call later = (fst (call w), later))"
proof -
  let ?as = "RCtx None # as"
  let ?call = "fn_body g ?as"
  let ?later = "advance wait (snd (?call w))"
  note first = wrapped_miss [OF assms(1,2)]
  have again: "?call (advance wait (snd (fn ?as r0 w))) =
      body_run fv stack T J (key ?as) val (fn ?as r0 (advance wait (snd (fn ?as r0 w))))"
    by (rule wrapped_miss [OF assms(1) spares_store_miss [OF assms(4,2,5)]])
  show ?thesis
  proof (cases "fn ?as r0 w")
    case (Pair o' w1)
    then consider v where "o' = Panicked v" | e x where "o' = Returned (Some e, x)"
      | x where "o' = Returned (None, x)" "Marshal J x = None"
      | x b where "o' = Returned (None, x)" "Marshal J x = Some b"
      by (metis not_None_eq outcome.exhaust surj_pair)
    then show ?thesis
    proof cases
      case (4 x b)
      let ?w2 = "w1\<lparr>entries := fmupd (key ?as) \<lparr>data = Some b, expiresAt = clock w1 + DefaultTTL\<rparr> (entries w1)\<rparr>"
      have "?call w = (Returned [RVal (val x), RErr None], ?w2)"
        using first Pair 4 by (simp add: body_run_def)
      moreover have "ExecuteIdempotent_panicking J mem_store (key ?as) True DefaultTTL (fn ?as) r0 (advance wait ?w2) =
          (Returned (None, x), advance wait ?w2)"
        using 4(2) assms(3,6) by (intro panicking_hit) (auto simp: mem_defs codec_roundtrip_def advance_def)
      then have "?call (advance wait ?w2) = (Returned [RVal (val x), RErr None], advance wait ?w2)"
        by (simp add: wrapped_activity [OF assms(1)])
      ultimately show ?thesis using first Pair 4 by (simp add: Let_def)
    qed (use first again Pair in \<open>simp_all add: Let_def body_run_def\<close>)
  qed
qed

text \<open>A transfer whose retry, three seconds after the first attempt, finds the record.\<close>

definition transfer_body ::
    "rv list \<Rightarrow> string \<Rightarrow> charging_process \<Rightarrow> (gval, go_error option \<times> string) outcome \<times> charging_process" where
  "transfer_body as r w = (Returned (None, ''tx1''), w\<lparr>charges := charges w + 1\<rparr>)"

theorem recovered_activity_is_idempotent_witness:
  "\<exists>g. WithPanicRecovery (\<lambda>v. '''') ''stack''
      (FuncI (idempotent_activity ''Transfer'' (NamedT ''string'') text_codec mem_store (\<lambda>as. ''k'')
        transfer_body [] GStr)) = Returned g \<and>
    (let (out, w2) = fn_body g [RCtx None] \<lparr>entries = fmempty, clock = 0, charges = 0\<rparr> in
      out = Returned [RVal (GStr ''tx1''), RErr None] \<and>
      fn_body g [RCtx None] (advance 3 w2) = (out, advance 3 w2))"
proof -
  let ?f = "idempotent_activity ''Transfer'' (NamedT ''string'') text_codec mem_store (\<lambda>as. ''k'') transfer_body [] GStr"
  let ?w = "\<lparr>entries = fmempty, clock = 0, charges = 0\<rparr>"
  obtain g where g: "WithPanicRecovery (\<lambda>v. '''') ''stack'' (FuncI ?f) = Returned g"
    by (simp add: WithPanicRecovery_def)
  show ?thesis
    using recovered_activity_is_idempotent [OF g, where w = ?w and as = "[]" and wait = 3] g
    by (auto simp: transfer_body_def spares_store_def body_run_def mem_held_def text_codec_def codec_roundtrip_def
        DefaultTTL_def duration_units Let_def)
qed

end
