(* ===== verification/Parallel.thy ===== *)
theory Parallel
  imports WorkflowEnv ActivityErrors
begin

text \<open>
  \<open>workflow/parallel.go\<close>: running a batch of activities at once and collecting their outcomes in
  the order they complete.
\<close>

record ActivityCall =
  Fn :: gofunc
  Args :: "gval list"
  ResultPtr :: "nat option"

record ParallelResult =
  Index :: nat
  Err :: "go_error option"

text \<open>The fan-out.\<close>

fun schedule_all :: "'w sdk \<Rightarrow> ctx \<Rightarrow> ActivityCall list \<Rightarrow> ('w, future list) workflow" where
  "schedule_all S c [] = return []"
| "schedule_all S c (call # calls) = do {
     f \<leftarrow> execute_activity S c (Fn call) (Args call);
     fs \<leftarrow> schedule_all S c calls;
     return (f # fs)
   }"

text \<open>The callback of one future: it reads the outcome, into the result pointer if there is one.\<close>

definition collect_result ::
    "'w sdk \<Rightarrow> nat \<times> future \<times> ActivityCall \<Rightarrow> ParallelResult list \<Rightarrow> ('w, ParallelResult list) workflow" where
  "collect_result S = (\<lambda>(idx, fut, call) results. do {
     r \<leftarrow> future_get S fut;
     _ \<leftarrow> (case (ResultPtr call, r) of
            (Some p, Inr v) \<Rightarrow> write_result p v
          | _ \<Rightarrow> return ());
     return (results @ [\<lparr>Index = idx, Err = sum_error r\<rparr>])
   })"

text \<open>
  The fan-in: \<open>n\<close> calls of \<open>Select\<close> on the futures that have not been taken yet. A selector that
  answers with no case at all leaves the workflow blocked: the value is None.
\<close>

fun select_all ::
    "'w sdk \<Rightarrow> nat \<Rightarrow> (nat \<times> future \<times> ActivityCall) list \<Rightarrow> ParallelResult list \<Rightarrow>
     ('w, ParallelResult list option) workflow" where
  "select_all S 0 pending results = return (Some results)"
| "select_all S (Suc n) pending results = do {
     k \<leftarrow> select_case S (map (\<lambda>(idx, fut, call). FutureCase fut) pending);
     if k < length pending then do {
       results' \<leftarrow> collect_result S (pending ! k) results;
       select_all S n (take k pending @ drop (Suc k) pending) results'
     } else return None
   }"

text \<open>The errors of a batch, each with the position of its activity.\<close>

definition indexed_errors :: "ParallelResult list \<Rightarrow> go_error list" where
  "indexed_errors results = List.map_filter
     (\<lambda>r. case Err r of
        None \<Rightarrow> None
      | Some e \<Rightarrow> Some (WrapError (''activity['' @ show_int (int (Index r)) @ '']: '') e)) results"

definition combineErrors :: "app_text \<Rightarrow> go_error list \<Rightarrow> go_error" where
  "combineErrors tx errs =
     (if length errs = 1 then errs ! 0
      else ErrorString (foldl (\<lambda>msg e. msg @ [CHR 0x0A] @ ''  - '' @ error_text tx e)
             (show_int (int (length errs)) @ '' activities failed:'') errs))"

definition ExecuteParallel ::
    "'w sdk \<Rightarrow> ctx \<Rightarrow> ActivityCall list \<Rightarrow> ('w, (ParallelResult list \<times> go_error option) option) workflow" where
  "ExecuteParallel S c calls =
     (if length calls = 0 then return (Some ([], None))
      else do {
        futures \<leftarrow> schedule_all S c calls;
        collected \<leftarrow> select_all S (length calls)
          (zip [0..<length calls] (zip futures calls)) [];
        (case collected of
           None \<Rightarrow> return None
         | Some results \<Rightarrow>
             (let errs = indexed_errors results in
              if 0 < length errs then return (Some (results, Some (combineErrors (sdk_app_text S) errs)))
              else return (Some (results, None))))
      })"

definition ExecuteParallelBestEffort ::
    "'w sdk \<Rightarrow> ctx \<Rightarrow> ActivityCall list \<Rightarrow> ('w, ParallelResult list option) workflow" where
  "ExecuteParallelBestEffort S c calls = do {
     r \<leftarrow> ExecuteParallel S c calls;
     return (map_option fst r)
   }"

subsection \<open>The fan-out\<close>

lemma schedule_all_effects:
  assumes "run_state (schedule_all S c calls) s = (fs, s')"
  shows "history s' = history s @ map Scheduled fs \<and> length fs = length calls \<and>
    map (\<lambda>f. (f_fn f, f_args f)) fs = map (\<lambda>call. (Fn call, Args call)) calls \<and>
    list_all (\<lambda>f. f_opts f = ctx_opts c) fs \<and> map f_id fs = [next_future s..<next_future s + length calls]"
  using assms
proof (induction calls arbitrary: s fs s')
  case (Cons call calls)
  obtain f u where f: "run_state (execute_activity S c (Fn call) (Args call)) s = (f, u)" by fastforce
  obtain gs v where gs: "run_state (schedule_all S c calls) u = (gs, v)" by fastforce
  show ?case
    using Cons.IH [OF gs] f gs Cons.prems
    by (auto simp: execute_activity_def Let_def upt_conv_Cons simp del: upt_Suc)
qed simp

lemma extends_schedule_all [frame_intros]: "extends (schedule_all S c calls)"
  by (induction calls) (simp_all add: frame_intros)

subsection \<open>The fan-in\<close>

lemma extends_collect_result [frame_intros]: "extends (collect_result S p results)"
  by (auto simp: collect_result_def frame_intros split: prod.split option.split sum.split
      intro!: frame_intros)

lemma extends_select_all [frame_intros]: "extends (select_all S n pending results)"
  by (induction n arbitrary: pending results) (auto intro!: frame_intros)

lemma collect_result_effects:
  "\<exists>r. fst (run_state (collect_result S (i, f, call) results) s) = results @ [\<lparr>Index = i, Err = r\<rparr>] \<and>
    appended (collect_result S (i, f, call) results) s = [Awaited f r]"
  by (cases "run_state (future_get S f) s"; cases "fst (run_state (future_get S f) s)"; cases "ResultPtr call")
    (auto simp: collect_result_def future_get_def appended_def split: prod.splits)

lemma appended_select_case: "appended (select_case S cs) s = [Selected (fst (run_state (select_case S cs) s))]"
  by (simp add: select_case_def appended_def split: prod.split)

lemma select_case_documented:
  "selector_documented S \<Longrightarrow> cs \<noteq> [] \<Longrightarrow> fst (run_state (select_case S cs) s) < length cs"
  by (simp add: select_case_def selector_documented_def split: prod.split) (metis fst_conv)

lemma select_all_effects:
  assumes "selector_documented S" "length pending = n" "\<forall>(i, f, call) \<in> set pending. f = fs ! i"
  shows "\<exists>rs. fst (run_state (select_all S n pending results) s) = Some (results @ rs) \<and>
    mset (map Index rs) = mset (map fst pending) \<and>
    under (\<lambda>_. True) (appended (select_all S n pending results) s) =
      map (\<lambda>r. Awaited (fs ! Index r) (Err r)) rs"
  using assms(2,3)
proof (induction n arbitrary: pending results s)
  case 0
  then show ?case by (simp add: trace_simps)
next
  case (Suc n)
  let ?cs = "map (\<lambda>(idx, fut, call). FutureCase fut) pending"
  let ?k = "fst (run_state (select_case S ?cs) s)" and ?s1 = "snd (run_state (select_case S ?cs) s)"
  let ?p' = "take ?k pending @ drop (Suc ?k) pending"
  have k: "?k < length pending"
    using select_case_documented [OF assms(1), of ?cs s] Suc.prems(1) by (cases pending) auto
  obtain i f call where p: "pending ! ?k = (i, f, call)" by (cases "pending ! ?k") auto
  have f: "f = fs ! i" using Suc.prems(2) k p nth_mem [OF k] by auto
  obtain r where r: "fst (run_state (collect_result S (i, f, call) results) ?s1) = results @ [\<lparr>Index = i, Err = r\<rparr>]"
    "appended (collect_result S (i, f, call) results) ?s1 = [Awaited f r]"
    using collect_result_effects by blast
  let ?s2 = "snd (run_state (collect_result S (i, f, call) results) ?s1)"
  have "length ?p' = n" "\<forall>(i, f, call) \<in> set ?p'. f = fs ! i"
    using Suc.prems k by (auto dest: in_set_takeD in_set_dropD)
  from Suc.IH [OF this, of "results @ [\<lparr>Index = i, Err = r\<rparr>]" ?s2]
  obtain rs where rs: "fst (run_state (select_all S n ?p' (results @ [\<lparr>Index = i, Err = r\<rparr>])) ?s2) =
        Some ((results @ [\<lparr>Index = i, Err = r\<rparr>]) @ rs)"
      "mset (map Index rs) = mset (map fst ?p')"
      "under (\<lambda>_. True) (appended (select_all S n ?p' (results @ [\<lparr>Index = i, Err = r\<rparr>])) ?s2) =
        map (\<lambda>r. Awaited (fs ! Index r) (Err r)) rs"
    by blast
  have m: "mset (map fst pending) = add_mset i (mset (map fst ?p'))"
    using arg_cong [OF mset_remove_nth [OF k], of "image_mset fst"] p by simp
  have run: "run_state (select_all S (Suc n) pending results) s =
      run_state (select_all S n ?p' (results @ [\<lparr>Index = i, Err = r\<rparr>])) ?s2"
    using k p r(1) by (simp add: split_beta)
  have app: "appended (select_all S (Suc n) pending results) s =
      Selected ?k # Awaited f r # appended (select_all S n ?p' (results @ [\<lparr>Index = i, Err = r\<rparr>])) ?s2"
    using k p r by (simp add: appended_bind frame_intros appended_select_case)
  show ?case
    using rs m f
    by (intro exI [of _ "\<lparr>Index = i, Err = r\<rparr> # rs"])
      (simp add: run app trace_simps del: select_all.simps)
qed

subsection \<open>The aggregated error\<close>

lemma indexed_errors_simps [simp]:
  "indexed_errors [] = []"
  "indexed_errors (r # rs) = (case Err r of None \<Rightarrow> indexed_errors rs
     | Some e \<Rightarrow> WrapError (''activity['' @ show_int (int (Index r)) @ '']: '') e # indexed_errors rs)"
  by (simp_all add: indexed_errors_def List.map_filter_simps split: option.split)

lemma indexed_errors_none: "indexed_errors rs = [] \<longleftrightarrow> list_all (\<lambda>r. Err r = None) rs"
  by (induction rs) (auto split: option.split)

lemma ExecuteParallel_run:
  assumes "selector_documented S"
  shows "\<exists>fs rs. map (\<lambda>f. (f_fn f, f_args f)) fs = map (\<lambda>call. (Fn call, Args call)) calls \<and>
    list_all (\<lambda>f. f_opts f = ctx_opts c) fs \<and>
    fst (run_state (ExecuteParallel S c calls) s) =
      Some (rs, if indexed_errors rs = [] then None else Some (combineErrors (sdk_app_text S) (indexed_errors rs))) \<and>
    mset (map Index rs) = mset [0..<length calls] \<and>
    under (\<lambda>_. True) (appended (ExecuteParallel S c calls) s) =
      map Scheduled fs @ map (\<lambda>r. Awaited (fs ! Index r) (Err r)) rs"
proof (cases "calls = []")
  case True
  then show ?thesis by (intro exI [of _ "[]"]) (simp add: ExecuteParallel_def trace_simps)
next
  case False
  obtain fs s1 where run: "run_state (schedule_all S c calls) s = (fs, s1)" by fastforce
  note eff = schedule_all_effects [OF run]
  let ?p = "zip [0..<length calls] (zip fs calls)"
  have p: "length ?p = length calls" "\<forall>(i, f, call) \<in> set ?p. f = fs ! i" "map fst ?p = [0..<length calls]"
    using eff by (auto simp: set_zip)
  obtain rs where rs: "fst (run_state (select_all S (length calls) ?p []) s1) = Some rs"
      "mset (map Index rs) = mset (map fst ?p)"
      "under (\<lambda>_. True) (appended (select_all S (length calls) ?p []) s1) =
        map (\<lambda>r. Awaited (fs ! Index r) (Err r)) rs"
    using select_all_effects [OF assms p(1,2), of "[]" s1] by auto
  have app: "appended (schedule_all S c calls) s = map Scheduled fs"
    using eff run by (simp add: appended_def)
  have sched: "under (\<lambda>_. True) (map Scheduled fs) = map Scheduled fs" for fs
    by (induction fs) (simp_all add: trace_simps)
  show ?thesis
    using False rs eff run p(3)
    by (intro exI [of _ fs] exI [of _ rs])
      (simp add: ExecuteParallel_def Let_def appended_bind frame_intros app sched trace_simps split_beta
        split: option.split)
qed

lemma combineErrors_chain:
  "as_application_error (combineErrors tx errs) =
    (if length errs = 1 then as_application_error (errs ! 0) else None)"
  by (simp add: combineErrors_def)

subsection \<open>Properties\<close>

text \<open>
  C10. A parallel batch returns: it starts every activity, in the order given and under the caller's
  options, before it awaits any; it awaits each exactly once; and its results are one per activity,
  in the order of completion, each with the position and the very error of that activity. The
  error it returns is nil exactly when every activity succeeded; the best-effort variant hands out
  the same results without it. \<open>Selector.Select\<close> is only assumed
  to run one of the cases it was given.
\<close>

theorem parallel_collects_every_result:
  assumes "selector_documented S"
  shows "\<exists>fs rs err. fst (run_state (ExecuteParallel S c calls) s) = Some (rs, err) \<and>
    map (\<lambda>f. (f_fn f, f_args f, f_opts f)) fs = map (\<lambda>call. (Fn call, Args call, ctx_opts c)) calls \<and>
    under (\<lambda>_. True) (appended (ExecuteParallel S c calls) s) =
      map Scheduled fs @ map (\<lambda>r. Awaited (fs ! Index r) (Err r)) rs \<and>
    mset (map Index rs) = mset [0..<length calls] \<and>
    (err = None \<longleftrightarrow> list_all (\<lambda>r. Err r = None) rs) \<and>
    fst (run_state (ExecuteParallelBestEffort S c calls) s) = Some rs"
proof -
  obtain fs rs where fs: "map (\<lambda>f. (f_fn f, f_args f)) fs = map (\<lambda>call. (Fn call, Args call)) calls"
      "list_all (\<lambda>f. f_opts f = ctx_opts c) fs"
    and rs: "fst (run_state (ExecuteParallel S c calls) s) =
      Some (rs, if indexed_errors rs = [] then None else Some (combineErrors (sdk_app_text S) (indexed_errors rs)))"
      "mset (map Index rs) = mset [0..<length calls]"
      "under (\<lambda>_. True) (appended (ExecuteParallel S c calls) s) =
        map Scheduled fs @ map (\<lambda>r. Awaited (fs ! Index r) (Err r)) rs"
    using ExecuteParallel_run [OF assms, of calls c s] by blast
  have "map (\<lambda>f. (f_fn f, f_args f, f_opts f)) fs = map (\<lambda>call. (Fn call, Args call, ctx_opts c)) calls"
    using fs by (induction fs calls rule: list_induct2') auto
  with rs show ?thesis by (auto simp: indexed_errors_none ExecuteParallelBestEffort_def split_beta)
qed

theorem parallel_collects_every_result_witness:
  "let S = sample_sdk (\<lambda>f. f = ''Credit''); c = \<lparr>ctx_opts = None\<rparr>;
       calls = [\<lparr>Fn = ''KYC'', Args = [], ResultPtr = Some 0\<rparr>, \<lparr>Fn = ''Credit'', Args = [], ResultPtr = None\<rparr>] in
    \<exists>fs rs err. fst (run_state (ExecuteParallel S c calls) sample_wf) = Some (rs, err) \<and>
      under (\<lambda>_. True) (appended (ExecuteParallel S c calls) sample_wf) =
        map Scheduled fs @ map (\<lambda>r. Awaited (fs ! Index r) (Err r)) rs \<and>
      mset (map Index rs) = mset [0..<2] \<and> (err = None \<longleftrightarrow> list_all (\<lambda>r. Err r = None) rs)"
proof -
  have "selector_documented (sample_sdk (\<lambda>f. f = ''Credit''))"
    by (simp add: selector_documented_def sample_sdk_def)
  from parallel_collects_every_result [OF this, of "\<lparr>ctx_opts = None\<rparr>"
      "[\<lparr>Fn = ''KYC'', Args = [], ResultPtr = Some 0\<rparr>, \<lparr>Fn = ''Credit'', Args = [], ResultPtr = None\<rparr>]" sample_wf]
  show ?thesis by (simp add: Let_def numeral_2_eq_2) blast
qed

text \<open>
  C16. What a caller can learn from the error of a batch: with one failed activity it is that
  activity's error with its position, and still answers to its business code; with two or more it is
  a plain text in which no code can be found, so that \<open>IsBusinessError\<close> is false even when every
  failure is a business error. The SDK's selector is assumed to run one of its cases.
\<close>

theorem parallel_error_keeps_code_only_alone:
  assumes "selector_documented S"
    and "fst (run_state (ExecuteParallel S c calls) s) = Some (rs, Some err)"
  shows "IsBusinessError (Some err) code \<longleftrightarrow>
    (\<exists>r e. filter (\<lambda>r. Err r \<noteq> None) rs = [r] \<and> Err r = Some e \<and> IsBusinessError (Some e) code)"
proof -
  have err: "err = combineErrors (sdk_app_text S) (indexed_errors rs)" "indexed_errors rs \<noteq> []"
    using ExecuteParallel_run [OF assms(1), of calls c s] assms(2) by (auto split: if_splits)
  have alone: "length (indexed_errors xs) = length (filter (\<lambda>r. Err r \<noteq> None) xs)" for xs
    by (induction xs) (auto split: option.split)
  have first: "filter (\<lambda>r. Err r \<noteq> None) xs = [r] \<Longrightarrow> Err r = Some e \<Longrightarrow>
      as_application_error (indexed_errors xs ! 0) = as_application_error e" for xs r e
    by (induction xs) (auto split: if_splits)
  show ?thesis
  proof (cases "length (indexed_errors rs) = 1")
    case True
    then obtain r where r: "filter (\<lambda>r. Err r \<noteq> None) rs = [r]"
      unfolding alone by (auto simp: length_Suc_conv)
    then have "r \<in> set (filter (\<lambda>r. Err r \<noteq> None) rs)" by simp
    then obtain e where e: "Err r = Some e" by auto
    show ?thesis
      using True r e first [OF r e] by (simp add: IsBusinessError_def err combineErrors_chain)
  next
    case False
    then show ?thesis
      unfolding alone by (auto simp: IsBusinessError_def err combineErrors_chain alone)
  qed
qed

theorem parallel_error_keeps_code_only_alone_witness:
  "let S = sample_sdk (\<lambda>f. True);
       r = fst (run_state (ExecuteParallel S \<lparr>ctx_opts = None\<rparr> [\<lparr>Fn = ''KYC'', Args = [], ResultPtr = None\<rparr>]) sample_wf)
   in \<exists>rs err. r = Some (rs, Some err) \<and> \<not> IsBusinessError (Some err) ''KYC_FAILED''"
proof -
  let ?S = "sample_sdk (\<lambda>f. True)" and ?c = "\<lparr>ctx_opts = None\<rparr>"
  let ?calls = "[\<lparr>Fn = ''KYC'', Args = [], ResultPtr = None\<rparr>]"
  have doc: "selector_documented ?S" by (simp add: selector_documented_def sample_sdk_def)
  obtain err where r: "fst (run_state (ExecuteParallel ?S ?c ?calls) sample_wf) =
      Some ([\<lparr>Index = 0, Err = Some (ErrorString ''canceled'')\<rparr>], Some err)"
    by (simp add: ExecuteParallel_def collect_result_def wf_prims sample_sdk_def sample_wf_def Let_def)
  show ?thesis
    using parallel_error_keeps_code_only_alone [OF doc r, of "''KYC_FAILED''"] r
    by (simp add: Let_def IsBusinessError_def)
qed

end
