(* ===== verification/Approval.thy ===== *)
theory Approval
  imports WorkflowEnv
begin

text \<open>
  \<open>workflow/approval.go\<close>: a workflow waits for a human decision, delivered as a signal, or for
  the end of its time window.
\<close>

definition approvalSignalName :: string where
  "approvalSignalName = ''approval-signal''"

definition ApprovalSignalName :: string where
  "ApprovalSignalName = approvalSignalName"

record ApprovalRequest =
  ApprovalID :: string
  Description :: string
  Timeout :: duration
  Metadata :: "(string \<times> string) list"

record ApprovalResult =
  Approved :: bool
  ApproverID :: string
  Comment :: string
  ApprovedAt :: time
  TimedOut :: bool

text \<open>The zero value, \<open>ApprovalResult{}\<close>.\<close>

definition zero_approval :: ApprovalResult where
  "zero_approval =
     \<lparr>Approved = False, ApproverID = '''', Comment = '''', ApprovedAt = zero_time, TimedOut = False\<rparr>"

text \<open>
  \<open>ReceiveChannel.Receive\<close> is the SDK's: the parameter \<open>recv\<close> is what the channel leaves in the
  result variable, given what was there.
\<close>

definition receive_result ::
    "(ApprovalResult \<Rightarrow> 'w \<Rightarrow> ApprovalResult \<times> 'w) \<Rightarrow> string \<Rightarrow> ApprovalResult \<Rightarrow> ('w, ApprovalResult) workflow" where
  "receive_result recv name r0 = State (\<lambda>s.
     case recv r0 (world s) of (r, w') \<Rightarrow>
       (r, s\<lparr>world := w', history := history s @ [SignalReceived name]\<rparr>))"

text \<open>
  The value None is a workflow that stays blocked: the selector ran neither case. The timer's
  callback does not look at the timer's outcome.
\<close>

definition WaitForApproval ::
    "'w sdk \<Rightarrow> (ApprovalResult \<Rightarrow> 'w \<Rightarrow> ApprovalResult \<times> 'w) \<Rightarrow> ApprovalRequest \<Rightarrow>
     ('w, (ApprovalResult \<times> go_error option) option) workflow" where
  "WaitForApproval S recv req =
     (if ApprovalID req = '''' then
        return (Some (zero_approval, Some (ErrorString ''WaitForApproval: ApprovalID is required'')))
      else if Timeout req \<le> 0 then
        return (Some (zero_approval, Some (ErrorString ''WaitForApproval: Timeout must be positive'')))
      else do {
        wf_log Info ''waiting for approval''
          [(''approvalID'', GStr (ApprovalID req)), (''timeout'', GStr (duration_String (Timeout req)))];
        emit (TimerStarted (Timeout req));
        k \<leftarrow> select_case S [RecvCase approvalSignalName, TimerCase (Timeout req)];
        if k = 0 then do {
          r \<leftarrow> receive_result recv approvalSignalName zero_approval;
          t \<leftarrow> Now S;
          (let result = r\<lparr>ApprovedAt := t\<rparr> in do {
            wf_log Info ''approval received''
              [(''approvalID'', GStr (ApprovalID req)), (''approved'', GBool (Approved result)),
               (''approverID'', GStr (ApproverID result))];
            return (Some (result, None))
          })
        } else if k = 1 then do {
          wf_log Warn ''approval timed out''
            [(''approvalID'', GStr (ApprovalID req)), (''timeout'', GStr (duration_String (Timeout req)))];
          return (Some (zero_approval\<lparr>TimedOut := True, Approved := False\<rparr>, None))
        } else return None
      })"

lemma run_select_case:
  "run_state (select_case S cs) s =
    (fst (sdk_select S cs (world s)),
     s\<lparr>world := snd (sdk_select S cs (world s)),
       history := history s @ [Selected (fst (sdk_select S cs (world s)))]\<rparr>)"
  by (simp add: select_case_def split_beta)

lemma run_receive_result:
  "run_state (receive_result recv name r0) s =
    (fst (recv r0 (world s)),
     s\<lparr>world := snd (recv r0 (world s)), history := history s @ [SignalReceived name]\<rparr>)"
  by (simp add: receive_result_def split_beta)

text \<open>The choice of the selector that a request of a valid form meets.\<close>

definition approval_choice :: "'w sdk \<Rightarrow> ApprovalRequest \<Rightarrow> 'w wf \<Rightarrow> nat \<times> 'w" where
  "approval_choice S req s = sdk_select S [RecvCase approvalSignalName, TimerCase (Timeout req)] (world s)"

lemma approval_choice_cases:
  assumes "selector_documented S"
  obtains "fst (approval_choice S req s) = 0" | "fst (approval_choice S req s) = 1"
proof -
  have "fst (approval_choice S req s) < length [RecvCase approvalSignalName, TimerCase (Timeout req)]"
    using assms unfolding approval_choice_def selector_documented_def by blast
  then show ?thesis using that by (cases "fst (approval_choice S req s)") auto
qed

definition valid_request :: "ApprovalRequest \<Rightarrow> bool" where
  "valid_request req \<longleftrightarrow> ApprovalID req \<noteq> '''' \<and> 0 < Timeout req"

lemma WaitForApproval_result:
  assumes "valid_request req"
  shows "fst (run_state (WaitForApproval S recv req) s) =
    (if fst (approval_choice S req s) = 0 then
       (let r = fst (recv zero_approval (snd (approval_choice S req s)));
            w = snd (recv zero_approval (snd (approval_choice S req s)))
        in Some (r\<lparr>ApprovedAt := sdk_now S w\<rparr>, None))
     else if fst (approval_choice S req s) = 1 then Some (zero_approval\<lparr>TimedOut := True\<rparr>, None)
     else None)"
  using assms
  by (simp add: WaitForApproval_def valid_request_def approval_choice_def run_select_case
      run_receive_result Let_def zero_approval_def)

lemma WaitForApproval_received:
  assumes "valid_request req"
  shows "SignalReceived approvalSignalName \<in> set (appended (WaitForApproval S recv req) s) \<longleftrightarrow>
    fst (approval_choice S req s) = 0"
  using assms
  by (simp add: WaitForApproval_def valid_request_def approval_choice_def run_select_case
      run_receive_result Let_def appended_def)

lemma WaitForApproval_invalid:
  "\<not> valid_request req \<Longrightarrow> \<exists>msg. run_state (WaitForApproval S recv req) s =
    (Some (zero_approval, Some (ErrorString msg)), s)"
  by (auto simp: WaitForApproval_def valid_request_def)

subsection \<open>Properties\<close>

text \<open>
  C19. Nothing is approved by itself: \<open>WaitForApproval\<close> answers "approved" only when it received
  the signal, and then the signal's payload says so and the decision bears the workflow's time; when
  the time window ends the answer is a rejection marked as timed out, which is no error; a request
  without an id or without a positive timeout is an error, with no approval and nothing done.
\<close>

theorem approval_only_by_signal:
  assumes "selector_documented S"
  shows "\<exists>r err. fst (run_state (WaitForApproval S recv req) s) = Some (r, err) \<and>
    (err \<noteq> None \<longleftrightarrow> \<not> valid_request req) \<and>
    (err \<noteq> None \<longrightarrow> \<not> Approved r \<and> appended (WaitForApproval S recv req) s = []) \<and>
    (Approved r \<longrightarrow> SignalReceived approvalSignalName \<in> set (appended (WaitForApproval S recv req) s) \<and>
       (\<exists>w. Approved (fst (recv zero_approval w)) \<and> ApprovedAt r = sdk_now S (snd (recv zero_approval w)))) \<and>
    (err = None \<and> SignalReceived approvalSignalName \<notin> set (appended (WaitForApproval S recv req) s) \<longrightarrow>
       r = zero_approval\<lparr>TimedOut := True\<rparr>)"
proof (cases "valid_request req")
  case True
  consider "fst (approval_choice S req s) = 0" | "fst (approval_choice S req s) = 1"
    by (rule approval_choice_cases [OF assms])
  then show ?thesis
    by cases (use True in \<open>auto simp: WaitForApproval_result WaitForApproval_received Let_def zero_approval_def\<close>)
next
  case False
  then show ?thesis
    using WaitForApproval_invalid [OF False, of S recv s]
    by (auto simp: appended_def zero_approval_def)
qed

theorem approval_only_by_signal_witness:
  "\<exists>r err. fst (run_state (WaitForApproval (sample_sdk (\<lambda>_. False)) (\<lambda>r w. (r\<lparr>Approved := True\<rparr>, w))
      \<lparr>ApprovalID = ''loan-7'', Description = '''', Timeout = 48 * Hour, Metadata = []\<rparr>) sample_wf) = Some (r, err) \<and>
    err = None \<and> Approved r"
proof -
  let ?S = "sample_sdk (\<lambda>_. False)" and ?recv = "\<lambda>r w. (r\<lparr>Approved := True\<rparr>, w)"
  let ?req = "\<lparr>ApprovalID = ''loan-7'', Description = '''', Timeout = 48 * Hour, Metadata = []\<rparr>"
  have "selector_documented ?S" by (simp add: selector_documented_def sample_sdk_def)
  moreover have v: "valid_request ?req" by (simp add: valid_request_def Hour_def)
  moreover have "fst (run_state (WaitForApproval ?S ?recv ?req) sample_wf) =
      Some (\<lparr>Approved = True, ApproverID = '''', Comment = '''', ApprovedAt = 0, TimedOut = False\<rparr>, None)"
    by (simp add: WaitForApproval_result [OF v] approval_choice_def sample_sdk_def sample_wf_def zero_approval_def zero_time_def)
  ultimately show ?thesis
    using approval_only_by_signal [of ?S ?recv ?req sample_wf] by auto
qed

text \<open>
  The request's id, description and metadata take no part in the decision: requests of valid
  form with the same time window get the same answer from the same execution. The signal has one
  name for all of a workflow's approvals, so a signal meant for one gate can open another.
\<close>

theorem approval_ignores_request_identity:
  assumes "ApprovalID req1 \<noteq> ''''" and "ApprovalID req2 \<noteq> ''''" and "Timeout req1 = Timeout req2"
  shows "fst (run_state (WaitForApproval S recv req1) s) = fst (run_state (WaitForApproval S recv req2) s)"
proof (cases "valid_request req1")
  case True
  then have "valid_request req2" using assms by (simp add: valid_request_def)
  moreover have "approval_choice S req1 s = approval_choice S req2 s"
    by (simp add: approval_choice_def assms(3))
  ultimately show ?thesis using True by (simp only: WaitForApproval_result)
next
  case False
  then show ?thesis using assms by (auto simp: WaitForApproval_def valid_request_def)
qed

theorem approval_ignores_request_identity_witness:
  "fst (run_state (WaitForApproval (sample_sdk (\<lambda>_. False)) (\<lambda>r w. (r\<lparr>Approved := True\<rparr>, w))
      \<lparr>ApprovalID = ''refund'', Description = '''', Timeout = Hour, Metadata = []\<rparr>) sample_wf) =
   fst (run_state (WaitForApproval (sample_sdk (\<lambda>_. False)) (\<lambda>r w. (r\<lparr>Approved := True\<rparr>, w))
      \<lparr>ApprovalID = ''payout'', Description = '''', Timeout = Hour, Metadata = []\<rparr>) sample_wf)"
  by (rule approval_ignores_request_identity) simp_all

end
