(* ===== verification/WorkflowStateTracker.thy ===== *)
theory WorkflowStateTracker
  imports WorkflowEnv
begin

text \<open>
  \<open>workflow/state.go\<close>: the tracker that answers the query for a workflow's stage. \<open>Meta\<close> is a Go
  map, which is a reference: the maps live in a store, and a snapshot holds an address. What
  depends on the aliasing (who sees a later write, whom a caller can disturb) is then visible.
\<close>

subsection \<open>Maps by reference\<close>

type_synonym smap = "string \<rightharpoonup> string"
type_synonym map_store = "smap list"

definition make_map :: "smap \<Rightarrow> map_store \<Rightarrow> nat \<times> map_store" where
  "make_map m ms = (length ms, ms @ [m])"

definition map_assign :: "nat \<Rightarrow> string \<Rightarrow> string \<Rightarrow> map_store \<Rightarrow> map_store" where
  "map_assign a k v ms = ms[a := (ms ! a)(k \<mapsto> v)]"

lemma map_assign_other [simp]: "b \<noteq> a \<Longrightarrow> map_assign a k v ms ! b = ms ! b"
  by (simp add: map_assign_def)

lemma map_assign_same [simp]: "a < length ms \<Longrightarrow> map_assign a k v ms ! a = (ms ! a)(k \<mapsto> v)"
  by (simp add: map_assign_def)

lemma length_map_assign [simp]: "length (map_assign a k v ms) = length ms"
  by (simp add: map_assign_def)

subsection \<open>The tracker\<close>

definition QueryCurrentState :: string where
  "QueryCurrentState = ''temporal-common.current-state''"

record WorkflowStateSnapshot =
  Stage :: string
  StartedAt :: time
  UpdatedAt :: time
  Meta :: nat

text \<open>The tracker's state: its snapshot, and the store its maps are in.\<close>

type_synonym tracker = "WorkflowStateSnapshot \<times> map_store"

definition NewWorkflowState :: "'w sdk \<Rightarrow> map_store \<Rightarrow> ('w, tracker) workflow" where
  "NewWorkflowState S ms = do {
     now \<leftarrow> Now S;
     (case make_map Map.empty ms of (a, ms') \<Rightarrow> do {
       err \<leftarrow> State (\<lambda>s. case sdk_set_query S QueryCurrentState (world s) of (e, w') \<Rightarrow>
                (e, s\<lparr>world := w', history := history s @ [QueryRegistered QueryCurrentState e]\<rparr>));
       _ \<leftarrow> (case err of
              None \<Rightarrow> return ()
            | Some e \<Rightarrow> wf_log Error ''WorkflowState: failed to register query handler''
                [(''error'', GErr e), (''query'', GStr QueryCurrentState)]);
       return (\<lparr>Stage = ''INIT'', StartedAt = now, UpdatedAt = now, Meta = a\<rparr>, ms')
     })
   }"

definition SetStage :: "'w sdk \<Rightarrow> string \<Rightarrow> tracker \<Rightarrow> ('w, tracker) workflow" where
  "SetStage S stage = (\<lambda>(snap, ms). do {
     now \<leftarrow> Now S;
     return (snap\<lparr>Stage := stage, UpdatedAt := now\<rparr>, ms)
   })"

definition SetMeta :: "'w sdk \<Rightarrow> string \<Rightarrow> string \<Rightarrow> tracker \<Rightarrow> ('w, tracker) workflow" where
  "SetMeta S k v = (\<lambda>(snap, ms). do {
     now \<leftarrow> Now S;
     return (snap\<lparr>UpdatedAt := now\<rparr>, map_assign (Meta snap) k v ms)
   })"

definition tracker_Stage :: "tracker \<Rightarrow> string" where
  "tracker_Stage = (\<lambda>(snap, ms). Stage snap)"

text \<open>The registered query handler returns the tracker's own snapshot, map and all.\<close>

definition query_snapshot :: "tracker \<Rightarrow> WorkflowStateSnapshot" where
  "query_snapshot = (\<lambda>(snap, ms). snap)"

text \<open>\<open>Snapshot\<close> copies the map entry by entry into a new one.\<close>

definition Snapshot :: "tracker \<Rightarrow> WorkflowStateSnapshot \<times> tracker" where
  "Snapshot = (\<lambda>(snap, ms).
     (case make_map (ms ! Meta snap) ms of (a, ms') \<Rightarrow> (snap\<lparr>Meta := a\<rparr>, (snap, ms'))))"

subsection \<open>What a snapshot shows\<close>

record state_view =
  v_stage :: string
  v_started :: time
  v_updated :: time
  v_meta :: smap

definition view_of :: "WorkflowStateSnapshot \<Rightarrow> map_store \<Rightarrow> state_view" where
  "view_of snap ms =
     \<lparr>v_stage = Stage snap, v_started = StartedAt snap, v_updated = UpdatedAt snap, v_meta = ms ! Meta snap\<rparr>"

definition tracker_view :: "tracker \<Rightarrow> state_view" where
  "tracker_view = (\<lambda>(snap, ms). view_of snap ms)"

text \<open>
  A run: the workflow sets stages and annotations and takes snapshots, and whoever got the
  \<open>n\<close>-th snapshot writes into its map.
\<close>

datatype tracker_op =
    DoStage string
  | DoMeta string string
  | DoSnapshot
  | CallerWrite nat string string

type_synonym run = "tracker \<times> WorkflowStateSnapshot list"

fun tracker_step :: "'w sdk \<Rightarrow> tracker_op \<Rightarrow> run \<Rightarrow> ('w, run) workflow" where
  "tracker_step S (DoStage st) (t, snaps) = do { t' \<leftarrow> SetStage S st t; return (t', snaps) }"
| "tracker_step S (DoMeta k v) (t, snaps) = do { t' \<leftarrow> SetMeta S k v t; return (t', snaps) }"
| "tracker_step S DoSnapshot (t, snaps) = (case Snapshot t of (sn, t') \<Rightarrow> return (t', snaps @ [sn]))"
| "tracker_step S (CallerWrite n k v) ((snap, ms), snaps) =
     return ((snap, if n < length snaps then map_assign (Meta (snaps ! n)) k v ms else ms), snaps)"

text \<open>Each operation happens in some execution of its own: other code ran, and time passed, between.\<close>

fun tracker_run :: "'w sdk \<Rightarrow> ('w wf \<times> tracker_op) list \<Rightarrow> run \<Rightarrow> run" where
  "tracker_run S [] r = r"
| "tracker_run S ((s, x) # xs) r = tracker_run S xs (fst (run_state (tracker_step S x r) s))"

text \<open>The specification: the same run over plain values, with no store and no addresses.\<close>

fun spec_step :: "time \<Rightarrow> tracker_op \<Rightarrow> state_view \<times> state_view list \<Rightarrow> state_view \<times> state_view list" where
  "spec_step now (DoStage st) (v, vs) = (v\<lparr>v_stage := st, v_updated := now\<rparr>, vs)"
| "spec_step now (DoMeta k x) (v, vs) = (v\<lparr>v_meta := (v_meta v)(k \<mapsto> x), v_updated := now\<rparr>, vs)"
| "spec_step now DoSnapshot (v, vs) = (v, vs @ [v])"
| "spec_step now (CallerWrite n k x) (v, vs) =
     (v, if n < length vs then vs[n := (vs ! n)\<lparr>v_meta := (v_meta (vs ! n))(k \<mapsto> x)\<rparr>] else vs)"

definition run_view :: "run \<Rightarrow> state_view \<times> state_view list" where
  "run_view = (\<lambda>((snap, ms), snaps). (view_of snap ms, map (\<lambda>sn. view_of sn ms) snaps))"

text \<open>No two snapshots share a map, and none shares the tracker's.\<close>

definition separate :: "run \<Rightarrow> bool" where
  "separate = (\<lambda>((snap, ms), snaps).
     distinct (Meta snap # map Meta snaps) \<and> (\<forall>a \<in> set (Meta snap # map Meta snaps). a < length ms))"

fun spec_run :: "'w sdk \<Rightarrow> ('w wf \<times> tracker_op) list \<Rightarrow> state_view \<times> state_view list \<Rightarrow> state_view \<times> state_view list" where
  "spec_run S [] v = v"
| "spec_run S ((s, x) # xs) v = spec_run S xs (spec_step (sdk_now S (world s)) x v)"

lemmas tracker_defs = SetStage_def SetMeta_def Snapshot_def make_map_def view_of_def run_view_def

lemma separate_step: "separate r \<Longrightarrow> separate (fst (run_state (tracker_step S x r) s))"
  by (induction S x r rule: tracker_step.induct)
    (auto simp: separate_def tracker_defs split: prod.splits intro: less_SucI)

lemma view_map_assign_other:
  "Meta sn \<noteq> a \<Longrightarrow> view_of sn (map_assign a k v ms) = view_of sn ms"
  by (simp add: view_of_def)

lemma tracker_step_refines:
  assumes "separate r"
  shows "run_view (fst (run_state (tracker_step S x r) s)) =
    spec_step (sdk_now S (world s)) x (run_view r)"
proof -
  obtain snap ms snaps where r: "r = ((snap, ms), snaps)" by (metis prod.exhaust)
  have sep: "\<forall>sn \<in> set snaps. Meta sn \<noteq> Meta snap" "Meta snap < length ms"
    "\<forall>sn \<in> set snaps. Meta sn < length ms" "distinct (map Meta snaps)"
    using assms by (auto simp: r separate_def) (metis image_eqI)
  show ?thesis
  proof (cases x)
    case (DoMeta k v)
    then show ?thesis
      using sep by (auto simp: r tracker_defs intro!: map_cong)
  next
    case DoSnapshot
    then show ?thesis
      using sep by (auto simp: r tracker_defs nth_append)
  next
    case (CallerWrite n k v)
    show ?thesis
    proof (cases "n < length snaps")
      case True
      have one: "Meta (snaps ! i) = Meta (snaps ! n) \<longleftrightarrow> i = n" if "i < length snaps" for i
        using nth_eq_iff_index_eq [OF sep(4), of i n] that True by simp
      have "map (\<lambda>sn. view_of sn (map_assign (Meta (snaps ! n)) k v ms)) snaps =
          (map (\<lambda>sn. view_of sn ms) snaps)
            [n := (view_of (snaps ! n) ms)\<lparr>v_meta := (v_meta (view_of (snaps ! n) ms))(k \<mapsto> v)\<rparr>]"
        using True sep(3) one by (intro nth_equalityI) (auto simp: view_of_def nth_list_update)
      moreover have "Meta snap \<noteq> Meta (snaps ! n)" using sep(1) True by auto
      ultimately show ?thesis
        using True by (simp add: r CallerWrite run_view_def view_map_assign_other)
    qed (simp add: r CallerWrite run_view_def)
  qed (simp add: r tracker_defs)
qed

lemma tracker_run_refines:
  "separate r \<Longrightarrow> run_view (tracker_run S xs r) = spec_run S xs (run_view r) \<and> separate (tracker_run S xs r)"
  by (induction S xs r rule: tracker_run.induct) (simp_all add: tracker_step_refines separate_step)

text \<open>A new tracker, with no snapshots taken.\<close>

lemma NewWorkflowState_view:
  "separate (fst (run_state (NewWorkflowState S ms) s), []) \<and>
   run_view (fst (run_state (NewWorkflowState S ms) s), []) =
     (\<lparr>v_stage = ''INIT'', v_started = sdk_now S (world s), v_updated = sdk_now S (world s),
       v_meta = Map.empty\<rparr>, [])"
  by (auto simp: NewWorkflowState_def make_map_def separate_def run_view_def view_of_def nth_append
      split: prod.splits option.splits)

subsection \<open>Properties\<close>

text \<open>
  C24. The tracker and its snapshots behave as plain values: through any run of \<open>SetStage\<close>,
  \<open>SetMeta\<close> and \<open>Snapshot\<close>, whatever a caller writes into the maps of the snapshots it got, the
  tracker and every snapshot show what a model without references shows. So a caller cannot
  disturb the tracker, and a snapshot is not changed by later stages or annotations. In that model, as
  in the code, both \<open>SetStage\<close> and \<open>SetMeta\<close> move \<open>UpdatedAt\<close> to the current time, where the comment on
  the field names \<open>SetStage\<close> alone. The findings record this.
\<close>

theorem tracker_refines_values:
  "run_view (tracker_run S xs (fst (run_state (NewWorkflowState S ms) s), [])) =
    spec_run S xs
      (\<lparr>v_stage = ''INIT'', v_started = sdk_now S (world s), v_updated = sdk_now S (world s),
        v_meta = Map.empty\<rparr>, [])"
  using NewWorkflowState_view [of S ms s] tracker_run_refines [of _ S xs] by metis

text \<open>
  What the registered query handler returns is not such a copy: its map is the tracker's, so a
  later \<open>SetMeta\<close> shows in a snapshot obtained from it, where one from \<open>Snapshot\<close> keeps its value.
\<close>

theorem query_result_is_live:
  assumes "separate ((snap, ms), [])"
  shows "let t = (snap, ms); q = query_snapshot t; (sn, t') = Snapshot t;
      (snap'', ms'') = fst (run_state (SetMeta S k v t') s) in
    v_meta (view_of q ms'') = (v_meta (view_of q ms))(k \<mapsto> v) \<and>
    v_meta (view_of sn ms'') = v_meta (view_of q ms)"
  using assms
  by (auto simp: separate_def query_snapshot_def tracker_defs nth_append Let_def)

theorem query_result_is_live_witness:
  "let t = (\<lparr>Stage = ''INIT'', StartedAt = 0, UpdatedAt = 0, Meta = 0\<rparr>, [Map.empty]);
       q = query_snapshot t; (sn, t') = Snapshot t;
       (snap'', ms'') = fst (run_state (SetMeta (sample_sdk (\<lambda>_. False)) ''k'' ''v'' t') sample_wf) in
    v_meta (view_of q ms'') = [''k'' \<mapsto> ''v''] \<and> v_meta (view_of sn ms'') = Map.empty"
  using query_result_is_live [of "\<lparr>Stage = ''INIT'', StartedAt = 0, UpdatedAt = 0, Meta = 0\<rparr>" "[Map.empty]"
      "sample_sdk (\<lambda>_. False)" "''k''" "''v''" sample_wf]
  by (simp add: separate_def query_snapshot_def tracker_defs Let_def split: prod.splits)

end
