(* ===== verification/AuditTrail.thy ===== *)
theory AuditTrail
  imports WorkflowEnv
begin

text \<open>
  \<open>workflow/audit.go\<close>: audit entries, the writer carried in the workflow context, the recording
  functions, and the two writers of the library.
\<close>

datatype AuditEventKind =
  AuditKindStep | AuditKindApproval | AuditKindCompensation | AuditKindStageChange | AuditKindCustom

fun kind_text :: "AuditEventKind \<Rightarrow> string" where
  "kind_text AuditKindStep = ''STEP''"
| "kind_text AuditKindApproval = ''APPROVAL''"
| "kind_text AuditKindCompensation = ''COMPENSATION''"
| "kind_text AuditKindStageChange = ''STAGE_CHANGE''"
| "kind_text AuditKindCustom = ''CUSTOM''"

record AuditEntry =
  Kind :: AuditEventKind
  ae_WorkflowID :: string
  ae_RunID :: string
  ae_OccurredAt :: time
  Step :: string
  Outcome :: string
  Details :: "(string \<times> string) list"

definition entry_val :: "AuditEntry \<Rightarrow> gval" where
  "entry_val e = GStruct ''AuditEntry''
     [(''Kind'', GStr (kind_text (Kind e))), (''WorkflowID'', GStr (ae_WorkflowID e)),
      (''RunID'', GStr (ae_RunID e)), (''OccurredAt'', GTime (ae_OccurredAt e)),
      (''Step'', GStr (Step e)), (''Outcome'', GStr (Outcome e)), (''Details'', GMap (Details e))]"

text \<open>A value of the interface \<open>AuditWriter\<close> is its method.\<close>

type_synonym 'w AuditWriter = "ctx \<Rightarrow> AuditEntry \<Rightarrow> ('w, (gval, unit) outcome) workflow"

text \<open>A context that may carry a writer; a writer itself only uses the options of its context.\<close>

record 'w audit_ctx = ctx +
  auditKey :: "'w AuditWriter option"

definition NoOpAuditWriter :: "'w AuditWriter" where
  "NoOpAuditWriter c e = return (Returned ())"

definition WithAuditTrail :: "'w audit_ctx \<Rightarrow> 'w AuditWriter option \<Rightarrow> 'w audit_ctx" where
  "WithAuditTrail c writer = c\<lparr>auditKey := writer\<rparr>"

definition auditWriterFromCtx :: "'w audit_ctx \<Rightarrow> 'w AuditWriter" where
  "auditWriterFromCtx c = (case auditKey c of Some w \<Rightarrow> w | None \<Rightarrow> NoOpAuditWriter)"

definition currentInfo :: "'w sdk \<Rightarrow> string \<times> string" where
  "currentInfo S = (sdk_WorkflowID S, sdk_RunID S)"

definition buildEntry ::
    "'w sdk \<Rightarrow> AuditEventKind \<Rightarrow> string \<Rightarrow> string \<Rightarrow> (string \<times> string) list \<Rightarrow> ('w, AuditEntry) workflow" where
  "buildEntry S kind step outcome details = do {
     now \<leftarrow> Now S;
     return (case currentInfo S of (wfID, runID) \<Rightarrow>
       \<lparr>Kind = kind, ae_WorkflowID = wfID, ae_RunID = runID, ae_OccurredAt = now, Step = step,
        Outcome = outcome, Details = details\<rparr>)
   }"

text \<open>The recording functions.\<close>

definition AuditStep where
  "AuditStep S c step outcome details = do {
     e \<leftarrow> buildEntry S AuditKindStep step outcome details;
     auditWriterFromCtx c (ctx.truncate c) e
   }"

definition AuditApproval where
  "AuditApproval S c step approved = do {
     e \<leftarrow> buildEntry S AuditKindApproval step (if \<not> approved then ''rejected'' else ''approved'') [];
     auditWriterFromCtx c (ctx.truncate c) e
   }"

definition AuditCompensation where
  "AuditCompensation S c step outcome details = do {
     e \<leftarrow> buildEntry S AuditKindCompensation step outcome details;
     auditWriterFromCtx c (ctx.truncate c) e
   }"

definition AuditStageChange where
  "AuditStageChange S c from_stage to_stage = do {
     e \<leftarrow> buildEntry S AuditKindStageChange ''stage-change'' to_stage
       [(''from'', from_stage), (''to'', to_stage)];
     auditWriterFromCtx c (ctx.truncate c) e
   }"

definition AuditCustom where
  "AuditCustom S c step outcome details = do {
     e \<leftarrow> buildEntry S AuditKindCustom step outcome details;
     auditWriterFromCtx c (ctx.truncate c) e
   }"

subsection \<open>The writer that runs an activity\<close>

record activityAuditWriter =
  aw_activityFn :: gofunc
  aw_optionsFn :: "(ctx \<Rightarrow> ctx) option"

definition defaultAuditActivityOptions :: "ctx \<Rightarrow> ctx" where
  "defaultAuditActivityOptions c = WithActivityOptions c
     \<lparr>ScheduleToCloseTimeout = 0, StartToCloseTimeout = Minute, HeartbeatTimeout = 0,
      RetryPolicy = Some
        \<lparr>InitialInterval = Second, BackoffCoefficient = Fin 2, MaximumInterval = 30 * Second,
         MaximumAttempts = 10, NonRetryableErrorTypes = []\<rparr>\<rparr>"

definition NewActivityAuditWriter :: "gofunc \<Rightarrow> activityAuditWriter" where
  "NewActivityAuditWriter fn = \<lparr>aw_activityFn = fn, aw_optionsFn = Some defaultAuditActivityOptions\<rparr>"

definition NewActivityAuditWriterWithOptions :: "gofunc \<Rightarrow> (ctx \<Rightarrow> ctx) option \<Rightarrow> activityAuditWriter" where
  "NewActivityAuditWriterWithOptions fn optionsFn = \<lparr>aw_activityFn = fn, aw_optionsFn = optionsFn\<rparr>"

text \<open>Calling a nil function panics.\<close>

definition nil_call :: gval where
  "nil_call = GStr ''invalid memory address or nil pointer dereference''"

definition activity_Write :: "'w sdk \<Rightarrow> activityAuditWriter \<Rightarrow> 'w AuditWriter" where
  "activity_Write S w c entry =
     (case aw_optionsFn w of
        None \<Rightarrow> return (Panicked nil_call)
      | Some optionsFn \<Rightarrow> do {
          _ \<leftarrow> run_activity S (optionsFn c) (aw_activityFn w) [entry_val entry];
          return (Returned ())
        })"

subsection \<open>The contract of a writer, and an audit trail over it\<close>

locale audit_writer =
  fixes W :: "'w AuditWriter" and sink :: "gofunc option"
  assumes writer_extends: "extends (W c e)"
    and writer_returns: "fst (run_state (W c e) s) = Returned ()"
    and writer_writes: "started (\<lambda>_. True) (appended (W c e) s) =
      (case sink of None \<Rightarrow> [] | Some fn \<Rightarrow> [(fn, [entry_val e])])"

text \<open>One recording call, with its arguments.\<close>

datatype audit_call =
    StepCall string string "(string \<times> string) list"
  | ApprovalCall string bool
  | CompensationCall string string "(string \<times> string) list"
  | StageChangeCall string string
  | CustomCall string string "(string \<times> string) list"

fun audit :: "'w sdk \<Rightarrow> 'w audit_ctx \<Rightarrow> audit_call \<Rightarrow> ('w, (gval, unit) outcome) workflow" where
  "audit S c (StepCall st r ds) = AuditStep S c st r ds"
| "audit S c (ApprovalCall st b) = AuditApproval S c st b"
| "audit S c (CompensationCall st r ds) = AuditCompensation S c st r ds"
| "audit S c (StageChangeCall a b) = AuditStageChange S c a b"
| "audit S c (CustomCall st r ds) = AuditCustom S c st r ds"

text \<open>What each call has to leave behind, at a time.\<close>

fun expected_entry :: "'w sdk \<Rightarrow> audit_call \<Rightarrow> time \<Rightarrow> AuditEntry" where
  "expected_entry S (StepCall st r ds) t =
     \<lparr>Kind = AuditKindStep, ae_WorkflowID = sdk_WorkflowID S, ae_RunID = sdk_RunID S,
      ae_OccurredAt = t, Step = st, Outcome = r, Details = ds\<rparr>"
| "expected_entry S (ApprovalCall st b) t =
     \<lparr>Kind = AuditKindApproval, ae_WorkflowID = sdk_WorkflowID S, ae_RunID = sdk_RunID S,
      ae_OccurredAt = t, Step = st, Outcome = (if b then ''approved'' else ''rejected''), Details = []\<rparr>"
| "expected_entry S (CompensationCall st r ds) t =
     \<lparr>Kind = AuditKindCompensation, ae_WorkflowID = sdk_WorkflowID S, ae_RunID = sdk_RunID S,
      ae_OccurredAt = t, Step = st, Outcome = r, Details = ds\<rparr>"
| "expected_entry S (StageChangeCall a b) t =
     \<lparr>Kind = AuditKindStageChange, ae_WorkflowID = sdk_WorkflowID S, ae_RunID = sdk_RunID S,
      ae_OccurredAt = t, Step = ''stage-change'', Outcome = b, Details = [(''from'', a), (''to'', b)]\<rparr>"
| "expected_entry S (CustomCall st r ds) t =
     \<lparr>Kind = AuditKindCustom, ae_WorkflowID = sdk_WorkflowID S, ae_RunID = sdk_RunID S,
      ae_OccurredAt = t, Step = st, Outcome = r, Details = ds\<rparr>"

lemmas audit_defs = AuditStep_def AuditApproval_def AuditCompensation_def AuditStageChange_def
  AuditCustom_def buildEntry_def currentInfo_def

lemma audit_alt:
  "audit S c x = do {
     now \<leftarrow> Now S;
     auditWriterFromCtx c (ctx.truncate c) (expected_entry S x now)
   }"
  by (cases x) (simp_all add: audit_defs)

text \<open>A trail: calls one after another, until one panics.\<close>

fun audit_trail :: "'w sdk \<Rightarrow> 'w audit_ctx \<Rightarrow> audit_call list \<Rightarrow> ('w, (gval, unit) outcome) workflow" where
  "audit_trail S c [] = return (Returned ())"
| "audit_trail S c (x # xs) = do {
     r \<leftarrow> audit S c x;
     (case r of Returned _ \<Rightarrow> audit_trail S c xs | Panicked v \<Rightarrow> return (Panicked v))
   }"

context audit_writer
begin

lemma audit_effect:
  assumes "auditWriterFromCtx c = W"
  shows "extends (audit S c x) \<and> fst (run_state (audit S c x) s) = Returned () \<and>
    started (\<lambda>_. True) (appended (audit S c x) s) =
      (case sink of None \<Rightarrow> [] | Some fn \<Rightarrow> [(fn, [entry_val (expected_entry S x (sdk_now S (world s)))])])"
  unfolding audit_alt assms
  by (simp add: frame_intros writer_extends appended_bind writer_returns writer_writes trace_simps)

lemma extends_audit_trail: "auditWriterFromCtx c = W \<Longrightarrow> extends (audit_trail S c xs)"
  by (induction xs) (simp_all add: frame_intros audit_effect split: outcome.split)

lemma audit_trail_effect:
  assumes "auditWriterFromCtx c = W"
  shows "fst (run_state (audit_trail S c xs) s) = Returned () \<and>
    (\<exists>ts. length ts = length xs \<and>
      started (\<lambda>_. True) (appended (audit_trail S c xs) s) =
        (case sink of None \<Rightarrow> [] | Some fn \<Rightarrow> map2 (\<lambda>x t. (fn, [entry_val (expected_entry S x t)])) xs ts))"
proof (induction xs arbitrary: s)
  case (Cons x xs)
  let ?u = "snd (run_state (audit S c x) s)"
  note one = audit_effect [OF assms, of S x s]
  have run: "run_state (audit_trail S c (x # xs)) s = run_state (audit_trail S c xs) ?u"
    using one by (simp add: split_beta)
  have app: "appended (audit_trail S c (x # xs)) s = appended (audit S c x) s @ appended (audit_trail S c xs) ?u"
    using one
    by (simp add: appended_bind frame_intros extends_audit_trail assms split: outcome.split)
  obtain ts where "length ts = length xs"
      "started (\<lambda>_. True) (appended (audit_trail S c xs) ?u) =
        (case sink of None \<Rightarrow> [] | Some fn \<Rightarrow> map2 (\<lambda>x t. (fn, [entry_val (expected_entry S x t)])) xs ts)"
    using Cons.IH [of ?u] by blast
  then show ?case
    using Cons.IH [of ?u] one unfolding run app
    by (intro conjI exI [of _ "sdk_now S (world s) # ts"]) (simp_all add: trace_simps split: option.split)
qed (simp add: trace_simps split: option.split)

end

interpretation noop_audit: audit_writer NoOpAuditWriter None
  by unfold_locales (simp_all add: NoOpAuditWriter_def frame_intros trace_simps)

interpretation activity_audit: audit_writer "activity_Write S (NewActivityAuditWriter fn)" "Some fn"
  for S fn
  by unfold_locales
    (simp_all add: activity_Write_def NewActivityAuditWriter_def frame_intros appended_bind
      appended_run_activity trace_simps split_beta)

subsection \<open>Properties\<close>

text \<open>
  C35. The trail of the default writer is complete and harmless: a sequence of recording calls runs
  to its end whatever becomes of the audit activity, and starts that activity once per call, in
  order, with the entry of the right kind, label, outcome and ids; without a writer in the context
  the same calls start nothing.
\<close>

theorem audit_trail_complete:
  "fst (run_state (audit_trail S (WithAuditTrail c (Some (activity_Write S (NewActivityAuditWriter fn)))) xs) s)
     = Returned () \<and>
   (\<exists>ts. length ts = length xs \<and>
     started (\<lambda>_. True) (appended (audit_trail S (WithAuditTrail c (Some (activity_Write S (NewActivityAuditWriter fn)))) xs) s) =
       map2 (\<lambda>x t. (fn, [entry_val (expected_entry S x t)])) xs ts) \<and>
   fst (run_state (audit_trail S (WithAuditTrail c None) xs) s) = Returned () \<and>
   started (\<lambda>_. True) (appended (audit_trail S (WithAuditTrail c None) xs) s) = []"
proof -
  have "auditWriterFromCtx (WithAuditTrail c (Some (activity_Write S (NewActivityAuditWriter fn)))) =
      activity_Write S (NewActivityAuditWriter fn)"
    "auditWriterFromCtx (WithAuditTrail c None) = NoOpAuditWriter"
    by (simp_all add: auditWriterFromCtx_def WithAuditTrail_def)
  then show ?thesis
    using activity_audit.audit_trail_effect [where S = S and xs = xs and s = s]
      noop_audit.audit_trail_effect [where S = S and xs = xs and s = s] by simp
qed

text \<open>
  A writer made with options and a nil options function, which the DLQ handler's counterpart
  accepts, panics at its first entry: the rest of the trail is lost, and nothing is recorded.
\<close>

theorem nil_audit_options_panic:
  "run_state (audit_trail S (WithAuditTrail c
      (Some (activity_Write S (NewActivityAuditWriterWithOptions fn None)))) (x # xs)) s =
    (Panicked nil_call, s)"
  by (simp add: audit_alt auditWriterFromCtx_def WithAuditTrail_def activity_Write_def
      NewActivityAuditWriterWithOptions_def)

end
