(* ===== verification/Versioning.thy ===== *)
theory Versioning
  imports WorkflowEnv
begin

text \<open>
  \<open>workflow/versioning.go\<close>: named changes over \<open>workflow.GetVersion\<close>.
\<close>

definition DefaultVersion :: int where
  "DefaultVersion = - 1"

text \<open>The set's context plays no further part; its results are a Go map of its own.\<close>

record ChangeSet =
  results :: "string \<rightharpoonup> int"

definition NewChangeSet :: ChangeSet where
  "NewChangeSet = \<lparr>results = Map.empty\<rparr>"

definition GetVersion :: "'w sdk \<Rightarrow> string \<Rightarrow> int \<Rightarrow> int \<Rightarrow> ('w, int) workflow" where
  "GetVersion S name lo hi = State (\<lambda>s.
     case sdk_get_version S name lo hi (world s) of (v, w') \<Rightarrow>
       (v, s\<lparr>world := w', history := history s @ [VersionRead name lo hi v]\<rparr>))"

definition Define :: "'w sdk \<Rightarrow> string \<Rightarrow> int \<Rightarrow> ChangeSet \<Rightarrow> ('w, ChangeSet) workflow" where
  "Define S name maxVersion c = do {
     v \<leftarrow> GetVersion S name DefaultVersion maxVersion;
     return (c\<lparr>results := (results c)(name \<mapsto> v)\<rparr>)
   }"

definition IsEnabled :: "ChangeSet \<Rightarrow> string \<Rightarrow> bool" where
  "IsEnabled c name = (case results c name of None \<Rightarrow> False | Some v \<Rightarrow> 1 \<le> v)"

definition change_Version :: "ChangeSet \<Rightarrow> string \<Rightarrow> int" where
  "change_Version c name = (case results c name of None \<Rightarrow> DefaultVersion | Some v \<Rightarrow> v)"

text \<open>All the \<open>Define\<close> calls of a workflow, in order.\<close>

fun define_all :: "'w sdk \<Rightarrow> (string \<times> int) list \<Rightarrow> ChangeSet \<Rightarrow> ('w, ChangeSet) workflow" where
  "define_all S [] c = return c"
| "define_all S ((name, hi) # ds) c = do { c' \<leftarrow> Define S name hi c; define_all S ds c' }"

text \<open>\<open>GetVersion\<close> answers with a version in the range it was asked for.\<close>

definition versions_documented :: "'w sdk \<Rightarrow> bool" where
  "versions_documented S \<longleftrightarrow>
     (\<forall>name lo hi w. lo \<le> hi \<longrightarrow> lo \<le> fst (sdk_get_version S name lo hi w) \<and> fst (sdk_get_version S name lo hi w) \<le> hi)"

text \<open>The versions a history shows, as a map: the last read of a name counts.\<close>

definition read_version :: "wf_event \<Rightarrow> (string \<rightharpoonup> int) \<Rightarrow> (string \<rightharpoonup> int)" where
  "read_version e m = (case e of VersionRead n lo hi v \<Rightarrow> m(n \<mapsto> v) | _ \<Rightarrow> m)"

definition versions_read :: "wf_event list \<Rightarrow> string \<rightharpoonup> int" where
  "versions_read h = fold read_version h Map.empty"

lemma run_Define:
  "run_state (Define S name hi c) s =
    (c\<lparr>results := (results c)(name \<mapsto> fst (sdk_get_version S name DefaultVersion hi (world s)))\<rparr>,
     s\<lparr>world := snd (sdk_get_version S name DefaultVersion hi (world s)),
       history := history s @ [VersionRead name DefaultVersion hi
         (fst (sdk_get_version S name DefaultVersion hi (world s)))]\<rparr>)"
  by (simp add: Define_def GetVersion_def split_beta)

lemma fold_versions: "fold read_version h m = m ++ versions_read h"
proof (induction h arbitrary: m)
  case (Cons e h)
  have "read_version e m = m ++ read_version e Map.empty"
    by (cases e) (simp_all add: read_version_def)
  moreover have "versions_read (e # h) = read_version e Map.empty ++ versions_read h"
    using Cons [of "read_version e Map.empty"] by (simp add: versions_read_def)
  ultimately show ?case using Cons [of "read_version e m"] by simp
qed (simp add: versions_read_def)

lemma define_all_results:
  "\<exists>es. history (snd (run_state (define_all S ds c) s)) = history s @ es \<and>
    results (fst (run_state (define_all S ds c) s)) = results c ++ versions_read es \<and>
    map (\<lambda>e. case e of VersionRead n lo hi v \<Rightarrow> (n, hi) | _ \<Rightarrow> ('''', 0)) es = ds \<and>
    list_all (\<lambda>e. case e of VersionRead n lo hi v \<Rightarrow> lo = DefaultVersion | _ \<Rightarrow> False) es \<and>
    (versions_documented S \<longrightarrow> list_all (\<lambda>(n, hi). DefaultVersion \<le> hi) ds \<longrightarrow>
      list_all (\<lambda>e. case e of VersionRead n lo hi v \<Rightarrow> lo \<le> v \<and> v \<le> hi | _ \<Rightarrow> False) es)"
proof (induction ds arbitrary: c s)
  case Nil
  show ?case by (intro exI [of _ "[]"]) (simp add: versions_read_def)
next
  case (Cons d ds)
  obtain n hi where d: "d = (n, hi)" by fastforce
  let ?v = "fst (sdk_get_version S n DefaultVersion hi (world s))"
  let ?e = "VersionRead n DefaultVersion hi ?v"
  let ?c = "fst (run_state (Define S n hi c) s)" and ?s = "snd (run_state (Define S n hi c) s)"
  obtain es where es: "history (snd (run_state (define_all S ds ?c) ?s)) = history ?s @ es"
      "results (fst (run_state (define_all S ds ?c) ?s)) = results ?c ++ versions_read es"
      "map (\<lambda>e. case e of VersionRead n lo hi v \<Rightarrow> (n, hi) | _ \<Rightarrow> ('''', 0)) es = ds"
      "list_all (\<lambda>e. case e of VersionRead n lo hi v \<Rightarrow> lo = DefaultVersion | _ \<Rightarrow> False) es"
      "versions_documented S \<longrightarrow> list_all (\<lambda>(n, hi). DefaultVersion \<le> hi) ds \<longrightarrow>
        list_all (\<lambda>e. case e of VersionRead n lo hi v \<Rightarrow> lo \<le> v \<and> v \<le> hi | _ \<Rightarrow> False) es"
    using Cons.IH [of ?c ?s] by blast
  have "versions_read (?e # es) = Map.empty(n \<mapsto> ?v) ++ versions_read es"
    using fold_versions [of es "Map.empty(n \<mapsto> ?v)"] by (simp add: versions_read_def read_version_def)
  moreover have "results ?c = (results c)(n \<mapsto> ?v)" "history ?s = history s @ [?e]"
    by (simp_all add: run_Define)
  moreover have "run_state (define_all S (d # ds) c) s = run_state (define_all S ds ?c) ?s"
    by (simp add: d split_beta)
  ultimately show ?case
    using es
    by (intro exI [of _ "?e # es"]) (auto simp: d versions_documented_def)
qed

subsection \<open>Properties\<close>

text \<open>
  A change set is what the history recorded: after all the \<open>Define\<close> calls, one version has been
  read per call, in order and from \<open>DefaultVersion\<close> up to the given maximum; the set answers with the
  version last read for a name and with \<open>DefaultVersion\<close> for a name never defined; a change is enabled
  exactly when that version is at least 1, so it never is with a maximum below 1 or undefined.
\<close>

theorem change_set_follows_history:
  assumes "versions_documented S" and "list_all (\<lambda>(n, hi). DefaultVersion \<le> hi) ds"
  shows "\<exists>c es. fst (run_state (define_all S ds NewChangeSet) s) = c \<and>
    appended (define_all S ds NewChangeSet) s = es \<and>
    map (\<lambda>e. case e of VersionRead n lo hi v \<Rightarrow> (n, hi) | _ \<Rightarrow> ('''', 0)) es = ds \<and>
    change_Version c name = (case versions_read es name of None \<Rightarrow> DefaultVersion | Some v \<Rightarrow> v) \<and>
    (IsEnabled c name \<longleftrightarrow> 1 \<le> change_Version c name) \<and>
    (IsEnabled c name \<longrightarrow> (\<exists>hi \<ge> 1. (name, hi) \<in> set ds))"
proof -
  let ?c = "fst (run_state (define_all S ds NewChangeSet) s)"
  obtain es where es: "history (snd (run_state (define_all S ds NewChangeSet) s)) = history s @ es"
      "results ?c = versions_read es"
      "map (\<lambda>e. case e of VersionRead n lo hi v \<Rightarrow> (n, hi) | _ \<Rightarrow> ('''', 0)) es = ds"
      "list_all (\<lambda>e. case e of VersionRead n lo hi v \<Rightarrow> lo \<le> v \<and> v \<le> hi | _ \<Rightarrow> False) es"
    using define_all_results [of S ds NewChangeSet s] assms by (auto simp: NewChangeSet_def)
  have read: "versions_read h n = Some v \<Longrightarrow> \<exists>lo hi. VersionRead n lo hi v \<in> set h" for h n v
    by (induction h rule: rev_induct)
      (auto simp: versions_read_def read_version_def split: wf_event.splits if_splits)
  have en: "IsEnabled ?c name \<longleftrightarrow> 1 \<le> change_Version ?c name"
    by (simp add: IsEnabled_def change_Version_def DefaultVersion_def split: option.split)
  have "\<exists>hi \<ge> 1. (name, hi) \<in> set ds" if on: "IsEnabled ?c name"
  proof -
    obtain v where "versions_read es name = Some v" "1 \<le> v"
      using on es(2) by (cases "versions_read es name") (auto simp: IsEnabled_def)
    then obtain lo hi where e: "VersionRead name lo hi v \<in> set es" using read by blast
    with es(4) have "v \<le> hi" by (auto simp: list_all_iff)
    moreover have "(name, hi) \<in> set ds" using e es(3) by (force simp flip: es(3))
    ultimately show ?thesis using \<open>1 \<le> v\<close> by (intro exI [of _ hi]) simp
  qed
  with es en show ?thesis
    by (intro exI [of _ ?c] exI [of _ es]) (simp add: appended_def change_Version_def)
qed

theorem change_set_follows_history_witness:
  "IsEnabled (fst (run_state (define_all (sample_sdk (\<lambda>_. False))
     [(''add-fraud-check'', 1), (''old'', 0)] NewChangeSet) sample_wf)) ''add-fraud-check'' \<and>
   \<not> IsEnabled (fst (run_state (define_all (sample_sdk (\<lambda>_. False))
     [(''add-fraud-check'', 1), (''old'', 0)] NewChangeSet) sample_wf)) ''old''"
proof -
  have doc: "versions_documented (sample_sdk (\<lambda>_. False))"
    by (simp add: versions_documented_def sample_sdk_def)
  have "list_all (\<lambda>(n, hi). DefaultVersion \<le> hi) [(''add-fraud-check'', 1), (''old'', 0)]"
    by (simp add: DefaultVersion_def)
  from change_set_follows_history [OF doc this, of sample_wf "''old''"]
  have "\<not> IsEnabled (fst (run_state (define_all (sample_sdk (\<lambda>_. False))
     [(''add-fraud-check'', 1), (''old'', 0)] NewChangeSet) sample_wf)) ''old''"
    by auto
  then show ?thesis
    by (simp add: run_Define NewChangeSet_def IsEnabled_def sample_sdk_def)
qed

end
