(* ===== verification/Scheduler.thy ===== *)
theory Scheduler
  imports SdkTypes
begin

text \<open>
  \<open>workflow/scheduler.go\<close>: creating and deleting schedules. The schedule client is the SDK's: its
  \<open>Create\<close> and \<open>Delete\<close> are arguments, over an unknown server state.
\<close>

record ScheduleOptions =
  ScheduleID :: string
  CronExpression :: string
  Interval :: duration
  StartTime :: time
  EndTime :: time
  so_TaskQueue :: string
  so_WorkflowExecutionTimeout :: duration

text \<open>The request to the server. A start or end that is not set is the zero time.\<close>

record ScheduleSpec =
  CronExpressions :: "string list"
  Intervals :: "duration list"
  StartAt :: time
  EndAt :: time

datatype overlap = OVERLAP_SKIP

record schedule_request =
  sr_ID :: string
  sr_Spec :: ScheduleSpec
  sr_Workflow :: gofunc
  sr_Args :: "gval list"
  sr_TaskQueue :: string
  sr_WorkflowExecutionTimeout :: duration
  sr_Overlap :: overlap

definition schedule_spec :: "ScheduleOptions \<Rightarrow> ScheduleSpec" where
  "schedule_spec opts =
     (let spec = \<lparr>CronExpressions = [], Intervals = [], StartAt = zero_time, EndAt = zero_time\<rparr>;
          spec = (if CronExpression opts \<noteq> '''' then spec\<lparr>CronExpressions := [CronExpression opts]\<rparr>
                  else spec\<lparr>Intervals := [Interval opts]\<rparr>);
          spec = (if \<not> time_IsZero (StartTime opts) then spec\<lparr>StartAt := StartTime opts\<rparr> else spec);
          spec = (if \<not> time_IsZero (EndTime opts) then spec\<lparr>EndAt := EndTime opts\<rparr> else spec)
      in spec)"

definition CreateSchedule ::
    "(schedule_request \<Rightarrow> 'st \<Rightarrow> go_error option \<times> 'st) \<Rightarrow> string \<Rightarrow> gofunc \<Rightarrow> gval \<Rightarrow> ScheduleOptions \<Rightarrow>
     'st \<Rightarrow> go_error option \<times> 'st" where
  "CreateSchedule create taskQueue workflowFn workflowArgs opts st =
     (if ScheduleID opts = '''' then (Some (ErrorString ''CreateSchedule: ScheduleID is required''), st)
      else if CronExpression opts = '''' \<and> Interval opts = 0 then
        (Some (ErrorString ''CreateSchedule: one of CronExpression or Interval is required''), st)
      else
        (let tq = (if so_TaskQueue opts = '''' then taskQueue else so_TaskQueue opts) in
         case create
           \<lparr>sr_ID = ScheduleID opts, sr_Spec = schedule_spec opts, sr_Workflow = workflowFn,
            sr_Args = [workflowArgs], sr_TaskQueue = tq,
            sr_WorkflowExecutionTimeout = so_WorkflowExecutionTimeout opts, sr_Overlap = OVERLAP_SKIP\<rparr> st of
           (Some err, st') \<Rightarrow>
             (Some (WrapError (''create schedule '' @ go_quote (ScheduleID opts) @ '': '') err), st')
         | (None, st') \<Rightarrow> (None, st')))"

definition DeleteSchedule ::
    "(string \<Rightarrow> 'st \<Rightarrow> go_error option \<times> 'st) \<Rightarrow> string \<Rightarrow> 'st \<Rightarrow> go_error option \<times> 'st" where
  "DeleteSchedule delete scheduleID st =
     (case delete scheduleID st of
        (Some err, st') \<Rightarrow> (Some (WrapError (''delete schedule '' @ go_quote scheduleID @ '': '') err), st')
      | (None, st') \<Rightarrow> (None, st'))"

text \<open>A server that answers from a list of known schedules and keeps every request it was sent.\<close>

definition logging_create :: "(string \<Rightarrow> go_error option) \<Rightarrow> schedule_request \<Rightarrow> schedule_request list \<Rightarrow>
    go_error option \<times> schedule_request list" where
  "logging_create answer r sent = (answer (sr_ID r), sent @ [r])"

definition schedulable :: "ScheduleOptions \<Rightarrow> bool" where
  "schedulable opts \<longleftrightarrow> ScheduleID opts \<noteq> '''' \<and> (CronExpression opts \<noteq> '''' \<or> Interval opts \<noteq> 0)"

subsection \<open>Properties\<close>

text \<open>
  Whatever the options, \<open>CreateSchedule\<close> sends at most one request, and exactly one when the
  options name a schedule and a trigger; the request has exactly one trigger, skips overlapping
  runs, and runs on the queue of the options before the engine's; the error it returns is nil only
  if the server took it, and keeps the server's error on its chain. The options' comments call cron
  and interval mutually exclusive: with both set nothing is refused, and the interval is dropped.
\<close>

theorem schedule_sends_one_trigger:
  "let (err, sent) = CreateSchedule (logging_create answer) tq fn args opts [] in
    (sent = [] \<longleftrightarrow> \<not> schedulable opts) \<and> length sent \<le> 1 \<and>
    (err = None \<longleftrightarrow> schedulable opts \<and> answer (ScheduleID opts) = None) \<and>
    list_all (\<lambda>r. length (CronExpressions (sr_Spec r)) + length (Intervals (sr_Spec r)) = 1 \<and>
      (Intervals (sr_Spec r) = [Interval opts] \<longleftrightarrow> CronExpression opts = '''') \<and>
      sr_Overlap r = OVERLAP_SKIP \<and> sr_ID r = ScheduleID opts \<and>
      sr_TaskQueue r = (if so_TaskQueue opts = '''' then tq else so_TaskQueue opts)) sent \<and>
    (schedulable opts \<longrightarrow> Option.bind err as_application_error =
      Option.bind (answer (ScheduleID opts)) as_application_error)"
  by (auto simp: CreateSchedule_def logging_create_def schedulable_def schedule_spec_def Let_def
      split: option.split)

theorem schedule_sends_one_trigger_witness:
  "snd (CreateSchedule (logging_create (\<lambda>_. None)) ''q'' ''Report'' GNil
     \<lparr>ScheduleID = ''daily'', CronExpression = ''0 6 * * *'', Interval = Hour, StartTime = zero_time,
      EndTime = zero_time, so_TaskQueue = '''', so_WorkflowExecutionTimeout = 0\<rparr> []) \<noteq> []"
  using schedule_sends_one_trigger [of "\<lambda>_. None" "''q''" "''Report''" GNil
     "\<lparr>ScheduleID = ''daily'', CronExpression = ''0 6 * * *'', Interval = Hour, StartTime = zero_time,
      EndTime = zero_time, so_TaskQueue = '''', so_WorkflowExecutionTimeout = 0\<rparr>"]
  by (simp add: schedulable_def split_beta)

end
