(* ===== verification/ExampleWorkflows.thy ===== *)
theory ExampleWorkflows
  imports SagaRollback Approval Versioning
begin

text \<open>
  The two example workflows, \<open>examples/payment-saga/workflow.go\<close> and
  \<open>examples/loan-disbursement/workflow.go\<close>: how the parts of the library work together.
\<close>

subsection \<open>Activity results and the deferred rollback\<close>

text \<open>
  A result variable is a Go struct; what was decoded into it is read by field, with the field's zero
  value where the payload has none.
\<close>

definition field_of :: "gval \<Rightarrow> string \<Rightarrow> gval option" where
  "field_of v n = (case v of GStruct t fs \<Rightarrow> map_of fs n | _ \<Rightarrow> None)"

definition str_field :: "string \<Rightarrow> gval \<Rightarrow> string" where
  "str_field n v = (case field_of v n of Some (GStr s) \<Rightarrow> s | _ \<Rightarrow> '''')"

definition bool_field :: "string \<Rightarrow> gval \<Rightarrow> bool" where
  "bool_field n v = (case field_of v n of Some (GBool b) \<Rightarrow> b | _ \<Rightarrow> False)"

definition int_field :: "string \<Rightarrow> gval \<Rightarrow> int" where
  "int_field n v = (case field_of v n of Some (GInt i) \<Rightarrow> i | _ \<Rightarrow> 0)"

text \<open>
  \<open>defer saga.Compensate()\<close>: the body ends with the saga as its calls left it and with its return
  value; then the saga is compensated. A body that blocks for ever (None) never gets there.
\<close>

definition defer_compensate ::
    "'w sdk \<Rightarrow> ('w, ('w Saga \<times> 'r) option) workflow \<Rightarrow> ('w, 'r option) workflow" where
  "defer_compensate S body = do {
     r \<leftarrow> body;
     (case r of
        None \<Rightarrow> return None
      | Some (saga, res) \<Rightarrow> do { Compensate S saga; return (Some res) })
   }"

subsection \<open>The payment saga\<close>

record PaymentInput =
  PaymentID :: string
  FromAcct :: string
  ToAcct :: string
  pay_Amount :: f64

definition payment_val :: "PaymentInput \<Rightarrow> gval" where
  "payment_val input = GStruct ''PaymentInput''
     [(''PaymentID'', GStr (PaymentID input)), (''FromAcct'', GStr (FromAcct input)),
      (''ToAcct'', GStr (ToAcct input)), (''Amount'', GFloat (pay_Amount input))]"

definition payment_body ::
    "'w sdk \<Rightarrow> ctx \<Rightarrow> PaymentInput \<Rightarrow> ('w, ('w Saga \<times> go_error option) option) workflow" where
  "payment_body S c input = (
     let saga = NewSaga S c []; finCtx = WithFinancialAPIOptions c in do {
       debit \<leftarrow> run_activity S finCtx ''DebitActivity'' [payment_val input];
       (case debit of
          Inl err \<Rightarrow> return (Some (saga, Some (WrapError ''debit failed: '' err)))
        | Inr d \<Rightarrow>
            let saga = AddCompensation ''ReverseDebitActivity'' [GStr (str_field ''TxID'' d)] saga in do {
              credit \<leftarrow> run_activity S finCtx ''CreditActivity'' [payment_val input];
              (case credit of
                 Inl err \<Rightarrow> return (Some (saga, Some (WrapError ''credit failed: '' err)))
               | Inr _ \<Rightarrow> return (Some (Complete saga, None)))
            })
     })"

definition PaymentSagaWorkflow ::
    "'w sdk \<Rightarrow> ctx \<Rightarrow> PaymentInput \<Rightarrow> ('w, go_error option option) workflow" where
  "PaymentSagaWorkflow S c input = defer_compensate S (payment_body S c input)"

subsection \<open>The loan disbursement\<close>

record LoanDisbursementInput =
  LoanID :: string
  BorrowerID :: string
  loan_Amount :: f64
  AccountNumber :: string
  RequiresApproval :: bool

record LoanDisbursementResult =
  TransactionID :: string
  DisbursedAt :: time

text \<open>The payloads of the activities, as the struct types of \<open>activities.go\<close> encode them.\<close>

definition KYCInput :: "string \<Rightarrow> gval" where
  "KYCInput borrowerID = GStruct ''KYCInput'' [(''BorrowerID'', GStr borrowerID)]"

definition ReserveFundsInput :: "string \<Rightarrow> f64 \<Rightarrow> gval" where
  "ReserveFundsInput loanID amount =
     GStruct ''ReserveFundsInput'' [(''LoanID'', GStr loanID), (''Amount'', GFloat amount)]"

definition DisbursementInput :: "string \<Rightarrow> string \<Rightarrow> f64 \<Rightarrow> string \<Rightarrow> gval" where
  "DisbursementInput loanID reservationID amount accountNumber = GStruct ''DisbursementInput''
     [(''LoanID'', GStr loanID), (''ReservationID'', GStr reservationID),
      (''Amount'', GFloat amount), (''AccountNumber'', GStr accountNumber)]"

definition NotifyInput :: "string \<Rightarrow> string \<Rightarrow> string \<Rightarrow> gval" where
  "NotifyInput borrowerID loanID transactionID = GStruct ''NotifyInput''
     [(''BorrowerID'', GStr borrowerID), (''LoanID'', GStr loanID), (''TransactionID'', GStr transactionID)]"

definition ReleaseReservationInput :: "string \<Rightarrow> string \<Rightarrow> gval" where
  "ReleaseReservationInput reservationID reason = GStruct ''ReleaseReservationInput''
     [(''ReservationID'', GStr reservationID), (''Reason'', GStr reason)]"

lemmas payload_defs = KYCInput_def ReserveFundsInput_def DisbursementInput_def NotifyInput_def
  ReleaseReservationInput_def

definition kyc_arg :: "LoanDisbursementInput \<Rightarrow> gval" where
  "kyc_arg input = KYCInput (BorrowerID input)"

definition reserve_arg :: "LoanDisbursementInput \<Rightarrow> gval" where
  "reserve_arg input = ReserveFundsInput (LoanID input) (loan_Amount input)"

definition release_arg :: "string \<Rightarrow> gval" where
  "release_arg rsv = ReleaseReservationInput rsv (''disbursement failed '' @ em_dash @ '' rolling back'')"

definition disburse_arg :: "LoanDisbursementInput \<Rightarrow> string \<Rightarrow> gval" where
  "disburse_arg input rsv = DisbursementInput (LoanID input) rsv (loan_Amount input) (AccountNumber input)"

definition notify_arg :: "LoanDisbursementInput \<Rightarrow> string \<Rightarrow> gval" where
  "notify_arg input tx = NotifyInput (BorrowerID input) (LoanID input) tx"

definition kyc_change :: string where
  "kyc_change = ''add-kyc-score-check-2024-01''"

text \<open>The search attribute keys.\<close>

definition saLoanID :: string where "saLoanID = ''LoanID''"
definition saBorrowerID :: string where "saBorrowerID = ''BorrowerID''"
definition saStage :: string where "saStage = ''Stage''"

definition upsert_stage :: "string \<Rightarrow> ('w, unit) workflow" where
  "upsert_stage st = emit (Upserted [(saStage, st)])"

type_synonym loan_end = "go_error + LoanDisbursementResult"

text \<open>Steps 3 to 5: reserve, register the release, disburse, notify.\<close>

definition loan_disburse ::
    "'w sdk \<Rightarrow> ctx \<Rightarrow> LoanDisbursementInput \<Rightarrow> 'w Saga \<Rightarrow> ('w, ('w Saga \<times> loan_end) option) workflow" where
  "loan_disburse S c input saga = do {
     upsert_stage ''DISBURSING'';
     let finCtx = WithFinancialAPIOptions c;
     r \<leftarrow> run_activity S finCtx ''ReserveFundsActivity'' [reserve_arg input];
     (case r of
        Inl err \<Rightarrow> return (Some (saga, Inl (WrapError ''reserve funds failed: '' err)))
      | Inr v \<Rightarrow>
          let rsv = str_field ''ReservationID'' v;
              saga = SetPivot (AddCompensation ''ReleaseReservationActivity'' [release_arg rsv] saga)
          in do {
            d \<leftarrow> run_activity S finCtx ''DisbursementActivity'' [disburse_arg input rsv];
            (case d of
               Inl err \<Rightarrow> return (Some (saga, Inl (WrapError ''disbursement failed: '' err)))
             | Inr v \<Rightarrow> do {
                 upsert_stage ''NOTIFYING'';
                 _ \<leftarrow> run_activity S (WithNotificationOptions c) ''NotifyBorrowerActivity''
                   [notify_arg input (str_field ''TransactionID'' v)];
                 upsert_stage ''COMPLETED'';
                 t \<leftarrow> Now S;
                 return (Some (Complete saga,
                   Inr \<lparr>TransactionID = str_field ''TransactionID'' v, DisbursedAt = t\<rparr>))
               })
          })
   }"

text \<open>Step 2: the approval gate. Its answer is the error to return with, if any.\<close>

definition needs_approval :: "LoanDisbursementInput \<Rightarrow> bool" where
  "needs_approval input \<longleftrightarrow> RequiresApproval input \<or> f64_greater (loan_Amount input) 100000"

definition approval_request :: "(f64 \<Rightarrow> string) \<Rightarrow> LoanDisbursementInput \<Rightarrow> ApprovalRequest" where
  "approval_request fmt input =
     \<lparr>ApprovalID = LoanID input,
      Description = ''Approve loan '' @ fmt (loan_Amount input) @ '' for borrower '' @ BorrowerID input,
      Timeout = 48 * Hour, Metadata = []\<rparr>"

definition loan_gate ::
    "'w sdk \<Rightarrow> (ApprovalResult \<Rightarrow> 'w \<Rightarrow> ApprovalResult \<times> 'w) \<Rightarrow> (f64 \<Rightarrow> string) \<Rightarrow> LoanDisbursementInput \<Rightarrow>
     ('w, go_error option option) workflow" where
  "loan_gate S recv fmt input =
     (if needs_approval input then do {
        upsert_stage ''AWAITING_APPROVAL'';
        r \<leftarrow> WaitForApproval S recv (approval_request fmt input);
        return (case r of
           None \<Rightarrow> None
         | Some (approval, Some err) \<Rightarrow> Some (Some err)
         | Some (approval, None) \<Rightarrow>
             if \<not> Approved approval
             then Some (Some (NewBusinessError ''LoanRejected'' ''loan application was not approved'' None))
             else Some None)
      } else return (Some None))"

text \<open>Step 1: the KYC check and its two refusals.\<close>

definition kyc_refusal :: "ChangeSet \<Rightarrow> gval \<Rightarrow> go_error option" where
  "kyc_refusal changes kyc =
     (if \<not> bool_field ''Approved'' kyc then
        Some (NewBusinessError ''BorrowerBlacklisted'' ''KYC check rejected borrower'' None)
      else if IsEnabled changes kyc_change \<and> int_field ''Score'' kyc < 600 then
        Some (NewBusinessError ''InsufficientCreditScore'' ''credit score below minimum threshold'' None)
      else None)"

text \<open>What runs before the deferred rollback.\<close>

definition loan_body ::
    "'w sdk \<Rightarrow> (ApprovalResult \<Rightarrow> 'w \<Rightarrow> ApprovalResult \<times> 'w) \<Rightarrow> (f64 \<Rightarrow> string) \<Rightarrow> ctx \<Rightarrow>
     LoanDisbursementInput \<Rightarrow> ChangeSet \<Rightarrow> ('w, ('w Saga \<times> loan_end) option) workflow" where
  "loan_body S recv fmt c input changes = (
     let saga = NewSaga S c [] in do {
       k \<leftarrow> run_activity S (WithInternalServiceOptions c) ''KYCCheckActivity'' [kyc_arg input];
       (case k of
          Inl err \<Rightarrow> return (Some (saga, Inl (WrapError ''KYC check failed: '' err)))
        | Inr kyc \<Rightarrow>
            (case kyc_refusal changes kyc of
               Some err \<Rightarrow> return (Some (saga, Inl err))
             | None \<Rightarrow> do {
                 g \<leftarrow> loan_gate S recv fmt input;
                 (case g of
                    None \<Rightarrow> return None
                  | Some (Some err) \<Rightarrow> return (Some (saga, Inl err))
                  | Some None \<Rightarrow> loan_disburse S c input saga)
               }))
     })"

text \<open>
  The whole workflow. \<open>recv\<close> is the SDK's receive on the signal channel and \<open>fmt\<close> the verb \<open>%.2f\<close>,
  which only reaches the description of the approval request.
\<close>

definition LoanDisbursementWorkflow ::
    "'w sdk \<Rightarrow> (ApprovalResult \<Rightarrow> 'w \<Rightarrow> ApprovalResult \<times> 'w) \<Rightarrow> (f64 \<Rightarrow> string) \<Rightarrow> ctx \<Rightarrow>
     LoanDisbursementInput \<Rightarrow> ('w, loan_end option) workflow" where
  "LoanDisbursementWorkflow S recv fmt c input = do {
     wf_log Info ''loan disbursement started'' [(''loanID'', GStr (LoanID input))];
     changes \<leftarrow> Define S kyc_change 1 NewChangeSet;
     emit (Upserted [(saLoanID, LoanID input), (saBorrowerID, BorrowerID input), (saStage, ''INIT'')]);
     defer_compensate S (loan_body S recv fmt c input changes)
   }"

subsection \<open>Symbolic execution\<close>

lemma run_activity_cases:
  obtains r s' f w w' where "run_state (run_activity S c fn as) s = (r, s')"
    and "history s' = history s @ [Scheduled f, Awaited f (sum_error r)]"
    and "f_fn f = fn" "f_args f = as" "f_opts f = ctx_opts c" "sdk_get S f w = (r, w')"
proof -
  obtain r s' where run: "run_state (run_activity S c fn as) s = (r, s')" by fastforce
  show ?thesis
    by (rule that [OF run, of "call_future c fn as (next_future s)"
          "sdk_schedule S (call_future c fn as (next_future s)) (world s)" "world s'"])
      (use run_activity_effects [OF run] in auto)
qed

lemma Compensate_activities_none:
  assumes "dlqHandler sg = None"
  shows "activities (appended (Compensate S sg) w) =
    (if completed sg then [] else map activityFn (rev (compensations sg)))"
proof -
  have h: "effective_handler sg = no_handler" using assms by (simp add: effective_handler_def)
  have step: "activities (appended (compensate_step S sg cc i st) w) = [activityFn st]" for cc i st w
  proof -
    obtain r w' where "appended (compensate_step S sg cc i st) w =
        step_log sg i st # comp_run (call_future cc (activityFn st) (args st) (next_future w)) r @
        (case r of None \<Rightarrow> [] | Some err \<Rightarrow>
           failure_log sg st err # appended (report_to_dlq S sg i st err) w')"
      using no_dlq.appended_step [OF h, where S = S and cc = cc and i = i and c = st and w = w] by blast
    then show ?thesis
      by (cases r) (simp_all add: comp_run_def trace_simps report_to_dlq_def assms)
  qed
  have "activities (appended (compensate_from S sg cc n) w) =
      map activityFn (rev (take n (compensations sg)))" if "n \<le> length (compensations sg)" for cc n w
    using that
    by (induction n arbitrary: w)
      (simp_all add: appended_bind no_dlq.extends_step [OF h] no_dlq.extends_compensate_from [OF h]
        trace_simps step rev_take_Suc)
  then show ?thesis
    by (simp add: Compensate_def Let_def appended_bind frame_intros
        no_dlq.extends_compensate_from [OF h] trace_simps)
qed

text \<open>The rollback of a saga without a handler, as one step of an execution.\<close>

lemma run_Compensate_none:
  assumes "dlqHandler sg = None"
  obtains s' es where "run_state (Compensate S sg) s = ((), s')" "history s' = history s @ es"
    "activities es = (if completed sg then [] else map activityFn (rev (compensations sg)))"
    "started is_comp es = (if completed sg then [] else map step_call (rev (compensations sg)))"
proof -
  have h: "effective_handler sg = no_handler" using assms by (simp add: effective_handler_def)
  show ?thesis
    by (rule that [of "snd (run_state (Compensate S sg) s)" "appended (Compensate S sg) s"])
      (simp_all add: prod_eq_iff history_appended no_dlq.extends_Compensate [OF h]
        Compensate_activities_none [OF assms] no_dlq.started_Compensate [OF h])
qed

lemma NewSaga_nil [simp]:
  "compensations (NewSaga S c []) = []" "completed (NewSaga S c []) = False"
  "dlqHandler (NewSaga S c []) = None"
  by (simp_all add: NewSaga_def)

lemma preset_opts [simp]:
  "ctx_opts (WithFinancialAPIOptions c) = Some financialAPIOptions"
  "ctx_opts (WithInternalServiceOptions c) = Some internalServiceOptions"
  "ctx_opts (WithNotificationOptions c) = Some notificationOptions"
  by (simp_all add: WithFinancialAPIOptions_def WithInternalServiceOptions_def WithNotificationOptions_def)

lemma run_defer_compensate:
  assumes "run_state body s = (Some (sg, res), s1)" "dlqHandler sg = None"
  obtains s' es where "run_state (defer_compensate S body) s = (Some res, s')" "history s' = history s1 @ es"
    "activities es = (if completed sg then [] else map activityFn (rev (compensations sg)))"
    "started is_comp es = (if completed sg then [] else map step_call (rev (compensations sg)))"
proof -
  obtain s' es where "run_state (Compensate S sg) s1 = ((), s')" "history s' = history s1 @ es"
    "activities es = (if completed sg then [] else map activityFn (rev (compensations sg)))"
    "started is_comp es = (if completed sg then [] else map step_call (rev (compensations sg)))"
    by (rule run_Compensate_none [OF assms(2)])
  then show ?thesis
    by (intro that [of s' es]) (simp_all add: defer_compensate_def assms(1))
qed

text \<open>
  The answer of a workflow is the answer of its body alone: whatever the rollback meets, no
  \<open>CompensationError\<close> takes its place.
\<close>

lemma fst_defer_compensate:
  "fst (run_state (defer_compensate S body) s) = map_option snd (fst (run_state body s))"
  by (simp add: defer_compensate_def split_beta split: option.split)

text \<open>The activity of this name was awaited and ended with this error.\<close>

definition ended_with :: "wf_event list \<Rightarrow> gofunc \<Rightarrow> go_error \<Rightarrow> bool" where
  "ended_with es fn e \<longleftrightarrow> (\<exists>f. f_fn f = fn \<and> Awaited f (Some e) \<in> set es)"

lemma ended_with_simps [trace_simps]:
  "ended_with [] fn e \<longleftrightarrow> False"
  "ended_with (es @ es') fn e \<longleftrightarrow> ended_with es fn e \<or> ended_with es' fn e"
  "ended_with (Awaited f r # es) fn e \<longleftrightarrow> f_fn f = fn \<and> r = Some e \<or> ended_with es fn e"
  "ended_with (Scheduled f # es) fn e \<longleftrightarrow> ended_with es fn e"
  "ended_with (Upserted as # es) fn e \<longleftrightarrow> ended_with es fn e"
  "ended_with (Logged l m kvs # es) fn e \<longleftrightarrow> ended_with es fn e"
  "ended_with (VersionRead n lo hi v # es) fn e \<longleftrightarrow> ended_with es fn e"
  by (auto simp: ended_with_def)

subsection \<open>The payment saga rolls back a debit without its credit\<close>

lemma payment_outcomes_lemma:
  "(\<exists>e. fst (run_state (PaymentSagaWorkflow S c input) s) = Some (Some (WrapError ''debit failed: '' e)) \<and>
      activities (appended (PaymentSagaWorkflow S c input) s) = [''DebitActivity''] \<and>
      started is_comp (appended (PaymentSagaWorkflow S c input) s) = []) \<or>
   (\<exists>e d f w. fst (run_state (PaymentSagaWorkflow S c input) s) = Some (Some (WrapError ''credit failed: '' e)) \<and>
      ended_with (appended (PaymentSagaWorkflow S c input) s) ''CreditActivity'' e \<and>
      activities (appended (PaymentSagaWorkflow S c input) s) =
        [''DebitActivity'', ''CreditActivity'', ''ReverseDebitActivity''] \<and>
      started is_comp (appended (PaymentSagaWorkflow S c input) s) =
        [(''ReverseDebitActivity'', [GStr (str_field ''TxID'' d)])] \<and>
      f_fn f = ''DebitActivity'' \<and> f_args f = [payment_val input] \<and> fst (sdk_get S f w) = Inr d) \<or>
   fst (run_state (PaymentSagaWorkflow S c input) s) = Some None \<and>
      activities (appended (PaymentSagaWorkflow S c input) s) = [''DebitActivity'', ''CreditActivity''] \<and>
      started is_comp (appended (PaymentSagaWorkflow S c input) s) = []"
proof -
  let ?fin = "WithFinancialAPIOptions c" and ?W = "PaymentSagaWorkflow S c input"
  obtain r s1 f w w' where 1: "run_state (run_activity S ?fin ''DebitActivity'' [payment_val input]) s = (r, s1)"
      "history s1 = history s @ [Scheduled f, Awaited f (sum_error r)]" "f_fn f = ''DebitActivity''" "f_args f = [payment_val input]"
      "f_opts f = Some financialAPIOptions" "sdk_get S f w = (r, w')"
    by (rule run_activity_cases [of S ?fin "''DebitActivity''" "[payment_val input]" s]) auto
  show ?thesis
  proof (cases r)
    case (Inl e)
    have "run_state (payment_body S c input) s = (Some (NewSaga S c [], Some (WrapError ''debit failed: '' e)), s1)"
      by (simp add: payment_body_def Let_def 1(1) Inl)
    then obtain s' es where "run_state ?W s = (Some (Some (WrapError ''debit failed: '' e)), s')"
        "history s' = history s1 @ es" "activities es = []" "started is_comp es = []"
      unfolding PaymentSagaWorkflow_def by (rule run_defer_compensate [where S = S]) simp_all
    then show ?thesis
      using 1 Inl by (simp add: appended_def trace_simps)
  next
    case (Inr d)
    obtain r2 s2 f2 w2 w2' where 2: "run_state (run_activity S ?fin ''CreditActivity'' [payment_val input]) s1 = (r2, s2)"
        "history s2 = history s1 @ [Scheduled f2, Awaited f2 (sum_error r2)]" "f_fn f2 = ''CreditActivity''"
        "f_opts f2 = Some financialAPIOptions" "sdk_get S f2 w2 = (r2, w2')"
      by (rule run_activity_cases [of S ?fin "''CreditActivity''" "[payment_val input]" s1]) auto
    let ?sg = "AddCompensation ''ReverseDebitActivity'' [GStr (str_field ''TxID'' d)] (NewSaga S c [])"
    show ?thesis
    proof (cases r2)
      case (Inl e)
      have "run_state (payment_body S c input) s = (Some (?sg, Some (WrapError ''credit failed: '' e)), s2)"
        by (simp add: payment_body_def Let_def 1(1) 2(1) Inl Inr)
      then obtain s' es where "run_state ?W s = (Some (Some (WrapError ''credit failed: '' e)), s')"
          "history s' = history s2 @ es" "activities es = [''ReverseDebitActivity'']"
          "started is_comp es = [(''ReverseDebitActivity'', [GStr (str_field ''TxID'' d)])]"
        unfolding PaymentSagaWorkflow_def
        by (rule run_defer_compensate [where S = S]) (simp_all add: AddCompensation_def step_call_def)
      then show ?thesis
        using 1 2 Inr Inl
        by (auto simp: appended_def trace_simps intro!: exI [of _ d] exI [of _ f] exI [of _ w])
    next
      case (Inr v)
      have "run_state (payment_body S c input) s = (Some (Complete ?sg, None), s2)"
        by (simp add: payment_body_def Let_def 1(1) 2(1) Inr \<open>r = Inr d\<close>)
      then obtain s' es where "run_state ?W s = (Some None, s')"
          "history s' = history s2 @ es" "activities es = []" "started is_comp es = []"
        unfolding PaymentSagaWorkflow_def
        by (rule run_defer_compensate [where S = S]) (simp_all add: AddCompensation_def Complete_def)
      then show ?thesis
        using 1 2 by (simp add: appended_def trace_simps)
    qed
  qed
qed

subsection \<open>The phases of the loan workflow\<close>

definition release_saga :: "'w Saga \<Rightarrow> string \<Rightarrow> 'w Saga" where
  "release_saga sg rsv = SetPivot (AddCompensation ''ReleaseReservationActivity'' [release_arg rsv] sg)"

lemma release_saga_fields [simp]:
  "dlqHandler (release_saga sg rsv) = dlqHandler sg" "completed (release_saga sg rsv) = completed sg"
  "map activityFn (rev (compensations (release_saga sg rsv))) =
     ''ReleaseReservationActivity'' # map activityFn (rev (compensations sg))"
  "map step_call (rev (compensations (release_saga sg rsv))) =
     (''ReleaseReservationActivity'', [release_arg rsv]) # map step_call (rev (compensations sg))"
  by (simp_all add: release_saga_def saga_ops step_call_def)

text \<open>The money phase opens with the one reservation.\<close>

definition reserving :: "LoanDisbursementInput \<Rightarrow> wf_event list \<Rightarrow> bool" where
  "reserving input es \<longleftrightarrow> (\<exists>f rest. es = Upserted [(saStage, ''DISBURSING'')] # Scheduled f # rest \<and>
     f_fn f = ''ReserveFundsActivity'' \<and> f_args f = [reserve_arg input] \<and>
     ''ReserveFundsActivity'' \<notin> set (activities rest))"

text \<open>How the money phase ends: what it returns, and what it adds to the history.\<close>

definition disburse_end ::
    "'w sdk \<Rightarrow> LoanDisbursementInput \<Rightarrow> 'w Saga \<Rightarrow> 'w Saga \<times> loan_end \<Rightarrow> wf_event list \<Rightarrow> bool" where
  "disburse_end S input sg out es \<longleftrightarrow> started is_comp es = [] \<and> reserving input es \<and>
     ((\<exists>e. out = (sg, Inl (WrapError ''reserve funds failed: '' e)) \<and> activities es = [''ReserveFundsActivity'']) \<or>
      (\<exists>e f w v. out = (release_saga sg (str_field ''ReservationID'' v), Inl (WrapError ''disbursement failed: '' e)) \<and>
         f_fn f = ''ReserveFundsActivity'' \<and> fst (sdk_get S f w) = Inr v \<and>
         ended_with es ''DisbursementActivity'' e \<and>
         activities es = [''ReserveFundsActivity'', ''DisbursementActivity'']) \<or>
      (\<exists>rsv r. out = (Complete (release_saga sg rsv), Inr r) \<and>
         activities es = [''ReserveFundsActivity'', ''DisbursementActivity'', ''NotifyBorrowerActivity'']))"

lemma loan_disburse_end:
  "\<exists>out s' es. run_state (loan_disburse S c input sg) s = (Some out, s') \<and> history s' = history s @ es \<and>
    disburse_end S input sg out es"
proof -
  let ?fin = "WithFinancialAPIOptions c"
  let ?s0 = "snd (run_state (upsert_stage ''DISBURSING'') s)"
  obtain r s1 f w w' where 1: "run_state (run_activity S ?fin ''ReserveFundsActivity'' [reserve_arg input]) ?s0 = (r, s1)"
      "history s1 = history ?s0 @ [Scheduled f, Awaited f (sum_error r)]" "f_fn f = ''ReserveFundsActivity''" "f_args f = [reserve_arg input]"
      "f_opts f = Some financialAPIOptions" "sdk_get S f w = (r, w')"
    by (rule run_activity_cases [of S ?fin "''ReserveFundsActivity''" "[reserve_arg input]" ?s0]) auto
  show ?thesis
  proof (cases r)
    case (Inl e)
    show ?thesis
      by (rule exI [of _ "(sg, Inl (WrapError ''reserve funds failed: '' e))"])
        (use 1 Inl in \<open>auto simp: loan_disburse_def Let_def disburse_end_def reserving_def upsert_stage_def trace_simps\<close>)
  next
    case (Inr v)
    let ?rsv = "str_field ''ReservationID'' v"
    obtain r2 s2 f2 where 2: "run_state (run_activity S ?fin ''DisbursementActivity'' [disburse_arg input ?rsv]) s1 = (r2, s2)"
        "history s2 = history s1 @ [Scheduled f2, Awaited f2 (sum_error r2)]" "f_fn f2 = ''DisbursementActivity''"
        "f_opts f2 = Some financialAPIOptions"
      by (rule run_activity_cases [of S ?fin "''DisbursementActivity''" "[disburse_arg input ?rsv]" s1]) auto
    have rel: "SetPivot (AddCompensation ''ReleaseReservationActivity'' [release_arg ?rsv] sg) = release_saga sg ?rsv"
      by (simp only: release_saga_def)
    show ?thesis
    proof (cases r2)
      case (Inl e)
      have "run_state (loan_disburse S c input sg) s =
          (Some (release_saga sg ?rsv, Inl (WrapError ''disbursement failed: '' e)), s2)"
        using 1(1) 2(1) Inl Inr by (simp add: loan_disburse_def Let_def rel upsert_stage_def)
      then show ?thesis
        using 1(2-6) 2(2-4) Inr Inl
        by (auto simp: disburse_end_def reserving_def upsert_stage_def trace_simps intro!: exI [of _ f] exI [of _ w] exI [of _ v])
    next
      case (Inr d)
      let ?na = "[notify_arg input (str_field ''TransactionID'' d)]"
      let ?s2 = "snd (run_state (upsert_stage ''NOTIFYING'') s2)"
      obtain r3 s3 f3 where 3: "run_state (run_activity S (WithNotificationOptions c) ''NotifyBorrowerActivity'' ?na) ?s2 = (r3, s3)"
          "history s3 = history ?s2 @ [Scheduled f3, Awaited f3 (sum_error r3)]" "f_fn f3 = ''NotifyBorrowerActivity''"
          "f_opts f3 = Some notificationOptions"
        by (rule run_activity_cases [of S "WithNotificationOptions c" "''NotifyBorrowerActivity''" ?na ?s2]) auto
      show ?thesis
        using 1 2 3 Inr \<open>r = Inr v\<close>
        by (auto simp: loan_disburse_def Let_def rel disburse_end_def reserving_def upsert_stage_def trace_simps)
    qed
  qed
qed

lemma WaitForApproval_events:
  "\<exists>es. history (snd (run_state (WaitForApproval S recv req) s)) = history s @ es \<and>
    activities es = [] \<and> started is_comp es = []"
  by (auto simp: WaitForApproval_def run_select_case run_receive_result Let_def trace_simps)

lemma approval_selected:
  assumes "selector_documented S"
  shows "\<exists>r err. fst (run_state (WaitForApproval S recv req) s) = Some (r, err) \<and>
    (err = None \<and> Approved r \<longrightarrow> SignalReceived approvalSignalName \<in> set (appended (WaitForApproval S recv req) s) \<and>
       Approved (fst (recv zero_approval (snd (approval_choice S req s)))))"
proof (cases "valid_request req")
  case True
  consider "fst (approval_choice S req s) = 0" | "fst (approval_choice S req s) = 1"
    by (rule approval_choice_cases [OF assms])
  then show ?thesis
    by cases (use True in \<open>auto simp: WaitForApproval_result WaitForApproval_received Let_def zero_approval_def\<close>)
next
  case False
  then show ?thesis using WaitForApproval_invalid [OF False, of S recv s] by (auto simp: zero_approval_def)
qed

text \<open>
  What passing the gate means, from the state it is met in to the state it is left in: where the loan
  requires an approval or is above 100000, \<open>WaitForApproval\<close> ran, received the signal, and the payload
  received there says that the loan is approved; otherwise nothing happened.
\<close>

definition gate_passed ::
    "'w sdk \<Rightarrow> (ApprovalResult \<Rightarrow> 'w \<Rightarrow> ApprovalResult \<times> 'w) \<Rightarrow> (f64 \<Rightarrow> string) \<Rightarrow> LoanDisbursementInput \<Rightarrow>
     'w wf \<Rightarrow> 'w wf \<Rightarrow> bool" where
  "gate_passed S recv fmt input s s' \<longleftrightarrow>
     (if RequiresApproval input \<or> f64_greater (loan_Amount input) 100000 then
        (let s0 = snd (run_state (upsert_stage ''AWAITING_APPROVAL'') s); req = approval_request fmt input in
         \<exists>a. run_state (WaitForApproval S recv req) s0 = (Some (a, None), s') \<and> Approved a \<and>
           SignalReceived approvalSignalName \<in> set (appended (WaitForApproval S recv req) s0) \<and>
           Approved (fst (recv zero_approval (snd (approval_choice S req s0)))))
      else s' = s)"

lemma loan_gate_end:
  assumes "selector_documented S"
  shows "\<exists>g s' es. run_state (loan_gate S recv fmt input) s = (Some g, s') \<and> history s' = history s @ es \<and>
    activities es = [] \<and> started is_comp es = [] \<and> (g = None \<longrightarrow> gate_passed S recv fmt input s s')"
proof (cases "needs_approval input")
  case False
  then show ?thesis
    by (intro exI [of _ None]) (simp add: loan_gate_def gate_passed_def needs_approval_def trace_simps)
next
  case True
  let ?s0 = "snd (run_state (upsert_stage ''AWAITING_APPROVAL'') s)" and ?req = "approval_request fmt input"
  let ?m = "WaitForApproval S recv ?req"
  obtain r err where r: "fst (run_state ?m ?s0) = Some (r, err)"
      "err = None \<and> Approved r \<longrightarrow> SignalReceived approvalSignalName \<in> set (appended ?m ?s0) \<and>
         Approved (fst (recv zero_approval (snd (approval_choice S ?req ?s0))))"
    using approval_selected [OF assms] by blast
  obtain es where es: "history (snd (run_state ?m ?s0)) = history ?s0 @ es" "activities es = []" "started is_comp es = []"
    using WaitForApproval_events by blast
  let ?g = "case err of Some e \<Rightarrow> Some e | None \<Rightarrow>
     if Approved r then None else Some (NewBusinessError ''LoanRejected'' ''loan application was not approved'' None)"
  have run: "run_state ?m ?s0 = (Some (r, err), snd (run_state ?m ?s0))"
    by (simp add: prod_eq_iff r(1))
  have "run_state (loan_gate S recv fmt input) s = (Some ?g, snd (run_state ?m ?s0))"
    using True r(1) by (simp add: loan_gate_def split_beta upsert_stage_def split: option.split)
  moreover have "gate_passed S recv fmt input s (snd (run_state ?m ?s0))" if "?g = None"
    using that r(2) True run unfolding needs_approval_def gate_passed_def Let_def
    by (auto split: option.splits if_splits)
  moreover have "history (snd (run_state ?m ?s0)) = history s @ Upserted [(saStage, ''AWAITING_APPROVAL'')] # es"
    using es(1) by (simp add: upsert_stage_def)
  ultimately show ?thesis
    using es(2,3) by (intro exI [of _ ?g] exI [of _ "snd (run_state ?m ?s0)"]
      exI [of _ "Upserted [(saStage, ''AWAITING_APPROVAL'')] # es"]) (simp add: trace_simps)
qed

text \<open>The three ways a loan can end.\<close>

definition loan_stopped :: "loan_end \<Rightarrow> wf_event list \<Rightarrow> bool" where
  "loan_stopped res es \<longleftrightarrow> (\<exists>e. res = Inl e) \<and> started is_comp es = [] \<and>
     (activities es = [''KYCCheckActivity''] \<or> activities es = [''KYCCheckActivity'', ''ReserveFundsActivity''])"

definition loan_rolled_back :: "'w sdk \<Rightarrow> loan_end \<Rightarrow> wf_event list \<Rightarrow> bool" where
  "loan_rolled_back S res es \<longleftrightarrow>
     (\<exists>e f w v. res = Inl (WrapError ''disbursement failed: '' e) \<and> ended_with es ''DisbursementActivity'' e \<and>
        f_fn f = ''ReserveFundsActivity'' \<and> fst (sdk_get S f w) = Inr v \<and>
        activities es = [''KYCCheckActivity'', ''ReserveFundsActivity'', ''DisbursementActivity'',
          ''ReleaseReservationActivity''] \<and>
        started is_comp es =
          [(''ReleaseReservationActivity'', [release_arg (str_field ''ReservationID'' v)])])"

definition loan_disbursed :: "loan_end \<Rightarrow> wf_event list \<Rightarrow> bool" where
  "loan_disbursed res es \<longleftrightarrow> (\<exists>r. res = Inr r) \<and> started is_comp es = [] \<and>
     activities es = [''KYCCheckActivity'', ''ReserveFundsActivity'', ''DisbursementActivity'',
       ''NotifyBorrowerActivity'']"

text \<open>What the workflow does before its body: the state the body starts from, and the versions it sees.\<close>

definition loan_start :: "'w sdk \<Rightarrow> LoanDisbursementInput \<Rightarrow> ('w, ChangeSet) workflow" where
  "loan_start S input = do {
     wf_log Info ''loan disbursement started'' [(''loanID'', GStr (LoanID input))];
     changes \<leftarrow> Define S kyc_change 1 NewChangeSet;
     emit (Upserted [(saLoanID, LoanID input), (saBorrowerID, BorrowerID input), (saStage, ''INIT'')]);
     return changes
   }"

lemma loan_start_body:
  "run_state (LoanDisbursementWorkflow S recv fmt c input) s =
    run_state (defer_compensate S (loan_body S recv fmt c input (fst (run_state (loan_start S input) s))))
      (snd (run_state (loan_start S input) s))"
  by (simp add: LoanDisbursementWorkflow_def loan_start_def run_Define)

text \<open>
  The checks, and their order. From the state the body starts in, the KYC activity answers with an
  approved borrower, whose score is sufficient unless the version the SDK gives the execution
  predates the threshold; from there the gate is passed; up to there no other activity is started;
  and only what comes after that, \<open>rest\<close>, opens the money phase with its one reservation.
\<close>

definition checks_passed ::
    "'w sdk \<Rightarrow> (ApprovalResult \<Rightarrow> 'w \<Rightarrow> ApprovalResult \<times> 'w) \<Rightarrow> (f64 \<Rightarrow> string) \<Rightarrow> ctx \<Rightarrow>
     LoanDisbursementInput \<Rightarrow> 'w wf \<Rightarrow> wf_event list \<Rightarrow> bool" where
  "checks_passed S recv fmt c input s es \<longleftrightarrow>
     (\<exists>kyc s1 s2 pre rest.
        run_state (run_activity S (WithInternalServiceOptions c) ''KYCCheckActivity'' [KYCInput (BorrowerID input)])
          (snd (run_state (loan_start S input) s)) = (Inr kyc, s1) \<and>
        bool_field ''Approved'' kyc \<and>
        (600 \<le> int_field ''Score'' kyc \<or> fst (sdk_get_version S kyc_change DefaultVersion 1 (world s)) < 1) \<and>
        gate_passed S recv fmt input s1 s2 \<and>
        history s2 = history s @ pre \<and> activities pre = [''KYCCheckActivity''] \<and>
        es = pre @ rest \<and> reserving input rest)"

lemma reserving_append:
  "reserving input es \<Longrightarrow> ''ReserveFundsActivity'' \<notin> set (activities es') \<Longrightarrow> reserving input (es @ es')"
  by (auto simp: reserving_def trace_simps)

text \<open>The body, up to the rollback: it stops before the money phase, or ends as that phase does.\<close>

definition body_checked ::
    "'w sdk \<Rightarrow> (ApprovalResult \<Rightarrow> 'w \<Rightarrow> ApprovalResult \<times> 'w) \<Rightarrow> (f64 \<Rightarrow> string) \<Rightarrow> ctx \<Rightarrow>
     LoanDisbursementInput \<Rightarrow> ChangeSet \<Rightarrow> 'w wf \<Rightarrow> wf_event list \<Rightarrow> bool" where
  "body_checked S recv fmt c input changes s pre \<longleftrightarrow>
     (\<exists>kyc s1 s2. run_state (run_activity S (WithInternalServiceOptions c) ''KYCCheckActivity'' [kyc_arg input]) s =
          (Inr kyc, s1) \<and> kyc_refusal changes kyc = None \<and> gate_passed S recv fmt input s1 s2 \<and>
        history s2 = history s @ pre \<and> activities pre = [''KYCCheckActivity''])"

lemma loan_body_end:
  assumes "selector_documented S"
  shows "\<exists>sg res s' es. run_state (loan_body S recv fmt c input changes) s = (Some (sg, res), s') \<and>
    history s' = history s @ es \<and> dlqHandler sg = None \<and> started is_comp es = [] \<and>
    (sg = NewSaga S c [] \<and> (\<exists>e. res = Inl e) \<and> activities es = [''KYCCheckActivity''] \<or>
     (\<exists>es1 es2. es = es1 @ es2 \<and> body_checked S recv fmt c input changes s es1 \<and>
       disburse_end S input (NewSaga S c []) (sg, res) es2))"
proof -
  let ?c = "WithInternalServiceOptions c" and ?N = "NewSaga S c []"
  obtain r s1 f where 1: "run_state (run_activity S ?c ''KYCCheckActivity'' [kyc_arg input]) s = (r, s1)"
      "history s1 = history s @ [Scheduled f, Awaited f (sum_error r)]" "f_fn f = ''KYCCheckActivity''"
      "f_opts f = Some internalServiceOptions"
    by (rule run_activity_cases [of S ?c "''KYCCheckActivity''" "[kyc_arg input]" s]) auto
  have stop: "?thesis" if stopped: "run_state (loan_body S recv fmt c input changes) s = (Some (?N, Inl e), s2)"
      "history s2 = history s1 @ es" "activities es = []" "started is_comp es = []" for e s2 es
    using stopped 1
    by (intro exI [of _ ?N] exI [of _ "Inl e"] exI [of _ s2] exI [of _ "Scheduled f # Awaited f (sum_error r) # es"])
      (simp add: trace_simps)
  show ?thesis
  proof (cases r)
    case (Inl e)
    show ?thesis
      by (rule stop [of "WrapError ''KYC check failed: '' e" s1 "[]"])
        (simp_all add: loan_body_def Let_def 1(1) Inl trace_simps)
  next
    case (Inr d)
    show ?thesis
    proof (cases "kyc_refusal changes d")
      case (Some e)
      show ?thesis
        by (rule stop [of e s1 "[]"]) (simp_all add: loan_body_def Let_def 1(1) Inr Some trace_simps)
    next
      case None
      obtain g s2 es where 2: "run_state (loan_gate S recv fmt input) s1 = (Some g, s2)" "history s2 = history s1 @ es"
          "activities es = []" "started is_comp es = []" "g = None \<longrightarrow> gate_passed S recv fmt input s1 s2"
        using loan_gate_end [OF assms] by blast
      show ?thesis
      proof (cases g)
        case (Some e)
        show ?thesis
          by (rule stop [of e s2 es]) (simp_all add: loan_body_def Let_def 1(1) Inr None 2 Some)
      next
        case gate: None
        obtain out s3 es2 where 3: "run_state (loan_disburse S c input ?N) s2 = (Some out, s3)"
            "history s3 = history s2 @ es2" "disburse_end S input ?N out es2"
          using loan_disburse_end by blast
        obtain sg res where out: "out = (sg, res)" by fastforce
        have "dlqHandler sg = None" "started is_comp es2 = []"
          using 3(3) by (auto simp: out disburse_end_def Complete_def)
        moreover have "run_state (loan_body S recv fmt c input changes) s = (Some (sg, res), s3)"
          by (simp add: loan_body_def Let_def 1(1) Inr None 2(1) gate 3(1) out)
        moreover have "body_checked S recv fmt c input changes s (Scheduled f # Awaited f None # es)"
          unfolding body_checked_def using 1 2 Inr None gate
          by (intro exI [of _ d] exI [of _ s1] exI [of _ s2]) (simp add: trace_simps)
        ultimately show ?thesis
          using 1(2-4) 2(2-5) 3(2,3) Inr
          by (intro exI [of _ sg] exI [of _ res] exI [of _ s3] exI [of _ "Scheduled f # Awaited f None # es @ es2"]
              conjI disjI2 exI [of _ "Scheduled f # Awaited f None # es"] exI [of _ es2])
            (auto simp: trace_simps out)
      qed
    qed
  qed
qed

lemma loan_outcomes_lemma:
  assumes "selector_documented S"
  shows "\<exists>res. fst (run_state (LoanDisbursementWorkflow S recv fmt c input) s) = Some res \<and>
    (let es = appended (LoanDisbursementWorkflow S recv fmt c input) s in
      (loan_stopped res es \<or> loan_rolled_back S res es \<or> loan_disbursed res es) \<and>
      (''ReserveFundsActivity'' \<in> set (activities es) \<longrightarrow> checks_passed S recv fmt c input s es))"
proof -
  let ?v = "fst (sdk_get_version S kyc_change DefaultVersion 1 (world s))"
  let ?e0 = "[Logged Info ''loan disbursement started'' [(''loanID'', GStr (LoanID input))],
      VersionRead kyc_change DefaultVersion 1 ?v,
      Upserted [(saLoanID, LoanID input), (saBorrowerID, BorrowerID input), (saStage, ''INIT'')]]"
  let ?changes = "NewChangeSet\<lparr>results := (results NewChangeSet)(kyc_change \<mapsto> ?v)\<rparr>"
  define s0 where "s0 = snd (run_state (loan_start S input) s)"
  have 0: "history s0 = history s @ ?e0" "fst (run_state (loan_start S input) s) = ?changes"
    by (simp_all add: s0_def loan_start_def run_Define)
  note W = loan_start_body [of S recv fmt c input s, unfolded 0(2), folded s0_def]
  obtain sg res s1 es where 1: "run_state (loan_body S recv fmt c input ?changes) s0 = (Some (sg, res), s1)"
      "history s1 = history s0 @ es" "dlqHandler sg = None" "started is_comp es = []" and
    2: "sg = NewSaga S c [] \<and> (\<exists>e. res = Inl e) \<and> activities es = [''KYCCheckActivity''] \<or>
     (\<exists>es1 es2. es = es1 @ es2 \<and> body_checked S recv fmt c input ?changes s0 es1 \<and>
       disburse_end S input (NewSaga S c []) (sg, res) es2)"
    using loan_body_end [OF assms, of recv fmt c input ?changes s0] by blast
  obtain s2 es3 where 3: "run_state (defer_compensate S (loan_body S recv fmt c input ?changes)) s0 = (Some res, s2)"
      "history s2 = history s1 @ es3"
      "activities es3 = (if completed sg then [] else map activityFn (rev (compensations sg)))"
      "started is_comp es3 = (if completed sg then [] else map step_call (rev (compensations sg)))"
    by (rule run_defer_compensate [OF 1(1,3)])
  have app: "appended (LoanDisbursementWorkflow S recv fmt c input) s = ?e0 @ es @ es3"
    using 0(1) W 1(2) 3(1,2) by (simp add: appended_def)
  have res: "fst (run_state (LoanDisbursementWorkflow S recv fmt c input) s) = Some res"
    by (simp add: W 3(1))
  have ends: "loan_stopped res (?e0 @ es @ es3) \<or> loan_rolled_back S res (?e0 @ es @ es3) \<or>
      loan_disbursed res (?e0 @ es @ es3)"
    using 2
  proof (elim disjE exE conjE)
    fix es1 es2
    assume *: "es = es1 @ es2" "body_checked S recv fmt c input ?changes s0 es1"
      "disburse_end S input (NewSaga S c []) (sg, res) es2"
    then have "activities es1 = [''KYCCheckActivity'']" by (auto simp: body_checked_def)
    with *(1,3) 1(4) 3(3,4) show ?thesis
      unfolding disburse_end_def
      by (elim conjE disjE exE)
        (simp_all add: loan_stopped_def loan_rolled_back_def loan_disbursed_def trace_simps Complete_def, blast+)
  qed (use 1(4) 3(3,4) in \<open>simp add: loan_stopped_def trace_simps\<close>)
  have checks: "checks_passed S recv fmt c input s (?e0 @ es @ es3)"
    if reserved: "''ReserveFundsActivity'' \<in> set (activities (?e0 @ es @ es3))"
  proof -
    obtain es1 es2 where d: "es = es1 @ es2" "body_checked S recv fmt c input ?changes s0 es1"
        "disburse_end S input (NewSaga S c []) (sg, res) es2"
      using 2 reserved 3(3) by (auto simp: trace_simps)
    then obtain kyc s3 s4 where k: "run_state (run_activity S (WithInternalServiceOptions c) ''KYCCheckActivity''
          [KYCInput (BorrowerID input)]) s0 = (Inr kyc, s3)" "kyc_refusal ?changes kyc = None"
        "gate_passed S recv fmt input s3 s4" "history s4 = history s0 @ es1" "activities es1 = [''KYCCheckActivity'']"
      by (auto simp: body_checked_def kyc_arg_def)
    have "bool_field ''Approved'' kyc" "600 \<le> int_field ''Score'' kyc \<or> ?v < 1"
      using k(2) by (auto simp: kyc_refusal_def IsEnabled_def split: if_splits)
    moreover have "''ReserveFundsActivity'' \<notin> set (activities es3)"
      using d(3) 3(3) unfolding disburse_end_def by (elim conjE disjE exE) (simp_all add: Complete_def)
    then have "reserving input (es2 @ es3)"
      using d(3) by (intro reserving_append) (simp_all add: disburse_end_def)
    ultimately show ?thesis
      unfolding checks_passed_def s0_def [symmetric] using k 0(1) d(1)
      by (intro exI [of _ kyc] exI [of _ s3] exI [of _ s4] exI [of _ "?e0 @ es1"] exI [of _ "es2 @ es3"])
        (simp add: trace_simps)
  qed
  show ?thesis using res ends checks by (simp only: app Let_def) blast
qed

subsection \<open>Properties\<close>

text \<open>
  C6. Every loan ends in one of three ways, whatever the activities, the approver and the clock do:
  it is refused or fails before funds are committed, and nothing is compensated; the disbursement
  fails after the reservation, and that reservation, by its own id, is released exactly once; or it is
  disbursed, the borrower is notified, and nothing is compensated, even if the notification fails.
  In the second case the workflow returns the error of the disbursement, also when the release fails
  for good: the failure is logged and not returned, where \<open>references/saga-pattern.md\<close> (Failure
  Handling, 3) has the workflow end with the \<open>CompensationError\<close>. The findings record this.
\<close>

theorem loan_outcomes:
  assumes "selector_documented S"
  shows "\<exists>res. fst (run_state (LoanDisbursementWorkflow S recv fmt c input) s) = Some res \<and>
    (let es = appended (LoanDisbursementWorkflow S recv fmt c input) s in
      loan_stopped res es \<or> loan_rolled_back S res es \<or> loan_disbursed res es)"
  using loan_outcomes_lemma [OF assms] by (fastforce simp: Let_def)

theorem loan_outcomes_witness:
  "\<exists>res. fst (run_state (LoanDisbursementWorkflow (sample_sdk (\<lambda>f. True)) (\<lambda>r w. (r, w)) (\<lambda>x. '''') sample_ctx
      \<lparr>LoanID = ''l-1'', BorrowerID = ''b-1'', loan_Amount = Fin 5000, AccountNumber = ''a'', RequiresApproval = False\<rparr>)
      sample_wf) = Some res \<and> (\<exists>e. res = Inl e)"
proof -
  let ?S = "sample_sdk (\<lambda>f. True)"
  let ?in = "\<lparr>LoanID = ''l-1'', BorrowerID = ''b-1'', loan_Amount = Fin 5000, AccountNumber = ''a'', RequiresApproval = False\<rparr>"
  have "selector_documented ?S" by (simp add: selector_documented_def sample_sdk_def)
  from loan_outcomes [OF this, of "\<lambda>r w. (r, w)" "\<lambda>x. ''''" sample_ctx ?in sample_wf]
  obtain res where res: "fst (run_state (LoanDisbursementWorkflow ?S (\<lambda>r w. (r, w)) (\<lambda>x. '''') sample_ctx ?in) sample_wf) = Some res"
    "loan_disbursed res (appended (LoanDisbursementWorkflow ?S (\<lambda>r w. (r, w)) (\<lambda>x. '''') sample_ctx ?in) sample_wf) \<or> (\<exists>e. res = Inl e)"
    by (auto simp: Let_def loan_stopped_def loan_rolled_back_def)
  moreover have "\<exists>e. fst (run_state (LoanDisbursementWorkflow ?S (\<lambda>r w. (r, w)) (\<lambda>x. '''') sample_ctx ?in) sample_wf) = Some (Inl e)"
    by (simp add: LoanDisbursementWorkflow_def run_Define defer_compensate_def loan_body_def Let_def
        run_activity_def execute_activity_def future_get_def sample_sdk_def Compensate_def)
  ultimately show ?thesis by auto
qed

text \<open>
  C7. No money moves unchecked. If an execution reserves funds at all, then first the KYC activity, run
  for this borrower, answered with an approved borrower, whose score is at least 600 unless the SDK
  gives the execution a version from before the score check (such executions are not held to a score);
  then, if the loan requires an approval or exceeds 100000, \<open>WaitForApproval\<close> received the approval
  signal and the payload received says approved, so that a rejection by signal and a time-out both
  stop the loan; and only after these events in the history come the one reservation, for this loan,
  and everything else that the execution starts.
\<close>

theorem loan_reserves_only_after_checks:
  assumes "selector_documented S"
    and "''ReserveFundsActivity'' \<in> set (activities (appended (LoanDisbursementWorkflow S recv fmt c input) s))"
  shows "checks_passed S recv fmt c input s (appended (LoanDisbursementWorkflow S recv fmt c input) s)"
  using loan_outcomes_lemma [OF assms(1), of recv fmt c input s] assms(2) by (auto simp: Let_def)

text \<open>An SDK whose activities all succeed, with an approved borrower of score 750.\<close>

definition happy_sdk :: "unit sdk" where
  "happy_sdk = (sample_sdk (\<lambda>f. False))\<lparr>sdk_get := (\<lambda>f w.
     (Inr (GStruct ''Result'' [(''Approved'', GBool True), (''Score'', GInt 750),
        (''ReservationID'', GStr ''rsv-1''), (''TransactionID'', GStr ''tx-1'')]), w))\<rparr>"

theorem loan_reserves_only_after_checks_witness:
  "checks_passed happy_sdk (\<lambda>r w. (r\<lparr>Approved := True\<rparr>, w)) (\<lambda>x. '''') sample_ctx
    \<lparr>LoanID = ''l-1'', BorrowerID = ''b-1'', loan_Amount = Fin 200000, AccountNumber = ''a'', RequiresApproval = False\<rparr>
    sample_wf (appended (LoanDisbursementWorkflow happy_sdk (\<lambda>r w. (r\<lparr>Approved := True\<rparr>, w)) (\<lambda>x. '''') sample_ctx
      \<lparr>LoanID = ''l-1'', BorrowerID = ''b-1'', loan_Amount = Fin 200000, AccountNumber = ''a'', RequiresApproval = False\<rparr>) sample_wf)"
proof (rule loan_reserves_only_after_checks)
  show "selector_documented happy_sdk"
    by (simp add: selector_documented_def happy_sdk_def sample_sdk_def)
  show "''ReserveFundsActivity'' \<in> set (activities (appended (LoanDisbursementWorkflow happy_sdk
      (\<lambda>r w. (r\<lparr>Approved := True\<rparr>, w)) (\<lambda>x. '''') sample_ctx
      \<lparr>LoanID = ''l-1'', BorrowerID = ''b-1'', loan_Amount = Fin 200000, AccountNumber = ''a'', RequiresApproval = False\<rparr>) sample_wf))"
    by (simp add: LoanDisbursementWorkflow_def run_Define defer_compensate_def loan_body_def loan_gate_def
        loan_disburse_def Let_def run_activity_def execute_activity_def future_get_def happy_sdk_def sample_sdk_def
        Compensate_def kyc_refusal_def bool_field_def int_field_def field_of_def needs_approval_def upsert_stage_def
        saga_ops NewChangeSet_def IsEnabled_def appended_def trace_simps WaitForApproval_def approval_request_def
        run_select_case run_receive_result Hour_def)
qed

text \<open>A rejection by signal stops such a loan: only the KYC activity is ever started.\<close>

lemma rejected_loan_stops:
  "activities (appended (LoanDisbursementWorkflow happy_sdk (\<lambda>r w. (r\<lparr>Approved := False\<rparr>, w)) (\<lambda>x. '''') sample_ctx
      \<lparr>LoanID = ''l-1'', BorrowerID = ''b-1'', loan_Amount = Fin 200000, AccountNumber = ''a'', RequiresApproval = False\<rparr>) sample_wf) =
    [''KYCCheckActivity'']"
  by (simp add: LoanDisbursementWorkflow_def run_Define defer_compensate_def loan_body_def loan_gate_def
      loan_disburse_def Let_def run_activity_def execute_activity_def future_get_def happy_sdk_def sample_sdk_def
      Compensate_def kyc_refusal_def bool_field_def int_field_def field_of_def needs_approval_def upsert_stage_def
      saga_ops NewChangeSet_def IsEnabled_def appended_def trace_simps WaitForApproval_def approval_request_def
      run_select_case run_receive_result Hour_def)

text \<open>A reversal that fails too changes nothing about the result: it is the error of the credit.\<close>

lemma failed_reversal_not_returned:
  "fst (run_state (PaymentSagaWorkflow (sample_sdk (\<lambda>fn. fn \<noteq> ''DebitActivity'')) sample_ctx
      \<lparr>PaymentID = ''p1'', FromAcct = ''a'', ToAcct = ''b'', pay_Amount = Fin 5\<rparr>) sample_wf) =
    Some (Some (WrapError ''credit failed: '' (ErrorString ''canceled'')))"
  by (simp add: PaymentSagaWorkflow_def fst_defer_compensate payment_body_def Let_def run_activity_def
      execute_activity_def future_get_def sample_sdk_def)

text \<open>
  C20. The payment saga: a debit whose credit fails is reversed exactly once, by the transaction id
  that the debit itself returned, and the workflow returns the error the credit ended with; without a
  debit, or with both, nothing is reversed. The result is the error of the credit also when the
  reversal fails for good, which is logged and not returned, where \<open>references/saga-pattern.md\<close>
  (Failure Handling, 3) has the workflow end with the \<open>CompensationError\<close>. The findings record this.
\<close>

theorem payment_outcomes:
  "let es = appended (PaymentSagaWorkflow S c input) s; res = fst (run_state (PaymentSagaWorkflow S c input) s) in
   (\<exists>e. res = Some (Some (WrapError ''debit failed: '' e)) \<and> activities es = [''DebitActivity''] \<and>
      started is_comp es = []) \<or>
   (\<exists>e d f w. res = Some (Some (WrapError ''credit failed: '' e)) \<and> ended_with es ''CreditActivity'' e \<and>
      activities es = [''DebitActivity'', ''CreditActivity'', ''ReverseDebitActivity''] \<and>
      started is_comp es = [(''ReverseDebitActivity'', [GStr (str_field ''TxID'' d)])] \<and>
      f_fn f = ''DebitActivity'' \<and> f_args f = [payment_val input] \<and> fst (sdk_get S f w) = Inr d) \<or>
   res = Some None \<and> activities es = [''DebitActivity'', ''CreditActivity''] \<and> started is_comp es = []"
  using payment_outcomes_lemma [of S c input s] by (simp only: Let_def)

end
