(* ===== verification/SagaPattern.thy ===== *)
theory SagaPattern
  imports ExampleWorkflows
begin

text \<open>
  The way \<open>workflow/saga.go\<close> tells its callers to write a workflow: make a saga and defer its
  \<open>Compensate\<close>, run each step, return on its error, register its rollback when it succeeds, complete
  the saga at the end. For any list of steps the workflow is then all or nothing, and the payment
  example is this pattern.
\<close>

subsection \<open>The documented workflow\<close>

text \<open>
  A step: its options, its activity with arguments made from the results so far, the text its error
  is wrapped in, and its rollback, if it has one, with arguments made from its result.
\<close>

record saga_step =
  step_opts :: "ctx \<Rightarrow> ctx"
  step_fn :: gofunc
  step_args :: "gval list \<Rightarrow> gval list"
  step_prefix :: string
  step_undo :: "(gofunc \<times> (gval \<Rightarrow> gval list)) option"

definition register_undo :: "saga_step \<Rightarrow> gval \<Rightarrow> 'w Saga \<Rightarrow> 'w Saga" where
  "register_undo st v saga =
     (case step_undo st of None \<Rightarrow> saga | Some (fn, as) \<Rightarrow> AddCompensation fn (as v) saga)"

fun saga_steps ::
    "'w sdk \<Rightarrow> ctx \<Rightarrow> saga_step list \<Rightarrow> gval list \<Rightarrow> 'w Saga \<Rightarrow> ('w, 'w Saga \<times> go_error option) workflow" where
  "saga_steps S c [] vs saga = return (Complete saga, None)"
| "saga_steps S c (st # rest) vs saga = do {
     r \<leftarrow> run_activity S (step_opts st c) (step_fn st) (step_args st vs);
     (case r of
        Inl err \<Rightarrow> return (saga, Some (WrapError (step_prefix st) err))
      | Inr v \<Rightarrow> saga_steps S c rest (vs @ [v]) (register_undo st v saga))
   }"

definition documented_saga ::
    "'w sdk \<Rightarrow> ctx \<Rightarrow> 'w SagaOption list \<Rightarrow> saga_step list \<Rightarrow> ('w, go_error option option) workflow" where
  "documented_saga S c opts steps =
     defer_compensate S (do { r \<leftarrow> saga_steps S c steps [] (NewSaga S c opts); return (Some r) })"

subsection \<open>Its forward part\<close>

definition undo_calls :: "saga_step \<Rightarrow> gval \<Rightarrow> (gofunc \<times> gval list) list" where
  "undo_calls st v = (case step_undo st of None \<Rightarrow> [] | Some (fn, as) \<Rightarrow> [(fn, as v)])"

text \<open>
  How the forward part can end: the first \<open>n\<close> steps succeeded with the results \<open>us\<close>, which is all of
  them, or the next one failed.
\<close>

definition forward_end ::
    "'w sdk \<Rightarrow> saga_step list \<Rightarrow> nat \<Rightarrow> gval list \<Rightarrow> go_error option \<Rightarrow> wf_event list \<Rightarrow> bool" where
  "forward_end S steps n us err es \<longleftrightarrow>
     n \<le> length steps \<and> length us = n \<and> started is_comp es = [] \<and>
     activities es = map step_fn (take (Suc n) steps) \<and>
     (\<forall>i < n. \<exists>f w. f_fn f = step_fn (steps ! i) \<and> fst (sdk_get S f w) = Inr (us ! i)) \<and>
     (if n = length steps then err = None
      else \<exists>f w e. f_fn f = step_fn (steps ! n) \<and> fst (sdk_get S f w) = Inl e \<and>
        err = Some (WrapError (step_prefix (steps ! n)) e))"

lemma register_undo_fields [simp]:
  "dlqHandler (register_undo st v sg) = dlqHandler sg" "completed (register_undo st v sg) = completed sg"
  "map step_call (compensations (register_undo st v sg)) = map step_call (compensations sg) @ undo_calls st v"
  by (auto simp: register_undo_def undo_calls_def AddCompensation_def step_call_def split: option.split)

lemma forward_end_Cons:
  assumes "forward_end S steps n us err es" and "f_fn f = step_fn st" and "\<not> is_comp (f_opts f)"
    and "fst (sdk_get S f w) = Inr v"
  shows "forward_end S (st # steps) (Suc n) (v # us) err ([Scheduled f, Awaited f None] @ es)"
proof -
  have "\<exists>f w. f_fn f = step_fn ((st # steps) ! i) \<and> fst (sdk_get S f w) = Inr ((v # us) ! i)" if "i < Suc n" for i
    using that assms by (cases i) (auto simp: forward_end_def)
  with assms show ?thesis by (cases "n = length steps") (auto simp: forward_end_def trace_simps)
qed

lemma saga_steps_end:
  assumes "\<forall>st \<in> set steps. \<not> is_comp (ctx_opts (step_opts st c))" and "\<not> completed sg"
  shows "\<exists>n us err sg' s' es. run_state (saga_steps S c steps vs sg) s = ((sg', err), s') \<and>
    history s' = history s @ es \<and> forward_end S steps n us err es \<and>
    dlqHandler sg' = dlqHandler sg \<and> completed sg' = (n = length steps) \<and>
    map step_call (compensations sg') = map step_call (compensations sg) @ concat (map2 undo_calls (take n steps) us)"
  using assms
proof (induction steps arbitrary: vs sg s)
  case Nil
  show ?case
    by (rule exI [of _ 0], rule exI [of _ "[]"], rule exI [of _ None])
      (use Nil in \<open>simp add: forward_end_def trace_simps Complete_def\<close>)
next
  case (Cons st steps)
  obtain r s1 f w w' where 1: "run_state (run_activity S (step_opts st c) (step_fn st) (step_args st vs)) s = (r, s1)"
      "history s1 = history s @ [Scheduled f, Awaited f (sum_error r)]" "f_fn f = step_fn st"
      "f_opts f = ctx_opts (step_opts st c)" "sdk_get S f w = (r, w')"
    by (rule run_activity_cases [of S "step_opts st c" "step_fn st" "step_args st vs" s]) auto
  have opts: "\<not> is_comp (f_opts f)" using 1(4) Cons.prems(1) by simp
  show ?case
  proof (cases r)
    case (Inl e)
    then have "forward_end S (st # steps) 0 [] (Some (WrapError (step_prefix st) e)) [Scheduled f, Awaited f (Some e)]"
      using 1 opts by (auto simp: forward_end_def trace_simps intro!: exI [of _ f] exI [of _ w])
    with 1 Inl Cons.prems(2) show ?thesis
      by (intro exI [of _ 0] exI [of _ "[]"] exI [of _ "Some (WrapError (step_prefix st) e)"]) auto
  next
    case (Inr v)
    let ?sg = "register_undo st v sg"
    obtain n us err sg' s' es where run: "run_state (saga_steps S c steps (vs @ [v]) ?sg) s1 = ((sg', err), s')"
        "history s' = history s1 @ es" and fwd: "forward_end S steps n us err es"
        and sg: "dlqHandler sg' = dlqHandler ?sg" "completed sg' = (n = length steps)"
          "map step_call (compensations sg') = map step_call (compensations ?sg) @ concat (map2 undo_calls (take n steps) us)"
      using Cons.IH [of ?sg "vs @ [v]" s1] Cons.prems by auto
    have "forward_end S (st # steps) (Suc n) (v # us) err ([Scheduled f, Awaited f None] @ es)"
      by (rule forward_end_Cons [OF fwd 1(3) opts, where w = w]) (use 1(5) Inr in simp)
    then show ?thesis
      using 1 Inr run sg
      by (intro exI [of _ "Suc n"] exI [of _ "v # us"] exI [of _ err] exI [of _ sg'] exI [of _ s']) simp
  qed
qed

subsection \<open>With the deferred rollback\<close>

text \<open>The handlers a saga can have: none, or the library's own.\<close>

definition library_options :: "'w sdk \<Rightarrow> gofunc option \<Rightarrow> 'w SagaOption list" where
  "library_options S sink =
     (case sink of None \<Rightarrow> []
      | Some fn \<Rightarrow> [WithDLQHandler (Some (OnCompensationFailed S (NewActivityDLQHandler fn)))])"

lemma library_options_saga [simp]:
  "compensations (NewSaga S c (library_options S sink)) = []"
  "completed (NewSaga S c (library_options S sink)) = False"
  by (simp_all add: NewSaga_def library_options_def WithDLQHandler_def split: option.split)

text \<open>Whichever it is, the rollback runs what was registered, last first.\<close>

lemma library_rollback:
  assumes "dlqHandler sg = dlqHandler (NewSaga S c (library_options S sink))"
  shows "\<exists>es. history (snd (run_state (Compensate S sg) s)) = history s @ es \<and>
    started is_comp es = (if completed sg then [] else map step_call (rev (compensations sg))) \<and>
    (completed sg \<longrightarrow> es = [])"
proof -
  have idle: "completed sg \<Longrightarrow> appended (Compensate S sg) s = []" by (simp add: Compensate_def)
  show ?thesis
  proof (cases sink)
    case None
    then have h: "effective_handler sg = no_handler"
      using assms by (simp add: effective_handler_def library_options_def)
    show ?thesis
      using history_appended [OF no_dlq.extends_Compensate [OF h]] no_dlq.started_Compensate [OF h] idle
      by metis
  next
    case (Some fn)
    then have h: "effective_handler sg = OnCompensationFailed S (NewActivityDLQHandler fn)"
      using assms by (simp add: effective_handler_def library_options_def NewSaga_def WithDLQHandler_def)
    show ?thesis
      using history_appended [OF activity_dlq.extends_Compensate [OF h]] activity_dlq.started_Compensate [OF h] idle
      by metis
  qed
qed

subsection \<open>Properties\<close>

text \<open>
  C3. A workflow written as documented is all or nothing: there are \<open>n\<close> steps that succeeded, and
  either they are all, the workflow returns no error and nothing is rolled back, or the next step
  failed, the workflow returns its error wrapped, and the rollbacks of exactly the \<open>n\<close> are started,
  last first, each with the arguments its step's own result gave, after everything else. The result
  is that of the steps alone, whatever the rollbacks do: a rollback that fails for good is logged and
  reported, and the workflow still returns the error of its step, where \<open>references/saga-pattern.md\<close>
  (Failure Handling, 3) has it return the \<open>CompensationError\<close>. The findings record this.
\<close>

theorem saga_all_or_nothing:
  assumes "\<forall>st \<in> set steps. \<not> is_comp (ctx_opts (step_opts st c))"
  shows "\<exists>n us err forward rollback.
    fst (run_state (documented_saga S c (library_options S sink) steps) s) = Some err \<and>
    history (snd (run_state (documented_saga S c (library_options S sink) steps) s)) = history s @ forward @ rollback \<and>
    forward_end S steps n us err forward \<and>
    err = snd (fst (run_state (saga_steps S c steps [] (NewSaga S c (library_options S sink))) s)) \<and>
    started is_comp rollback = (if n = length steps then [] else rev (concat (map2 undo_calls (take n steps) us))) \<and>
    (n = length steps \<longrightarrow> rollback = [])"
proof -
  let ?sg0 = "NewSaga S c (library_options S sink)"
  obtain n us err sg s1 es where run: "run_state (saga_steps S c steps [] ?sg0) s = ((sg, err), s1)"
      "history s1 = history s @ es" and fwd: "forward_end S steps n us err es"
      and sg: "dlqHandler sg = dlqHandler ?sg0" "completed sg = (n = length steps)"
        "map step_call (compensations sg) = concat (map2 undo_calls (take n steps) us)"
    using saga_steps_end [OF assms, of ?sg0 S "[]" s] by auto
  obtain es' where rb: "history (snd (run_state (Compensate S sg) s1)) = history s1 @ es'"
      "started is_comp es' = (if completed sg then [] else map step_call (rev (compensations sg)))"
      "completed sg \<longrightarrow> es' = []"
    using library_rollback [OF sg(1)] by blast
  have "run_state (documented_saga S c (library_options S sink) steps) s =
      (Some err, snd (run_state (Compensate S sg) s1))"
    using run(1) by (simp add: documented_saga_def defer_compensate_def split_beta)
  then show ?thesis
    using fwd rb run sg
    by - (rule exI [of _ n], rule exI [of _ us], rule exI [of _ err], rule exI [of _ es], rule exI [of _ es'],
        simp add: rev_map [symmetric])
qed

text \<open>The payment saga as a list of steps.\<close>

definition payment_steps :: "PaymentInput \<Rightarrow> saga_step list" where
  "payment_steps input =
     [\<lparr>step_opts = WithFinancialAPIOptions, step_fn = ''DebitActivity'', step_args = (\<lambda>vs. [payment_val input]),
       step_prefix = ''debit failed: '',
       step_undo = Some (''ReverseDebitActivity'', \<lambda>d. [GStr (str_field ''TxID'' d)])\<rparr>,
      \<lparr>step_opts = WithFinancialAPIOptions, step_fn = ''CreditActivity'', step_args = (\<lambda>vs. [payment_val input]),
       step_prefix = ''credit failed: '', step_undo = None\<rparr>]"

theorem saga_all_or_nothing_witness:
  "\<exists>n us err forward rollback.
    fst (run_state (documented_saga (sample_sdk (\<lambda>fn. fn = ''CreditActivity'')) \<lparr>ctx_opts = None\<rparr>
      (library_options (sample_sdk (\<lambda>fn. fn = ''CreditActivity'')) (Some ''Sink''))
      (payment_steps \<lparr>PaymentID = ''p1'', FromAcct = ''a'', ToAcct = ''b'', pay_Amount = Fin 5\<rparr>)) sample_wf) = Some err \<and>
    forward_end (sample_sdk (\<lambda>fn. fn = ''CreditActivity''))
      (payment_steps \<lparr>PaymentID = ''p1'', FromAcct = ''a'', ToAcct = ''b'', pay_Amount = Fin 5\<rparr>) n us err forward \<and>
    started is_comp rollback = (if n = 2 then [] else rev (concat (map2 undo_calls
      (take n (payment_steps \<lparr>PaymentID = ''p1'', FromAcct = ''a'', ToAcct = ''b'', pay_Amount = Fin 5\<rparr>)) us)))"
proof -
  let ?steps = "payment_steps \<lparr>PaymentID = ''p1'', FromAcct = ''a'', ToAcct = ''b'', pay_Amount = Fin 5\<rparr>"
  have "\<forall>st \<in> set ?steps. \<not> is_comp (ctx_opts (step_opts st \<lparr>ctx_opts = None\<rparr>))"
    by (simp add: payment_steps_def)
  from saga_all_or_nothing [OF this, of "sample_sdk (\<lambda>fn. fn = ''CreditActivity'')" "Some ''Sink''" sample_wf]
  moreover have "length ?steps = 2" by (simp add: payment_steps_def)
  ultimately show ?thesis by metis
qed

text \<open>
  C36. The payment example is the documented pattern, as a function: for every input, SDK and
  execution the repository's workflow and the pattern over its two steps do the same.
\<close>

theorem payment_is_documented_saga:
  "PaymentSagaWorkflow S c input = documented_saga S c [] (payment_steps input)"
proof (rule state_eqI)
  fix s
  show "run_state (PaymentSagaWorkflow S c input) s = run_state (documented_saga S c [] (payment_steps input)) s"
    by (simp add: PaymentSagaWorkflow_def payment_body_def documented_saga_def payment_steps_def
        defer_compensate_def register_undo_def Let_def split_beta split: sum.split)
qed

end
