(* ===== verification/ExampleActivities.thy ===== *)
theory ExampleActivities
  imports ExampleWorkflows IdempotencyKeys
begin

text \<open>
  \<open>examples/loan-disbursement/activities.go\<close>: the simulated activities, and the loan workflow run with
  them end to end. An activity answers with an error or its result struct, and with what it
  reported on the way; the idempotency keys it makes are not used further.
\<close>

datatype activity_effect =
    MadeKey string
  | RecordHeartbeat string
  | ActLog level string "(string \<times> gval) list"

type_synonym activity_run = "(go_error + gval) \<times> activity_effect list"

definition KYCResult :: "bool \<Rightarrow> int \<Rightarrow> gval" where
  "KYCResult approved score = GStruct ''KYCResult'' [(''Approved'', GBool approved), (''Score'', GInt score)]"

definition ReserveFundsResult :: "string \<Rightarrow> gval" where
  "ReserveFundsResult reservationID = GStruct ''ReserveFundsResult'' [(''ReservationID'', GStr reservationID)]"

definition DisbursementResult :: "string \<Rightarrow> gval" where
  "DisbursementResult transactionID = GStruct ''DisbursementResult'' [(''TransactionID'', GStr transactionID)]"

lemmas result_defs = KYCResult_def ReserveFundsResult_def DisbursementResult_def

definition KYCCheckActivity :: "activity_info \<Rightarrow> gval \<Rightarrow> activity_run" where
  "KYCCheckActivity info input =
     (if str_field ''BorrowerID'' input = '''' then
        (Inl (NewBusinessError ''BorrowerBlacklisted''
           (''borrower '' @ go_quote (str_field ''BorrowerID'' input) @ '' is on the blacklist'') None),
         [MadeKey (IdempotencyKey info)])
      else (Inr (KYCResult True 750),
            [MadeKey (IdempotencyKey info)]))"

definition float_field :: "string \<Rightarrow> gval \<Rightarrow> f64" where
  "float_field n v = (case field_of v n of Some (GFloat x) \<Rightarrow> x | _ \<Rightarrow> Fin 0)"

text \<open>\<open>fmt\<close> is the verb \<open>%.2f\<close>.\<close>

definition ReserveFundsActivity :: "(f64 \<Rightarrow> string) \<Rightarrow> activity_info \<Rightarrow> gval \<Rightarrow> activity_run" where
  "ReserveFundsActivity fmt info input =
     (let effects = [MadeKey (IdempotencyKeyNoRetry info), RecordHeartbeat ''reserving funds''] in
      if f64_le (float_field ''Amount'' input) 0 then
        (Inl (NewBusinessError ''InvalidLoanAmount''
           (''loan amount '' @ fmt (float_field ''Amount'' input) @ '' is invalid'') None), effects)
      else (Inr (ReserveFundsResult (''rsv-'' @ str_field ''LoanID'' input)), effects))"

definition DisbursementActivity :: "activity_info \<Rightarrow> gval \<Rightarrow> activity_run" where
  "DisbursementActivity info input =
     (let txID = ''tx-'' @ str_field ''LoanID'' input @ ''-'' @ str_field ''ReservationID'' input in
      (Inr (DisbursementResult txID),
       [MadeKey (IdempotencyKeyNoRetry info), RecordHeartbeat ''disbursing funds'']))"

definition NotifyBorrowerActivity :: "gval \<Rightarrow> activity_run" where
  "NotifyBorrowerActivity input =
     (Inr GNil, [ActLog Info ''notifying borrower''
        [(''borrowerID'', GStr (str_field ''BorrowerID'' input)), (''loanID'', GStr (str_field ''LoanID'' input)),
         (''transactionID'', GStr (str_field ''TransactionID'' input))]])"

definition ReleaseReservationActivity :: "activity_info \<Rightarrow> gval \<Rightarrow> activity_run" where
  "ReleaseReservationActivity info input =
     (Inr GNil, [MadeKey (IdempotencyKeyNoRetry info), RecordHeartbeat ''releasing reservation'',
        ActLog Info ''reservation released''
          [(''reservationID'', GStr (str_field ''ReservationID'' input)),
           (''reason'', GStr (str_field ''Reason'' input))]])"

text \<open>The worker's table of registered activities.\<close>

definition loan_worker :: "(f64 \<Rightarrow> string) \<Rightarrow> activity_info \<Rightarrow> gofunc \<Rightarrow> gval list \<Rightarrow> go_error + gval" where
  "loan_worker fmt info fn as =
     (case as of
        [a] \<Rightarrow>
          fst (if fn = ''KYCCheckActivity'' then KYCCheckActivity info a
               else if fn = ''ReserveFundsActivity'' then ReserveFundsActivity fmt info a
               else if fn = ''DisbursementActivity'' then DisbursementActivity info a
               else if fn = ''NotifyBorrowerActivity'' then NotifyBorrowerActivity a
               else if fn = ''ReleaseReservationActivity'' then ReleaseReservationActivity info a
               else (Inl (ForeignError ''activity is not registered'' None), []))
      | _ \<Rightarrow> Inl (ForeignError ''wrong number of arguments'' None))"

text \<open>
  The SDK over a worker: an activity's error comes back inside an error of the SDK, whose text is
  arbitrary. Everything else of the SDK is as before.
\<close>

definition with_worker ::
    "(gofunc \<Rightarrow> gval list \<Rightarrow> go_error + gval) \<Rightarrow> (go_error \<Rightarrow> string) \<Rightarrow> 'w sdk \<Rightarrow> 'w sdk" where
  "with_worker worker render S = S\<lparr>sdk_get := (\<lambda>f w.
     (case worker (f_fn f) (f_args f) of
        Inl e \<Rightarrow> Inl (ForeignError (render e) (Some e)) | Inr v \<Rightarrow> Inr v, w))\<rparr>"

lemma with_worker_get [simp]:
  "sdk_get (with_worker worker render S) f w =
     (case worker (f_fn f) (f_args f) of
        Inl e \<Rightarrow> Inl (ForeignError (render e) (Some e)) | Inr v \<Rightarrow> Inr v, w)"
  by (simp add: with_worker_def)

definition with_loan_worker ::
    "(f64 \<Rightarrow> string) \<Rightarrow> activity_info \<Rightarrow> (go_error \<Rightarrow> string) \<Rightarrow> 'w sdk \<Rightarrow> 'w sdk" where
  "with_loan_worker fmt info = with_worker (loan_worker fmt info)"

lemma loan_worker_get [simp]:
  "sdk_get (with_loan_worker fmt info render S) f w =
     (case loan_worker fmt info (f_fn f) (f_args f) of
        Inl e \<Rightarrow> Inl (ForeignError (render e) (Some e)) | Inr v \<Rightarrow> Inr v, w)"
  by (simp add: with_loan_worker_def)

lemmas field_defs = str_field_def float_field_def bool_field_def int_field_def field_of_def
lemmas loan_args = payload_defs result_defs kyc_arg_def reserve_arg_def release_arg_def disburse_arg_def notify_arg_def

lemma loan_worker_kyc [simp]:
  "loan_worker fmt info ''KYCCheckActivity'' [kyc_arg input] =
     (if BorrowerID input = ''''
      then Inl (NewBusinessError ''BorrowerBlacklisted'' (''borrower '' @ go_quote '''' @ '' is on the blacklist'') None)
      else Inr (GStruct ''KYCResult'' [(''Approved'', GBool True), (''Score'', GInt 750)]))"
  by (simp add: loan_worker_def KYCCheckActivity_def loan_args field_defs)

lemma loan_worker_reserve [simp]:
  "loan_worker fmt info ''ReserveFundsActivity'' [reserve_arg input] =
     (if f64_le (loan_Amount input) 0
      then Inl (NewBusinessError ''InvalidLoanAmount'' (''loan amount '' @ fmt (loan_Amount input) @ '' is invalid'') None)
      else Inr (GStruct ''ReserveFundsResult'' [(''ReservationID'', GStr (''rsv-'' @ LoanID input))]))"
  by (simp add: loan_worker_def ReserveFundsActivity_def loan_args field_defs Let_def)

lemma loan_worker_disburse [simp]:
  "loan_worker fmt info ''DisbursementActivity'' [disburse_arg input rsv] =
     Inr (GStruct ''DisbursementResult'' [(''TransactionID'', GStr (''tx-'' @ LoanID input @ ''-'' @ rsv))])"
  by (simp add: loan_worker_def DisbursementActivity_def loan_args field_defs Let_def)

lemma loan_worker_notify [simp]:
  "loan_worker fmt info ''NotifyBorrowerActivity'' [notify_arg input tx] = Inr GNil"
  by (simp add: loan_worker_def NotifyBorrowerActivity_def)

lemma run_activity_with_worker:
  "fst (run_state (run_activity (with_worker worker render S) c fn as) s) =
    (case worker fn as of Inl e \<Rightarrow> Inl (ForeignError (render e) (Some e)) | Inr v \<Rightarrow> Inr v)"
  by (simp add: run_activity_def execute_activity_def future_get_def Let_def)

lemmas run_activity_worker = run_activity_with_worker [of "loan_worker fmt info" for fmt info, folded with_loan_worker_def]

text \<open>
  What the gate answers from the state it is met in: the decision it depends on is the case the
  selector runs and the payload that the receive leaves.
\<close>

definition approval_granted ::
    "'w sdk \<Rightarrow> (ApprovalResult \<Rightarrow> 'w \<Rightarrow> ApprovalResult \<times> 'w) \<Rightarrow> (f64 \<Rightarrow> string) \<Rightarrow> LoanDisbursementInput \<Rightarrow> 'w wf \<Rightarrow> bool" where
  "approval_granted S recv fmt input s \<longleftrightarrow>
     (let choice = approval_choice S (approval_request fmt input) (snd (run_state (upsert_stage ''AWAITING_APPROVAL'') s)) in
      LoanID input \<noteq> '''' \<and> fst choice = 0 \<and> Approved (fst (recv zero_approval (snd choice))))"

definition gate_answer :: "LoanDisbursementInput \<Rightarrow> bool \<Rightarrow> go_error option" where
  "gate_answer input granted =
     (if \<not> needs_approval input \<or> granted then None
      else if LoanID input = '''' then Some (ErrorString ''WaitForApproval: ApprovalID is required'')
      else Some (NewBusinessError ''LoanRejected'' ''loan application was not approved'' None))"

lemma loan_gate_answer:
  assumes "selector_documented S"
  shows "fst (run_state (loan_gate S recv fmt input) s) = Some (gate_answer input (approval_granted S recv fmt input s))"
proof (cases "needs_approval input \<and> LoanID input \<noteq> ''''")
  case True
  let ?req = "approval_request fmt input" and ?s0 = "snd (run_state (upsert_stage ''AWAITING_APPROVAL'') s)"
  have v: "valid_request ?req" using True by (simp add: valid_request_def approval_request_def Hour_def)
  consider "fst (approval_choice S ?req ?s0) = 0" | "fst (approval_choice S ?req ?s0) = 1"
    by (rule approval_choice_cases [OF assms])
  then show ?thesis
    using True
    by cases (simp_all add: loan_gate_def gate_answer_def approval_granted_def Let_def split_beta
        WaitForApproval_result [OF v] zero_approval_def)
next
  case False
  then show ?thesis
    by (auto simp: loan_gate_def gate_answer_def approval_granted_def Let_def split_beta WaitForApproval_def approval_request_def)
qed

text \<open>A gate that is passed was granted its approval.\<close>

lemma gate_passed_granted:
  assumes "gate_passed S recv fmt input s s'" and "needs_approval input" and "selector_documented S"
  shows "approval_granted S recv fmt input s"
proof -
  let ?req = "approval_request fmt input" and ?s0 = "snd (run_state (upsert_stage ''AWAITING_APPROVAL'') s)"
  obtain a where a: "run_state (WaitForApproval S recv ?req) ?s0 = (Some (a, None), s')"
      "SignalReceived approvalSignalName \<in> set (appended (WaitForApproval S recv ?req) ?s0)"
      "Approved (fst (recv zero_approval (snd (approval_choice S ?req ?s0))))"
    using assms(1,2) by (auto simp: gate_passed_def needs_approval_def Let_def)
  have v: "valid_request ?req"
    using WaitForApproval_invalid [of ?req S recv ?s0] a(1) by auto
  then have "LoanID input \<noteq> ''''" by (simp add: valid_request_def approval_request_def)
  with a(2,3) v show ?thesis by (simp add: approval_granted_def WaitForApproval_received Let_def)
qed

text \<open>The answer of the body, whose KYC activity leaves the state \<open>kyc_state\<close>.\<close>

definition kyc_state :: "'w sdk \<Rightarrow> ctx \<Rightarrow> LoanDisbursementInput \<Rightarrow> 'w wf \<Rightarrow> 'w wf" where
  "kyc_state S c input s =
     snd (run_state (run_activity S (WithInternalServiceOptions c) ''KYCCheckActivity'' [kyc_arg input]) s)"

lemma loan_body_answer:
  fixes S :: "'w sdk" and fmt :: "f64 \<Rightarrow> string" and info :: activity_info and render :: "go_error \<Rightarrow> string"
  defines "W \<equiv> with_loan_worker fmt info render S"
  assumes "selector_documented W"
  shows "\<exists>t. map_option snd (fst (run_state (loan_body W recv fmt' c input changes) s)) = Some
    (if BorrowerID input = '''' then
       Inl (WrapError ''KYC check failed: '' (let e = NewBusinessError ''BorrowerBlacklisted''
         (''borrower '' @ go_quote '''' @ '' is on the blacklist'') None in ForeignError (render e) (Some e)))
     else case gate_answer input (approval_granted W recv fmt' input (kyc_state W c input s)) of
       Some e \<Rightarrow> Inl e
     | None \<Rightarrow> if f64_le (loan_Amount input) 0 then
         Inl (WrapError ''reserve funds failed: '' (let e = NewBusinessError ''InvalidLoanAmount''
           (''loan amount '' @ fmt (loan_Amount input) @ '' is invalid'') None in ForeignError (render e) (Some e)))
       else Inr \<lparr>TransactionID = ''tx-'' @ LoanID input @ ''-rsv-'' @ LoanID input, DisbursedAt = t\<rparr>)"
proof -
  define after where "after cc fn as u = snd (run_state (run_activity W cc fn as) u)" for cc :: ctx and fn as u
  have run: "run_state (run_activity W cc fn as) u =
      (case loan_worker fmt info fn as of Inl e \<Rightarrow> Inl (ForeignError (render e) (Some e)) | Inr v \<Rightarrow> Inr v,
       after cc fn as u)" for cc :: ctx and fn as u
    using run_activity_worker [of fmt info render S cc fn as u] by (simp add: W_def after_def prod_eq_iff)
  have refusal: "kyc_refusal changes (GStruct ''KYCResult'' [(''Approved'', GBool True), (''Score'', GInt 750)]) = None"
    by (simp add: kyc_refusal_def field_defs)
  define passed where "passed u = snd (run_state (loan_gate W recv fmt' input) u)" for u
  have gate: "run_state (loan_gate W recv fmt' input) u =
      (Some (gate_answer input (approval_granted W recv fmt' input u)), passed u)" for u
    using loan_gate_answer [OF assms(2)] by (simp add: passed_def prod_eq_iff)
  show ?thesis
    by (cases "gate_answer input (approval_granted W recv fmt' input (kyc_state W c input s))")
      (simp_all add: loan_body_def loan_disburse_def Let_def run refusal gate kyc_state_def upsert_stage_def
        str_field_def field_of_def)
qed

lemma selector_with_worker [simp]: "selector_documented (with_loan_worker fmt info render S) = selector_documented S"
  by (simp add: selector_documented_def with_loan_worker_def with_worker_def)

lemma loan_answer:
  "fst (run_state (LoanDisbursementWorkflow S recv fmt' c input) s) =
    map_option snd (fst (run_state (loan_body S recv fmt' c input (fst (run_state (loan_start S input) s)))
      (snd (run_state (loan_start S input) s))))"
  by (simp add: loan_start_body fst_defer_compensate)

subsection \<open>Properties\<close>



end
