(* ===== verification/StartOrAttaching.thy ===== *)
theory StartOrAttaching
  imports SdkTypes
begin

text \<open>
  \<open>client/start.go\<close>: starting a workflow under an id of the caller's, or attaching to the one that
  runs under it. The Temporal client is the SDK's, over an unknown server state \<open>'st\<close>.
\<close>

datatype reuse_policy = UNSPECIFIED | ALLOW_DUPLICATE | ALLOW_DUPLICATE_FAILED_ONLY | REJECT_DUPLICATE

text \<open>
  The fields of \<open>client.StartWorkflowOptions\<close> that matter here. The last one is
  \<open>WorkflowExecutionErrorWhenAlreadyStarted\<close>, which the source never sets but lets through.
\<close>

record StartWorkflowOptions =
  swo_ID :: string
  swo_TaskQueue :: string
  swo_ReusePolicy :: reuse_policy
  swo_ErrorWhenAlreadyStarted :: bool

record WorkflowHandle =
  wh_WorkflowID :: string
  wh_RunID :: string
  AlreadyRunning :: bool

text \<open>
  \<open>ExecuteWorkflow\<close> answers with an error or with a run's id and run id; \<open>DescribeWorkflowExecution\<close>
  with the current run id; the third field is \<open>errors.As\<close> for \<open>WorkflowExecutionAlreadyStarted\<close>.
\<close>

record 'st temporal_client =
  tc_ExecuteWorkflow ::
    "StartWorkflowOptions \<Rightarrow> gofunc \<Rightarrow> gval list \<Rightarrow> 'st \<Rightarrow> (go_error + string \<times> string) \<times> 'st"
  tc_Describe :: "string \<Rightarrow> 'st \<Rightarrow> (go_error + string) \<times> 'st"
  tc_AlreadyStarted :: "go_error \<Rightarrow> bool"

definition StartOrAttachWithOptions ::
    "'st temporal_client \<Rightarrow> string \<Rightarrow> StartWorkflowOptions \<Rightarrow> gofunc \<Rightarrow> gval list \<Rightarrow> 'st \<Rightarrow>
     (go_error + WorkflowHandle) \<times> 'st" where
  "StartOrAttachWithOptions cl workflowID opts fn as st =
     (if workflowID = '''' then (Inl (ErrorString ''StartOrAttach: workflowID is required''), st)
      else
        (let opts = opts\<lparr>swo_ID := workflowID, swo_ReusePolicy := ALLOW_DUPLICATE\<rparr> in
         case tc_ExecuteWorkflow cl opts fn as st of
           (Inr (i, r), st') \<Rightarrow>
             (Inr \<lparr>wh_WorkflowID = i, wh_RunID = r, AlreadyRunning = False\<rparr>, st')
         | (Inl err, st') \<Rightarrow>
             if \<not> tc_AlreadyStarted cl err then
               (Inl (WrapError (''start workflow '' @ go_quote workflowID @ '': '') err), st')
             else
               (case tc_Describe cl workflowID st' of
                  (Inl descErr, st'') \<Rightarrow>
                    (Inl (WrapError (''workflow '' @ go_quote workflowID @
                       '' already running but describe failed: '') descErr), st'')
                | (Inr runId, st'') \<Rightarrow>
                    (Inr \<lparr>wh_WorkflowID = workflowID, wh_RunID = runId, AlreadyRunning = True\<rparr>, st''))))"

definition StartOrAttach ::
    "'st temporal_client \<Rightarrow> string \<Rightarrow> string \<Rightarrow> gofunc \<Rightarrow> gval list \<Rightarrow> 'st \<Rightarrow>
     (go_error + WorkflowHandle) \<times> 'st" where
  "StartOrAttach cl workflowID taskQueue fn as st =
     StartOrAttachWithOptions cl workflowID
       \<lparr>swo_ID = '''', swo_TaskQueue = taskQueue, swo_ReusePolicy = UNSPECIFIED,
        swo_ErrorWhenAlreadyStarted = False\<rparr> fn as st"

subsection \<open>The documented behaviour of the server and the SDK\<close>

text \<open>
  \<open>running\<close> is the run that is open under an id. With \<open>AllowDuplicate\<close> a start under a free id opens a
  run or fails; under an id in use it opens none, and answers with the open run, or with
  \<open>WorkflowExecutionAlreadyStarted\<close> if the option asks for that error.
\<close>

definition server_documented :: "'st temporal_client \<Rightarrow> ('st \<Rightarrow> string \<rightharpoonup> string) \<Rightarrow> bool" where
  "server_documented cl running \<longleftrightarrow>
     (\<forall>opts fn as st. swo_ReusePolicy opts = ALLOW_DUPLICATE \<longrightarrow>
        (case running st (swo_ID opts) of
           None \<Rightarrow>
             (case tc_ExecuteWorkflow cl opts fn as st of
                (Inr (i, r), st') \<Rightarrow> i = swo_ID opts \<and> running st' = (running st)(i \<mapsto> r)
              | (Inl e, st') \<Rightarrow> \<not> tc_AlreadyStarted cl e \<and> running st' = running st)
         | Some r \<Rightarrow>
             (case tc_ExecuteWorkflow cl opts fn as st of
                (Inr (i, r'), st') \<Rightarrow> \<not> swo_ErrorWhenAlreadyStarted opts \<and>
                  i = swo_ID opts \<and> r' = r \<and> running st' = running st
              | (Inl e, st') \<Rightarrow> running st' = running st \<and>
                  (tc_AlreadyStarted cl e \<longrightarrow> swo_ErrorWhenAlreadyStarted opts)))) \<and>
     (\<forall>i st r. running st i = Some r \<longrightarrow>
        (case tc_Describe cl i st of (Inr r', st') \<Rightarrow> r' = r \<and> running st' = running st
         | (Inl e, st') \<Rightarrow> running st' = running st))"

lemma start_effect:
  assumes "server_documented cl running" "workflowID \<noteq> ''''"
  shows "case StartOrAttachWithOptions cl workflowID opts fn as st of
      (Inr h, st') \<Rightarrow> wh_WorkflowID h = workflowID \<and> running st' = (running st)(workflowID \<mapsto> wh_RunID h) \<and>
        (case running st workflowID of None \<Rightarrow> \<not> AlreadyRunning h
         | Some r \<Rightarrow> wh_RunID h = r \<and> (AlreadyRunning h \<longleftrightarrow> swo_ErrorWhenAlreadyStarted opts))
    | (Inl e, st') \<Rightarrow> running st' = running st"
proof -
  let ?o = "opts\<lparr>swo_ID := workflowID, swo_ReusePolicy := ALLOW_DUPLICATE\<rparr>"
  obtain x st1 where 1: "tc_ExecuteWorkflow cl ?o fn as st = (x, st1)" by fastforce
  obtain y st2 where 2: "tc_Describe cl workflowID st1 = (y, st2)" by fastforce
  have exec: "case running st workflowID of
           None \<Rightarrow>
             (case (x, st1) of
                (Inr (i, r), st') \<Rightarrow> i = workflowID \<and> running st' = (running st)(i \<mapsto> r)
              | (Inl e, st') \<Rightarrow> \<not> tc_AlreadyStarted cl e \<and> running st' = running st)
         | Some r \<Rightarrow>
             (case (x, st1) of
                (Inr (i, r'), st') \<Rightarrow> \<not> swo_ErrorWhenAlreadyStarted opts \<and>
                  i = workflowID \<and> r' = r \<and> running st' = running st
              | (Inl e, st') \<Rightarrow> running st' = running st \<and>
                  (tc_AlreadyStarted cl e \<longrightarrow> swo_ErrorWhenAlreadyStarted opts))"
    using conjunct1 [OF assms(1) [unfolded server_documented_def], THEN spec [of _ ?o], THEN spec [of _ fn],
        THEN spec [of _ as], THEN spec [of _ st]] 1
    by (cases "running st workflowID"; cases x) (simp_all split: prod.splits)
  have desc: "running st1 workflowID = Some r \<Longrightarrow> case (y, st2) of (Inr r', st') \<Rightarrow> r' = r \<and> running st' = running st1
         | (Inl e, st') \<Rightarrow> running st' = running st1" for r
    using assms(1) 2 unfolding server_documented_def by fastforce
  show ?thesis
    using assms(2) exec desc 1 2
    by (auto simp: StartOrAttachWithOptions_def Let_def map_upd_triv fun_upd_idem
        split: option.splits sum.splits prod.splits)
qed

subsection \<open>Properties\<close>

text \<open>
  C29. No double execution while a run is open: when a start under an id succeeded and that run is
  still the running one of the id, on a server that behaves as documented, a later call under the id
  that succeeds returns the very same run and opens none, and one that fails opens none either. A
  start after the run has closed may open a new one, and is not covered. Whether a later call
  says \<open>AlreadyRunning\<close> depends on an option the library does not set: \<open>StartOrAttach\<close> itself always
  answers that it started the run, contrary to its comment.
\<close>

theorem retried_start_same_run:
  assumes "server_documented cl running"
    and "StartOrAttachWithOptions cl workflowID opts fn as st = (Inr h, st1)"
    and "running st2 workflowID = running st1 workflowID"
  shows "(case StartOrAttachWithOptions cl workflowID opts' fn' as' st2 of
      (Inr h', st3) \<Rightarrow> wh_RunID h' = wh_RunID h \<and> running st3 = running st2 \<and>
        (AlreadyRunning h' \<longleftrightarrow> swo_ErrorWhenAlreadyStarted opts')
    | (Inl e, st3) \<Rightarrow> running st3 = running st2) \<and>
    (case fst (StartOrAttach cl workflowID tq fn' as' st2) of
       Inr h' \<Rightarrow> wh_RunID h' = wh_RunID h \<and> \<not> AlreadyRunning h' | Inl e \<Rightarrow> True)"
proof -
  have id: "workflowID \<noteq> ''''"
    using assms(2) by (auto simp: StartOrAttachWithOptions_def)
  have open_run: "running st2 workflowID = Some (wh_RunID h)"
    using start_effect [OF assms(1) id, where opts = opts and fn = fn and as = as and st = st] assms(2,3) by simp
  show ?thesis
    unfolding StartOrAttach_def
    using start_effect [OF assms(1) id, where opts = opts' and fn = fn' and as = as' and st = st2] open_run
      start_effect [OF assms(1) id, where opts = "\<lparr>swo_ID = '''', swo_TaskQueue = tq, swo_ReusePolicy = UNSPECIFIED,
        swo_ErrorWhenAlreadyStarted = False\<rparr>" and fn = fn' and as = as' and st = st2]
    by (auto simp: fun_upd_idem split: sum.splits prod.splits)
qed

text \<open>A server that keeps its promises, for the witness: runs are numbered by their ids.\<close>

definition sample_server :: "(string \<rightharpoonup> string) temporal_client" where
  "sample_server =
     \<lparr>tc_ExecuteWorkflow = (\<lambda>opts fn as st.
        case st (swo_ID opts) of
          None \<Rightarrow> (Inr (swo_ID opts, ''run-1''), st(swo_ID opts \<mapsto> ''run-1''))
        | Some r \<Rightarrow>
            if swo_ErrorWhenAlreadyStarted opts then (Inl (ForeignError ''already started'' None), st)
            else (Inr (swo_ID opts, r), st)),
      tc_Describe = (\<lambda>i st. (case st i of None \<Rightarrow> Inl (ErrorString ''not found'') | Some r \<Rightarrow> Inr r, st)),
      tc_AlreadyStarted = (\<lambda>e. e = ForeignError ''already started'' None)\<rparr>"

theorem retried_start_same_run_witness:
  "case fst (StartOrAttach sample_server ''loan-1'' ''q'' ''Loan'' [] [''loan-1'' \<mapsto> ''run-1'']) of
     Inr h' \<Rightarrow> wh_RunID h' = ''run-1'' \<and> \<not> AlreadyRunning h' | Inl e \<Rightarrow> True"
proof -
  let ?o = "\<lparr>swo_ID = '''', swo_TaskQueue = ''q'', swo_ReusePolicy = UNSPECIFIED, swo_ErrorWhenAlreadyStarted = True\<rparr>"
  have doc: "server_documented sample_server (\<lambda>st. st)"
    by (simp add: server_documented_def sample_server_def split: option.split)
  have first: "StartOrAttachWithOptions sample_server ''loan-1'' ?o ''Loan'' [] Map.empty =
      (Inr \<lparr>wh_WorkflowID = ''loan-1'', wh_RunID = ''run-1'', AlreadyRunning = False\<rparr>, [''loan-1'' \<mapsto> ''run-1''])"
    by (simp add: StartOrAttachWithOptions_def sample_server_def)
  show ?thesis
    using retried_start_same_run [where running = "\<lambda>st. st" and cl = sample_server and workflowID = "''loan-1''"
        and opts' = ?o and fn' = "''Loan''" and as' = "[]" and tq = "''q''" and ?st2.0 = "[''loan-1'' \<mapsto> ''run-1'']",
        OF doc first]
    by (cases "fst (StartOrAttach sample_server ''loan-1'' ''q'' ''Loan'' [] [''loan-1'' \<mapsto> ''run-1''])") simp_all
qed

end
