(* ===== verification/SlaMonitor.thy ===== *)
theory SlaMonitor
  imports SdkTypes
begin

text \<open>
  \<open>client/sla.go\<close>: the monitors that look for workflows running too long. The list of open workflows
  comes from the server, and \<open>time.Since\<close> reads the clock once per workflow: both are inputs of a
  poll.
\<close>

record SLABreachEvent =
  sb_WorkflowID :: string
  sb_WorkflowType :: string
  RunningFor :: duration
  Threshold :: duration
  Level :: string

text \<open>The callback is known by whether it is set; calling it is an effect.\<close>

record SLAConfig =
  WarnAfter :: duration
  AlertAfter :: duration
  AlertFn :: "gofunc option"

record slaEntry =
  workflowType :: string
  sla_config :: SLAConfig

record open_exec =
  ex_WorkflowId :: string
  ex_StartTime :: time

datatype sla_effect =
    SlaLog level string "(string \<times> gval) list"
  | CallAlertFn SLABreachEvent

definition workflowFunctionName :: "string \<Rightarrow> string \<Rightarrow> string" where
  "workflowFunctionName type_text fullName =
     (let name = last (go_split (CHR ''.'') fullName) in if name = '''' then type_text else name)"

text \<open>Registering: an entry only if some threshold is set.\<close>

definition RegisterWorkflowWithSLA :: "string \<Rightarrow> string \<Rightarrow> SLAConfig \<Rightarrow> slaEntry list \<Rightarrow> slaEntry list" where
  "RegisterWorkflowWithSLA type_text fullName cfg entries =
     (if WarnAfter cfg = 0 \<and> AlertAfter cfg = 0 then entries
      else entries @ [\<lparr>workflowType = workflowFunctionName type_text fullName, sla_config = cfg\<rparr>])"

text \<open>The poll interval.\<close>

definition poll_interval :: "SLAConfig \<Rightarrow> duration" where
  "poll_interval cfg =
     (let interval = 30 * Second;
          interval = (if 0 < WarnAfter cfg \<and> go_div (WarnAfter cfg) 2 < interval
                      then go_div (WarnAfter cfg) 2 else interval);
          interval = (if 0 < AlertAfter cfg \<and> go_div (AlertAfter cfg) 2 < interval
                      then go_div (AlertAfter cfg) 2 else interval);
          interval = (if interval < 30 * Second then 30 * Second else interval)
      in interval)"

text \<open>
  One listed workflow, at the instant its running time is taken. The map \<open>alerted\<close> is the set of
  the ids it holds.
\<close>

definition check_exec ::
    "slaEntry \<Rightarrow> open_exec \<times> time \<Rightarrow> string set \<Rightarrow> string set \<times> sla_effect list" where
  "check_exec entry = (\<lambda>(exec, now) alerted.
     (let cfg = sla_config entry;
          runningFor = time_Sub now (ex_StartTime exec);
          wfID = ex_WorkflowId exec
      in
        if 0 < AlertAfter cfg \<and> AlertAfter cfg \<le> runningFor \<and> wfID \<notin> alerted then
          (insert wfID alerted,
           SlaLog Error ''sla breach: alert threshold exceeded''
             [(''workflowID'', GStr wfID), (''runningFor'', GInt runningFor), (''alertAfter'', GInt (AlertAfter cfg))] #
           (case AlertFn cfg of
              None \<Rightarrow> []
            | Some f \<Rightarrow> [CallAlertFn \<lparr>sb_WorkflowID = wfID, sb_WorkflowType = workflowType entry,
                RunningFor = runningFor, Threshold = AlertAfter cfg, Level = ''alert''\<rparr>]))
        else if 0 < WarnAfter cfg \<and> WarnAfter cfg \<le> runningFor then
          (alerted,
           [SlaLog Warn ''sla breach: warn threshold exceeded''
             [(''workflowID'', GStr wfID), (''runningFor'', GInt runningFor), (''warnAfter'', GInt (WarnAfter cfg))]])
        else (alerted, [])))"

fun check_execs ::
    "slaEntry \<Rightarrow> (open_exec \<times> time) list \<Rightarrow> string set \<Rightarrow> string set \<times> sla_effect list" where
  "check_execs entry [] alerted = (alerted, [])"
| "check_execs entry (x # xs) alerted =
     (case check_exec entry x alerted of (alerted', es) \<Rightarrow>
        (case check_execs entry xs alerted' of (alerted'', es') \<Rightarrow> (alerted'', es @ es')))"

text \<open>
  One poll. The response is the server's to a request for open workflows of the entry's type, at
  most 1000 of them; no further page is asked for.
\<close>

definition checkSLA ::
    "slaEntry \<Rightarrow> go_error + (open_exec \<times> time) list \<Rightarrow> string set \<Rightarrow> string set \<times> sla_effect list" where
  "checkSLA entry resp alerted =
     (case resp of
        Inl err \<Rightarrow> (alerted, [SlaLog Error ''sla monitor: list open workflows failed''
          [(''workflowType'', GStr (workflowType entry)), (''error'', GErr err)]])
      | Inr execs \<Rightarrow> check_execs entry execs alerted)"

text \<open>The monitor's loop over the polls made before its context is done.\<close>

fun monitor_polls ::
    "slaEntry \<Rightarrow> (go_error + (open_exec \<times> time) list) list \<Rightarrow> string set \<Rightarrow> sla_effect list" where
  "monitor_polls entry [] alerted = []"
| "monitor_polls entry (p # ps) alerted =
     (case checkSLA entry p alerted of (alerted', es) \<Rightarrow> es @ monitor_polls entry ps alerted')"

definition runSLAMonitor :: "slaEntry \<Rightarrow> (go_error + (open_exec \<times> time) list) list \<Rightarrow> sla_effect list" where
  "runSLAMonitor entry polls =
     SlaLog Info ''sla monitor started''
       [(''workflowType'', GStr (workflowType entry)), (''warnAfter'', GInt (WarnAfter (sla_config entry))),
        (''alertAfter'', GInt (AlertAfter (sla_config entry))), (''pollInterval'', GInt (poll_interval (sla_config entry)))] #
     monitor_polls entry polls {}"

subsection \<open>The alerts of a monitor\<close>

definition alerts :: "sla_effect list \<Rightarrow> SLABreachEvent list" where
  "alerts es = List.map_filter (\<lambda>e. case e of CallAlertFn ev \<Rightarrow> Some ev | _ \<Rightarrow> None) es"

lemma alerts_simps [simp]:
  "alerts [] = []" "alerts (es @ es') = alerts es @ alerts es'"
  "alerts (SlaLog l m kvs # es) = alerts es" "alerts (CallAlertFn ev # es) = ev # alerts es"
  by (simp_all add: alerts_def List.map_filter_def)

text \<open>A workflow that a poll shows over its alert threshold.\<close>

definition over :: "slaEntry \<Rightarrow> open_exec \<times> time \<Rightarrow> bool" where
  "over entry = (\<lambda>(exec, now). 0 < AlertAfter (sla_config entry) \<and>
     AlertAfter (sla_config entry) \<le> time_Sub now (ex_StartTime exec))"

definition seen :: "(go_error + (open_exec \<times> time) list) list \<Rightarrow> (open_exec \<times> time) list" where
  "seen polls = concat (map (\<lambda>p. case p of Inl e \<Rightarrow> [] | Inr xs \<Rightarrow> xs) polls)"

lemma seen_simps [simp]:
  "seen [] = []" "seen (Inl e # ps) = seen ps" "seen (Inr xs # ps) = xs @ seen ps"
  by (simp_all add: seen_def)

text \<open>The ids in an order of first breach, without those alerted before.\<close>

fun first_breaches :: "slaEntry \<Rightarrow> (open_exec \<times> time) list \<Rightarrow> string set \<Rightarrow> string list" where
  "first_breaches entry [] old = []"
| "first_breaches entry (x # xs) old =
     (if over entry x \<and> ex_WorkflowId (fst x) \<notin> old
      then ex_WorkflowId (fst x) # first_breaches entry xs (insert (ex_WorkflowId (fst x)) old)
      else first_breaches entry xs old)"

definition alerted_after :: "slaEntry \<Rightarrow> (open_exec \<times> time) list \<Rightarrow> string set \<Rightarrow> string set" where
  "alerted_after entry xs old = old \<union> (\<lambda>x. ex_WorkflowId (fst x)) ` {x \<in> set xs. over entry x}"

lemma first_breaches_append:
  "first_breaches entry (xs @ ys) old =
    first_breaches entry xs old @ first_breaches entry ys (alerted_after entry xs old)"
proof (induction xs arbitrary: old)
  case (Cons x xs)
  have "over entry x \<Longrightarrow> alerted_after entry xs (insert (ex_WorkflowId (fst x)) old) = alerted_after entry (x # xs) old"
    "\<not> over entry x \<or> ex_WorkflowId (fst x) \<in> old \<Longrightarrow> alerted_after entry xs old = alerted_after entry (x # xs) old"
    by (auto simp: alerted_after_def)
  then show ?case using Cons by (simp del: insert_iff)
qed (simp add: alerted_after_def)

lemma first_breaches_set:
  "set (first_breaches entry xs old) = (\<lambda>x. ex_WorkflowId (fst x)) ` {x \<in> set xs. over entry x} - old"
  by (induction entry xs old rule: first_breaches.induct) auto

lemma first_breaches_distinct: "distinct (first_breaches entry xs old)"
  by (induction entry xs old rule: first_breaches.induct) (auto simp: first_breaches_set)

lemma check_execs_alerts:
  assumes "AlertFn (sla_config entry) = Some f"
  shows "fst (check_execs entry xs old) = alerted_after entry xs old \<and>
    map sb_WorkflowID (alerts (snd (check_execs entry xs old))) = first_breaches entry xs old"
proof (induction xs arbitrary: old)
  case (Cons x xs)
  have one: "fst (check_exec entry x old) = alerted_after entry [x] old \<and>
      map sb_WorkflowID (alerts (snd (check_exec entry x old))) = first_breaches entry [x] old"
    using assms by (auto simp: check_exec_def alerted_after_def over_def Let_def split: prod.splits)
  have "alerted_after entry xs (alerted_after entry [x] old) = alerted_after entry (x # xs) old"
    by (auto simp: alerted_after_def)
  then show ?case
    using one Cons [of "alerted_after entry [x] old"] first_breaches_append [of entry "[x]" xs old]
    by (simp add: split_beta)
qed (simp add: alerted_after_def)

lemma monitor_alerts:
  assumes "AlertFn (sla_config entry) = Some f"
  shows "map sb_WorkflowID (alerts (monitor_polls entry ps old)) = first_breaches entry (seen ps) old"
proof (induction ps arbitrary: old)
  case (Cons p ps)
  show ?case
  proof (cases p)
    case (Inr xs)
    then show ?thesis
      using check_execs_alerts [OF assms, of xs old] Cons
      by (simp add: checkSLA_def split_beta first_breaches_append)
  qed (simp add: checkSLA_def Cons)
qed simp

text \<open>
  The poll interval is the same for every configuration: it starts at 30 seconds, is only lowered,
  and is then raised to 30 seconds again.
\<close>

lemma poll_interval_constant [simp]: "poll_interval cfg = 30 * Second"
  by (simp add: poll_interval_def Let_def)

subsection \<open>Properties\<close>

text \<open>
  C30. Over its whole life a monitor calls the alert function exactly once for every workflow id that
  some successful poll showed at or over the alert threshold, at its first such appearance, and for
  no other. "Once per workflow" means per id: a later run under the same id is never alerted. It
  polls every 30 seconds, whatever its thresholds: the comment's "half the smaller threshold, minimum
  30s" never takes effect.
\<close>

theorem alert_once_per_workflow_id:
  assumes "AlertFn (sla_config entry) = Some f"
  shows "let ids = map sb_WorkflowID (alerts (runSLAMonitor entry polls)) in
    distinct ids \<and> ids = first_breaches entry (seen polls) {} \<and>
    set ids = (\<lambda>x. ex_WorkflowId (fst x)) ` {x \<in> set (seen polls). over entry x} \<and>
    poll_interval (sla_config entry) = 30 * Second"
  using monitor_alerts [OF assms, of polls "{}"] first_breaches_distinct
  by (auto simp: runSLAMonitor_def Let_def first_breaches_set)

theorem alert_once_per_workflow_id_witness:
  "map sb_WorkflowID (alerts (runSLAMonitor
     \<lparr>workflowType = ''Loan'', sla_config = \<lparr>WarnAfter = 0, AlertAfter = Hour, AlertFn = Some ''page''\<rparr>\<rparr>
     [Inr [(\<lparr>ex_WorkflowId = ''a'', ex_StartTime = 0\<rparr>, 2 * Hour)], Inl (ErrorString ''down''),
      Inr [(\<lparr>ex_WorkflowId = ''a'', ex_StartTime = 5 * Hour\<rparr>, 9 * Hour)]])) = [''a'']"
  using alert_once_per_workflow_id [of "\<lparr>workflowType = ''Loan'', sla_config = \<lparr>WarnAfter = 0, AlertAfter = Hour, AlertFn = Some ''page''\<rparr>\<rparr>"
     "''page''" "[Inr [(\<lparr>ex_WorkflowId = ''a'', ex_StartTime = 0\<rparr>, 2 * Hour)], Inl (ErrorString ''down''),
      Inr [(\<lparr>ex_WorkflowId = ''a'', ex_StartTime = 5 * Hour\<rparr>, 9 * Hour)]]"]
  by (simp add: Let_def seen_def over_def time_Sub_def minDuration_def maxDuration_def Hour_def)

text \<open>The instants of the ticker of a monitor started at \<open>t0\<close>.\<close>

definition tick :: "slaEntry \<Rightarrow> time \<Rightarrow> nat \<Rightarrow> time" where
  "tick entry t0 k = t0 + int (Suc k) * poll_interval (sla_config entry)"

lemma over_iff:
  assumes "0 < AlertAfter (sla_config entry)" and "AlertAfter (sla_config entry) \<le> maxDuration"
  shows "over entry (exec, now) \<longleftrightarrow> ex_StartTime exec + AlertAfter (sla_config entry) \<le> now"
  using assms by (auto simp: over_def time_Sub_def minDuration_def)

text \<open>The event of an alert for a listed execution.\<close>

definition breach_event :: "slaEntry \<Rightarrow> open_exec \<Rightarrow> time \<Rightarrow> SLABreachEvent" where
  "breach_event entry exec now =
     \<lparr>sb_WorkflowID = ex_WorkflowId exec, sb_WorkflowType = workflowType entry,
      RunningFor = time_Sub now (ex_StartTime exec), Threshold = AlertAfter (sla_config entry), Level = ''alert''\<rparr>"

text \<open>All that is listed under the id of an execution is that execution, at this instant.\<close>

definition only_run :: "open_exec \<Rightarrow> time \<Rightarrow> (open_exec \<times> time) list \<Rightarrow> bool" where
  "only_run exec now xs \<longleftrightarrow> (\<forall>(x, t) \<in> set xs. ex_WorkflowId x = ex_WorkflowId exec \<longrightarrow> x = exec \<and> t = now)"

lemma check_execs_event:
  assumes "AlertFn (sla_config entry) = Some f" and "over entry (exec, now)"
    and "ex_WorkflowId exec \<notin> old" and "(exec, now) \<in> set xs" and "only_run exec now xs"
  shows "breach_event entry exec now \<in> set (alerts (snd (check_execs entry xs old)))"
  using assms(3-5)
proof (induction xs arbitrary: old)
  case (Cons x xs)
  obtain y t where x: "x = (y, t)" by fastforce
  show ?case
  proof (cases "ex_WorkflowId y = ex_WorkflowId exec")
    case True
    with Cons.prems(3) x have "x = (exec, now)" by (auto simp: only_run_def)
    then show ?thesis
      using assms(1,2) Cons.prems(1)
      by (auto simp: check_exec_def over_def breach_event_def Let_def split: prod.splits)
  next
    case False
    then have "ex_WorkflowId exec \<notin> fst (check_exec entry x old)"
      using Cons.prems(1) by (auto simp: check_exec_def x Let_def)
    moreover have "(exec, now) \<in> set xs" "only_run exec now xs"
      using Cons.prems(2,3) False by (auto simp: x only_run_def)
    ultimately show ?thesis using Cons.IH by (simp add: split_beta)
  qed
qed simp

lemma monitor_event:
  assumes "AlertFn (sla_config entry) = Some f" and "over entry (exec, now)"
    and "(exec, now) \<in> set xs" and "only_run exec now xs"
    and "ex_WorkflowId exec \<notin> old"
    and "\<forall>x \<in> set (seen ps). over entry x \<longrightarrow> ex_WorkflowId (fst x) \<noteq> ex_WorkflowId exec"
  shows "breach_event entry exec now \<in> set (alerts (monitor_polls entry (ps @ [Inr xs]) old))"
  using assms(5,6)
proof (induction ps arbitrary: old)
  case Nil
  then show ?case using check_execs_event [OF assms(1,2) _ assms(3,4)] by (simp add: checkSLA_def split_beta)
next
  case (Cons p ps)
  have "ex_WorkflowId exec \<notin> fst (checkSLA entry p old)"
  proof (cases p)
    case (Inr ys)
    then show ?thesis
      using Cons.prems check_execs_alerts [OF assms(1), of ys old]
      by (auto simp: checkSLA_def alerted_after_def)
  qed (use Cons.prems in \<open>simp add: checkSLA_def\<close>)
  moreover have "\<forall>x \<in> set (seen ps). over entry x \<longrightarrow> ex_WorkflowId (fst x) \<noteq> ex_WorkflowId exec"
    using Cons.prems(2) by (cases p) auto
  ultimately show ?case using Cons.IH by (simp add: split_beta)
qed

text \<open>
  C31. The delay of an alert. Take a monitor that polls at its ticks, and an execution that is the only
  one any poll lists under its id. If the poll at the first tick at or after the instant the execution
  reaches the alert threshold succeeds and lists it, then that poll alerts this very execution, with
  its running time at that tick and the alert threshold; and the tick is at most 30 seconds after that
  instant, or after the start of the monitor if that came later. Earlier polls may fail. A poll that
  fails, or lists the execution behind its first page, does not alert it, and nor does one after an
  alert for another execution under the id.
\<close>

theorem alert_within_one_poll:
  defines "limit \<equiv> \<lambda>entry exec. ex_StartTime exec + AlertAfter (sla_config entry)"
  assumes "AlertFn (sla_config entry) = Some f"
    and "0 < AlertAfter (sla_config entry)" and "AlertAfter (sla_config entry) \<le> maxDuration"
    and "\<forall>j \<le> k. \<forall>xs. polls ! j = Inr xs \<longrightarrow> only_run exec (tick entry t0 j) xs"
    and "k < length polls" and "polls ! k = Inr xs" and "(exec, tick entry t0 k) \<in> set xs"
    and "limit entry exec \<le> tick entry t0 k" and "\<forall>j < k. tick entry t0 j < limit entry exec"
  shows "breach_event entry exec (tick entry t0 k) \<in> set (alerts (runSLAMonitor entry (take (Suc k) polls))) \<and>
    tick entry t0 k \<le> max t0 (limit entry exec) + 30 * Second"
proof
  note limit_def = assms(1)
  have over: "over entry (exec, now) \<longleftrightarrow> limit entry exec \<le> now" for now
    using over_iff [OF assms(3,4)] by (simp add: limit_def)
  have quiet: "ex_WorkflowId (fst x) \<noteq> ex_WorkflowId exec" if "x \<in> set (seen (take k polls))" "over entry x" for x
  proof
    assume id: "ex_WorkflowId (fst x) = ex_WorkflowId exec"
    from that(1) obtain ys where "Inr ys \<in> set (take k polls)" "x \<in> set ys"
      by (auto simp: seen_def split: sum.splits)
    then obtain j where j: "j < k" "polls ! j = Inr ys" "x \<in> set ys"
      using assms(6) by (auto simp: in_set_conv_nth)
    then have "only_run exec (tick entry t0 j) ys" using assms(5) by simp
    with j(3) id have "x = (exec, tick entry t0 j)" by (auto simp: only_run_def)
    with that(2) over have "limit entry exec \<le> tick entry t0 j" by simp
    moreover have "tick entry t0 j < limit entry exec" using assms(10) j(1) by blast
    ultimately show False by simp
  qed
  have "only_run exec (tick entry t0 k) xs" using assms(5,7) by simp
  moreover have "take (Suc k) polls = take k polls @ [Inr xs]"
    using assms(6,7) by (simp add: take_Suc_conv_app_nth)
  ultimately show "breach_event entry exec (tick entry t0 k) \<in> set (alerts (runSLAMonitor entry (take (Suc k) polls)))"
    using monitor_event [OF assms(2) _ assms(8), where old = "{}" and ps = "take k polls"] over assms(9) quiet
    by (simp add: runSLAMonitor_def)
  show "tick entry t0 k \<le> max t0 (limit entry exec) + 30 * Second"
  proof (cases k)
    case 0
    then show ?thesis by (simp add: tick_def)
  next
    case (Suc j)
    then have "tick entry t0 j < limit entry exec" using assms(10) by simp
    then show ?thesis by (simp add: Suc tick_def algebra_simps)
  qed
qed

theorem alert_within_one_poll_witness:
  "\<lparr>sb_WorkflowID = ''a'', sb_WorkflowType = ''Loan'', RunningFor = Minute, Threshold = Minute, Level = ''alert''\<rparr>
    \<in> set (alerts (runSLAMonitor
     \<lparr>workflowType = ''Loan'', sla_config = \<lparr>WarnAfter = 0, AlertAfter = Minute, AlertFn = Some ''page''\<rparr>\<rparr>
     [Inl (ErrorString ''down''), Inr [(\<lparr>ex_WorkflowId = ''a'', ex_StartTime = 0\<rparr>, 60 * Second)]]))"
proof -
  let ?entry = "\<lparr>workflowType = ''Loan'', sla_config = \<lparr>WarnAfter = 0, AlertAfter = Minute, AlertFn = Some ''page''\<rparr>\<rparr>"
  let ?exec = "\<lparr>ex_WorkflowId = ''a'', ex_StartTime = 0\<rparr>"
  let ?polls = "[Inl (ErrorString ''down''), Inr [(?exec, 60 * Second)]] :: (go_error + (open_exec \<times> time) list) list"
  have run: "\<forall>j \<le> 1. \<forall>xs. ?polls ! j = Inr xs \<longrightarrow> only_run ?exec (tick ?entry 0 j) xs"
    by (auto simp: le_Suc_eq only_run_def tick_def)
  have "breach_event ?entry ?exec (tick ?entry 0 1) \<in> set (alerts (runSLAMonitor ?entry (take (Suc 1) ?polls)))"
    by (rule alert_within_one_poll [of ?entry "''page''" 1 ?polls ?exec 0 "[(?exec, 60 * Second)]", OF _ _ _ run, THEN conjunct1])
      (simp_all add: tick_def duration_units maxDuration_def)
  then show ?thesis by (simp add: breach_event_def tick_def time_Sub_def duration_units maxDuration_def minDuration_def)
qed

text \<open>
  What a poll does not see. Each request asks for \<open>MaximumPageSize\<close> workflows, and the token of the
  next page is ignored: a workflow that the server lists behind the first page in every poll is
  never alerted, however long it runs.
\<close>

definition MaximumPageSize :: nat where "MaximumPageSize = 1000"

definition listed :: "open_exec list \<times> time \<Rightarrow> go_error + (open_exec \<times> time) list" where
  "listed = (\<lambda>(all_open, now). Inr (map (\<lambda>exec. (exec, now)) (take MaximumPageSize all_open)))"

theorem behind_first_page_never_alerted:
  assumes "AlertFn (sla_config entry) = Some f"
    and "\<forall>(all_open, now) \<in> set views. wfID \<notin> ex_WorkflowId ` set (take MaximumPageSize all_open)"
  shows "wfID \<notin> set (map sb_WorkflowID (alerts (runSLAMonitor entry (map listed views))))"
proof -
  have "wfID \<notin> ex_WorkflowId ` fst ` set (seen (map listed views))"
    using assms(2)
  proof (induction views)
    case (Cons v views)
    then show ?case by (cases v) (auto simp: listed_def image_image)
  qed simp
  then have "wfID \<notin> set (first_breaches entry (seen (map listed views)) {})"
    by (auto simp: first_breaches_set)
  then show ?thesis
    using monitor_alerts [OF assms(1), of "map listed views" "{}"] by (simp add: runSLAMonitor_def)
qed

theorem behind_first_page_never_alerted_witness:
  "let old = \<lparr>ex_WorkflowId = ''old'', ex_StartTime = 0\<rparr>; new = \<lparr>ex_WorkflowId = ''new'', ex_StartTime = 0\<rparr> in
    ''old'' \<notin> set (map sb_WorkflowID (alerts (runSLAMonitor
      \<lparr>workflowType = ''Loan'', sla_config = \<lparr>WarnAfter = 0, AlertAfter = Hour, AlertFn = Some ''page''\<rparr>\<rparr>
      (map listed [(replicate 1000 new @ [old], 9 * Hour)]))))"
  unfolding Let_def
  by (rule behind_first_page_never_alerted [where f = "''page''"]) (simp_all add: MaximumPageSize_def)

end
