(* ===== verification/EngineLifecycle.thy ===== *)
theory EngineLifecycle
  imports SlaMonitor StartOrAttaching
begin

text \<open>
  \<open>client/config.go\<close>, \<open>client/engine.go\<close>, \<open>client/shutdown.go\<close> and \<open>client/health.go\<close>: the
  configuration's defaults, and the life of an engine from \<open>New\<close> to its shutdown. What the engine
  acquires and releases is a list of events; what the SDK, the TLS library and the tracing exporter
  answer is a record of parameters.
\<close>

subsection \<open>Configuration\<close>

record TLSConfig =
  CertFile :: string
  KeyFile :: string
  CAFile :: string
  ServerName :: string

record WorkerConfig =
  MaxConcurrentActivityTaskPollers :: int
  MaxConcurrentWorkflowTaskPollers :: int
  MaxConcurrentActivityExecutionSize :: int

record TracingConfig =
  OTLPEndpoint :: string
  ServiceName :: string
  ServiceVersion :: string
  Insecure :: bool

record MetricsConfig =
  Enabled :: bool

record Config =
  HostPort :: string
  Namespace :: string
  TaskQueue :: string
  Identity :: string
  TLS :: "TLSConfig option"
  Metrics :: MetricsConfig
  Tracing :: TracingConfig
  Worker :: WorkerConfig
  ShutdownTimeout :: duration
  Interceptors :: "string list"

definition applyDefaults :: "Config \<Rightarrow> Config" where
  "applyDefaults c =
     (let c = (if HostPort c = '''' then c\<lparr>HostPort := ''localhost:7233''\<rparr> else c);
          c = (if Namespace c = '''' then c\<lparr>Namespace := ''default''\<rparr> else c);
          c = (if ShutdownTimeout c = 0 then c\<lparr>ShutdownTimeout := 30 * Second\<rparr> else c);
          w = Worker c;
          w = (if MaxConcurrentActivityTaskPollers w = 0 then w\<lparr>MaxConcurrentActivityTaskPollers := 5\<rparr> else w);
          w = (if MaxConcurrentWorkflowTaskPollers w = 0 then w\<lparr>MaxConcurrentWorkflowTaskPollers := 5\<rparr> else w);
          w = (if MaxConcurrentActivityExecutionSize w = 0 then w\<lparr>MaxConcurrentActivityExecutionSize := 100\<rparr> else w)
      in c\<lparr>Worker := w\<rparr>)"

lemma applyDefaults_fields [simp]:
  "HostPort (applyDefaults c) = (if HostPort c = '''' then ''localhost:7233'' else HostPort c)"
  "Namespace (applyDefaults c) = (if Namespace c = '''' then ''default'' else Namespace c)"
  "ShutdownTimeout (applyDefaults c) = (if ShutdownTimeout c = 0 then 30 * Second else ShutdownTimeout c)"
  "MaxConcurrentActivityTaskPollers (Worker (applyDefaults c)) =
     (if MaxConcurrentActivityTaskPollers (Worker c) = 0 then 5 else MaxConcurrentActivityTaskPollers (Worker c))"
  "MaxConcurrentWorkflowTaskPollers (Worker (applyDefaults c)) =
     (if MaxConcurrentWorkflowTaskPollers (Worker c) = 0 then 5 else MaxConcurrentWorkflowTaskPollers (Worker c))"
  "MaxConcurrentActivityExecutionSize (Worker (applyDefaults c)) =
     (if MaxConcurrentActivityExecutionSize (Worker c) = 0 then 100 else MaxConcurrentActivityExecutionSize (Worker c))"
  "TaskQueue (applyDefaults c) = TaskQueue c" "TLS (applyDefaults c) = TLS c"
  "Tracing (applyDefaults c) = Tracing c"
  by (simp_all add: applyDefaults_def Let_def)

lemma applyDefaults_complete:
  assumes "HostPort c \<noteq> ''''" "Namespace c \<noteq> ''''" "ShutdownTimeout c \<noteq> 0"
    "MaxConcurrentActivityTaskPollers (Worker c) \<noteq> 0" "MaxConcurrentWorkflowTaskPollers (Worker c) \<noteq> 0"
    "MaxConcurrentActivityExecutionSize (Worker c) \<noteq> 0"
  shows "applyDefaults c = c"
  using assms by (simp add: applyDefaults_def Let_def)

subsection \<open>The world of an engine\<close>

text \<open>A TLS configuration: certificates and pools are known by the files they come from.\<close>

record tls_config =
  tls_ServerName :: string
  tls_MinVersion :: int
  Certificates :: "(string \<times> string) list"
  RootCAs :: "string option"

record client_options =
  co_HostPort :: string
  co_Namespace :: string
  co_Identity :: string
  co_TLS :: "tls_config option"
  co_Metrics :: bool
  co_Interceptors :: "string list"

record engine_world =
  zap_NewProduction :: "go_error option"
  LoadX509KeyPair :: "string \<Rightarrow> string \<Rightarrow> go_error option"
  ReadFile :: "string \<Rightarrow> go_error + bytes"
  AppendCertsFromPEM :: "bytes \<Rightarrow> bool"
  otlptracegrpc_New :: "string \<Rightarrow> bool \<Rightarrow> go_error option"
  resource_New :: "string \<Rightarrow> string \<Rightarrow> go_error option"
  Dial :: "client_options \<Rightarrow> go_error option"
  worker_Start :: "go_error option"
  tracing_Shutdown :: "go_error option"
  CheckHealth :: "go_error option"
  ListenAndServe :: "string \<Rightarrow> go_error option"
  promhttp_page :: string

datatype engine_event =
    TracingUp | TracingDown
  | Dialed client_options | ClientClosed
  | WorkerNew string WorkerConfig | RegisteredWorkflow gofunc | RegisteredActivity gofunc | WorkerStarted | WorkerStopped
  | MonitorLaunched slaEntry
  | EngLog level string
  | LoggerSynced
  | MetricsServerDown

text \<open>The client of an engine is known by the options it was dialled with.\<close>

record Engine =
  eg_client :: client_options
  eg_config :: Config
  eg_tracing :: bool
  eg_metricsRegistry :: bool
  slaEntries :: "slaEntry list"

definition VersionTLS12 :: int where "VersionTLS12 = 0x0303"

definition buildTLSConfig :: "engine_world \<Rightarrow> TLSConfig \<Rightarrow> go_error + tls_config" where
  "buildTLSConfig E cfg =
     (let t = \<lparr>tls_ServerName = ServerName cfg, tls_MinVersion = VersionTLS12, Certificates = [], RootCAs = None\<rparr> in
      case (if CertFile cfg \<noteq> '''' \<and> KeyFile cfg \<noteq> ''''
            then (case LoadX509KeyPair E (CertFile cfg) (KeyFile cfg) of
                    Some err \<Rightarrow> Inl (WrapError ''load client certificate: '' err)
                  | None \<Rightarrow> Inr (t\<lparr>Certificates := [(CertFile cfg, KeyFile cfg)]\<rparr>))
            else Inr t) of
        Inl err \<Rightarrow> Inl err
      | Inr t \<Rightarrow>
          if CAFile cfg \<noteq> '''' then
            (case ReadFile E (CAFile cfg) of
               Inl err \<Rightarrow> Inl (WrapError ''read CA file: '' err)
             | Inr caData \<Rightarrow>
                 if \<not> AppendCertsFromPEM E caData
                 then Inl (ErrorString (''parse CA certificate from '' @ CAFile cfg))
                 else Inr (t\<lparr>RootCAs := Some (CAFile cfg)\<rparr>))
          else Inr t)"

text \<open>
  \<open>SetupTracing\<close> of \<open>observability/tracing.go\<close>: an error, or whether a provider was set up. Its
  shutdown function, which is never nil, shuts down that provider or does nothing.
\<close>

definition SetupTracing :: "engine_world \<Rightarrow> TracingConfig \<Rightarrow> go_error + bool" where
  "SetupTracing E cfg =
     (if OTLPEndpoint cfg = '''' then Inr False
      else case otlptracegrpc_New E (OTLPEndpoint cfg) (Insecure cfg) of
        Some err \<Rightarrow> Inl (WrapError ''create OTLP trace exporter: '' err)
      | None \<Rightarrow>
          (case resource_New E (ServiceName cfg) (ServiceVersion cfg) of
             Some err \<Rightarrow> Inl (WrapError ''create OTel resource: '' err)
           | None \<Rightarrow> Inr True))"

text \<open>\<open>New\<close>: the engine or an error, with what was acquired on the way.\<close>

definition New :: "engine_world \<Rightarrow> Config \<Rightarrow> (go_error + Engine) \<times> engine_event list" where
  "New E cfg0 =
     (let cfg = applyDefaults cfg0 in
      if TaskQueue cfg = '''' then (Inl (ErrorString ''temporal-common: Config.TaskQueue is required''), [])
      else case zap_NewProduction E of
        Some err \<Rightarrow> (Inl (WrapError ''create zap logger: '' err), [])
      | None \<Rightarrow>
          (case (case TLS cfg of None \<Rightarrow> Inr None
                 | Some t \<Rightarrow> (case buildTLSConfig E t of Inl err \<Rightarrow> Inl err | Inr x \<Rightarrow> Inr (Some x))) of
             Inl err \<Rightarrow> (Inl (WrapError ''build TLS config: '' err), [])
           | Inr tls \<Rightarrow>
               (let opts = \<lparr>co_HostPort = HostPort cfg, co_Namespace = Namespace cfg, co_Identity = Identity cfg,
                      co_TLS = tls, co_Metrics = Enabled (Metrics cfg), co_Interceptors = Interceptors cfg\<rparr>;
                    tracingShutdown = (if OTLPEndpoint (Tracing cfg) \<noteq> '''' then SetupTracing E (Tracing cfg) else Inr False)
                in case tracingShutdown of
                     Inl err \<Rightarrow> (Inl (WrapError ''setup tracing: '' err), [])
                   | Inr tracing \<Rightarrow>
                       (let up = (if tracing then [TracingUp] else []) in
                        case Dial E opts of
                          Some err \<Rightarrow>
                            (Inl (WrapError (''dial Temporal server at '' @ HostPort cfg @ '': '') err), up)
                        | None \<Rightarrow>
                            (Inr \<lparr>eg_client = opts, eg_config = cfg, eg_tracing = tracing, eg_metricsRegistry = Enabled (Metrics cfg),
                               slaEntries = []\<rparr>,
                             up @ [Dialed opts, WorkerNew (TaskQueue cfg) (Worker cfg)])))))"

text \<open>Registering with the worker, and the accessors.\<close>

definition RegisterWorkflow :: "gofunc \<Rightarrow> Engine \<Rightarrow> engine_event list" where
  "RegisterWorkflow w e = [RegisteredWorkflow w]"

definition RegisterActivity :: "gofunc \<Rightarrow> Engine \<Rightarrow> engine_event list" where
  "RegisterActivity a e = [RegisteredActivity a]"

definition engine_RegisterWorkflowWithSLA ::
    "string \<Rightarrow> gofunc \<Rightarrow> SLAConfig \<Rightarrow> Engine \<Rightarrow> Engine \<times> engine_event list" where
  "engine_RegisterWorkflowWithSLA type_text fullName cfg e =
     (e\<lparr>slaEntries := RegisterWorkflowWithSLA type_text fullName cfg (slaEntries e)\<rparr>,
      [RegisteredWorkflow fullName])"

definition engine_Client :: "Engine \<Rightarrow> client_options" where
  "engine_Client e = eg_client e"

definition engine_TaskQueue :: "Engine \<Rightarrow> string" where
  "engine_TaskQueue e = TaskQueue (eg_config e)"

text \<open>\<open>cl\<close> is the engine's client as the calls of \<open>client/start.go\<close> see it.\<close>

definition engine_StartOrAttach ::
    "'st temporal_client \<Rightarrow> Engine \<Rightarrow> string \<Rightarrow> gofunc \<Rightarrow> gval list \<Rightarrow> 'st \<Rightarrow>
     (go_error + WorkflowHandle) \<times> 'st" where
  "engine_StartOrAttach cl e workflowID fn as st =
     StartOrAttach cl workflowID (TaskQueue (eg_config e)) fn as st"

definition startSLAMonitors :: "Engine \<Rightarrow> engine_event list" where
  "startSLAMonitors e = map MonitorLaunched (slaEntries e)"

definition tracing_down :: "engine_world \<Rightarrow> Engine \<Rightarrow> engine_event list" where
  "tracing_down E e =
     (if eg_tracing e
      then TracingDown # (case tracing_Shutdown E of None \<Rightarrow> [] | Some err \<Rightarrow> [EngLog Warn ''tracing shutdown error''])
      else [])"

definition engine_shutdown :: "engine_world \<Rightarrow> Engine \<Rightarrow> go_error option \<times> engine_event list" where
  "engine_shutdown E e =
     (None, [EngLog Info ''stopping worker'', WorkerStopped, EngLog Info ''worker stopped'',
             ClientClosed, EngLog Info ''temporal client closed''] @ tracing_down E e @ [LoggerSynced])"

text \<open>What ends \<open>Start\<close>'s wait.\<close>

datatype stop_reason = ContextDone | SignalReceived string

definition Start :: "engine_world \<Rightarrow> stop_reason \<Rightarrow> Engine \<Rightarrow> go_error option \<times> engine_event list" where
  "Start E reason e =
     (case worker_Start E of
        Some err \<Rightarrow> (Some err, [])
      | None \<Rightarrow>
          (let up = [WorkerStarted, EngLog Info ''temporal worker started''] @ startSLAMonitors e;
               why = (case reason of
                        ContextDone \<Rightarrow> EngLog Info ''context cancelled, shutting down''
                      | SignalReceived _ \<Rightarrow> EngLog Info ''received signal, shutting down'')
           in case engine_shutdown E e of (err, down) \<Rightarrow> (err, up @ [why] @ down)))"

definition engine_Shutdown :: "engine_world \<Rightarrow> Engine \<Rightarrow> go_error option \<times> engine_event list" where
  "engine_Shutdown E e = (None, [WorkerStopped, ClientClosed] @ tracing_down E e @ [LoggerSynced])"

definition DrainTimeout :: "Engine \<Rightarrow> duration" where
  "DrainTimeout e = ShutdownTimeout (eg_config e)"

definition HealthCheck :: "engine_world \<Rightarrow> go_error option" where
  "HealthCheck E = map_option (WrapError ''temporal health check failed: '') (CheckHealth E)"

text \<open>
  What the metrics server answers to a request, by its path: status and body. \<open>ServeMux\<close> answers 404
  for a path without a pattern; a pattern that does not end in a slash is that path only.
\<close>

definition metrics_mux :: "engine_world \<Rightarrow> string \<Rightarrow> int \<times> string" where
  "metrics_mux E path =
     (if path = ''/metrics'' then (200, promhttp_page E)
      else if path = ''/healthz'' then (200, ''ok'')
      else (404, ''404 page not found'' @ [CHR 0x0A]))"

text \<open>
  \<open>ServeMetrics\<close> blocks until the listener fails, or until the context is done, in which case
  \<open>ListenAndServe\<close> has no error to give and the server is shut down.
\<close>

definition ServeMetrics :: "engine_world \<Rightarrow> Engine \<Rightarrow> string \<Rightarrow> go_error option \<times> engine_event list" where
  "ServeMetrics E e addr =
     (if \<not> eg_metricsRegistry e
      then (Some (ErrorString (''ServeMetrics: metrics are not enabled '' @ em_dash @ '' set Config.Metrics.Enabled = true'')), [])
      else (case ListenAndServe E addr of
        Some err \<Rightarrow> (Some (WrapError ''metrics server: '' err), [EngLog Info ''metrics server starting''])
      | None \<Rightarrow> (None, [EngLog Info ''metrics server starting'', MetricsServerDown])))"

subsection \<open>Resources\<close>

text \<open>The events that take or give back a connection, a tracer or a worker.\<close>

definition resource :: "engine_event \<Rightarrow> bool" where
  "resource ev \<longleftrightarrow> (case ev of
     TracingUp \<Rightarrow> True | TracingDown \<Rightarrow> True | Dialed _ \<Rightarrow> True | ClientClosed \<Rightarrow> True
   | WorkerStarted \<Rightarrow> True | WorkerStopped \<Rightarrow> True | _ \<Rightarrow> False)"

lemma resource_simps [simp]:
  "resource TracingUp" "resource TracingDown" "resource (Dialed opts)" "resource ClientClosed"
  "resource WorkerStarted" "resource WorkerStopped" "\<not> resource (WorkerNew q w)"
  "\<not> resource (RegisteredWorkflow f)" "\<not> resource (RegisteredActivity f)"
  "\<not> resource (MonitorLaunched m)" "\<not> resource (EngLog l msg)" "\<not> resource LoggerSynced"
  "\<not> resource MetricsServerDown"
  by (simp_all add: resource_def)

lemma resource_monitors [simp]: "filter resource (map MonitorLaunched ms) = []"
  by (induction ms) simp_all

text \<open>The monitors of a run that its end does not stop: they only watch the context.\<close>

definition monitors_left :: "stop_reason \<Rightarrow> engine_event list \<Rightarrow> slaEntry list" where
  "monitors_left reason evs =
     (if reason = ContextDone then []
      else List.map_filter (\<lambda>ev. case ev of MonitorLaunched m \<Rightarrow> Some m | _ \<Rightarrow> None) evs)"

lemma New_success:
  assumes "New E cfg = (Inr e, evs)"
  shows "\<exists>opts. filter resource evs = (if eg_tracing e then [TracingUp] else []) @ [Dialed opts] \<and>
    eg_config e = applyDefaults cfg \<and> slaEntries e = [] \<and> TaskQueue cfg \<noteq> ''''"
  using assms
  by (auto simp: New_def Let_def split: if_splits option.splits sum.splits)

lemma New_worker:
  assumes "New E cfg = (Inr e, evs)"
  shows "WorkerNew (TaskQueue cfg) (Worker (applyDefaults cfg)) \<in> set evs" "engine_TaskQueue e = TaskQueue cfg"
  using assms
  by (auto simp: New_def Let_def engine_TaskQueue_def split: if_splits option.splits sum.splits)

lemma New_quiet:
  assumes "New E cfg = (r, evs)"
  shows "WorkerStarted \<notin> set evs"
  using assms
  by (auto simp: New_def Let_def split: if_splits option.splits sum.splits)

lemma New_failure:
  assumes "New E cfg = (Inl err, evs)"
  shows "evs = [] \<or> evs = [TracingUp] \<and> OTLPEndpoint (Tracing (applyDefaults cfg)) \<noteq> '''' \<and> (\<exists>o' e. Dial E o' = Some e)"
  using assms
  by (auto simp: New_def SetupTracing_def Let_def split: if_splits option.splits sum.splits)

lemma tracing_down_resources:
  "filter resource (tracing_down E e) = (if eg_tracing e then [TracingDown] else [])"
  by (simp add: tracing_down_def split: option.split)

subsection \<open>Properties\<close>

text \<open>
  C32. What an engine that \<open>New\<close> made holds, and who gives it back. \<open>New\<close> took the connection and, where
  tracing is configured, the tracer. When the worker starts, \<open>Start\<close> gives everything back, whether
  the context or a signal ended it: the worker stops before the client closes, the client before the
  tracer, each once and in that order, even if the tracer fails to shut down, and it returns nil. When
  the worker does not start, \<open>Start\<close> returns that error and gives nothing back: connection and tracer
  stay open. \<open>Shutdown\<close> gives everything back, in the same order, and returns nil.
\<close>

theorem engine_releases_everything:
  assumes "New E cfg = (Inr e, ev1)"
  shows "\<exists>opts. let e' = e\<lparr>slaEntries := ms\<rparr>;
      released = [WorkerStopped, ClientClosed] @ (if eg_tracing e then [TracingDown] else []) in
    filter resource ev1 = (if eg_tracing e then [TracingUp] else []) @ [Dialed opts] \<and>
    (worker_Start E = None \<longrightarrow>
       fst (Start E reason e') = None \<and> filter resource (snd (Start E reason e')) = WorkerStarted # released) \<and>
    (\<forall>err. worker_Start E = Some err \<longrightarrow>
       fst (Start E reason e') = Some err \<and> filter resource (snd (Start E reason e')) = []) \<and>
    fst (engine_Shutdown E e') = None \<and> filter resource (snd (engine_Shutdown E e')) = released"
proof -
  have td: "tracing_down E (e\<lparr>slaEntries := ms\<rparr>) = tracing_down E e"
    by (simp add: tracing_down_def)
  show ?thesis
    using New_success [OF assms]
    by (auto simp: Start_def startSLAMonitors_def engine_shutdown_def engine_Shutdown_def Let_def td
        tracing_down_resources split: stop_reason.splits)
qed

text \<open>A world where everything works, and a minimal configuration with tracing.\<close>

definition working_world :: engine_world where
  "working_world =
     \<lparr>zap_NewProduction = None, LoadX509KeyPair = (\<lambda>c k. None), ReadFile = (\<lambda>f. Inr []),
      AppendCertsFromPEM = (\<lambda>b. True), otlptracegrpc_New = (\<lambda>e i. None), resource_New = (\<lambda>n v. None), Dial = (\<lambda>opts. None), worker_Start = None,
      tracing_Shutdown = None, CheckHealth = None, ListenAndServe = (\<lambda>a. None), promhttp_page = [] \<rparr>"

definition traced_config :: Config where
  "traced_config =
     \<lparr>HostPort = '''', Namespace = '''', TaskQueue = ''loans'', Identity = '''', TLS = None,
      Metrics = \<lparr>Enabled = False\<rparr>,
      Tracing = \<lparr>OTLPEndpoint = ''otel:4317'', ServiceName = ''loans'', ServiceVersion = ''1'', Insecure = False\<rparr>,
      Worker = \<lparr>MaxConcurrentActivityTaskPollers = 0, MaxConcurrentWorkflowTaskPollers = 0,
        MaxConcurrentActivityExecutionSize = 0\<rparr>, ShutdownTimeout = 0, Interceptors = []\<rparr>"

theorem engine_releases_everything_witness:
  "\<exists>e ev1. New working_world traced_config = (Inr e, ev1) \<and>
    TracingDown \<in> set (snd (Start working_world ContextDone (e\<lparr>slaEntries := []\<rparr>))) \<and>
    TracingDown \<in> set (snd (engine_Shutdown working_world (e\<lparr>slaEntries := []\<rparr>)))"
proof -
  obtain e ev1 where new: "New working_world traced_config = (Inr e, ev1)" "eg_tracing e"
    by (simp add: New_def working_world_def traced_config_def SetupTracing_def Let_def)
  have up: "worker_Start working_world = None" by (simp add: working_world_def)
  have "TracingDown \<in> set (filter resource (snd (Start working_world ContextDone (e\<lparr>slaEntries := []\<rparr>))))"
    "TracingDown \<in> set (filter resource (snd (engine_Shutdown working_world (e\<lparr>slaEntries := []\<rparr>))))"
    using engine_releases_everything [OF new(1), of "[]" ContextDone] new(2) up by (auto simp: Let_def)
  with new(1) show ?thesis by auto
qed

text \<open>
  What failing and stopping leaves behind. A failing \<open>New\<close> never leaves a connection open, but
  when the server cannot be dialled the tracer it set up is not shut down; a failing \<open>worker.Start\<close>
  leaves the client open; and after a stop by a signal every SLA monitor is still running, on a
  closed client, because monitors only watch the context.
\<close>

theorem engine_leaks:
  "(\<forall>err. fst (New E cfg) = Inl err \<longrightarrow> list_all (\<lambda>ev. ev = TracingUp) (snd (New E cfg))) \<and>
   (TaskQueue cfg \<noteq> '''' \<and> zap_NewProduction E = None \<and> TLS cfg = None \<and> OTLPEndpoint (Tracing cfg) \<noteq> '''' \<and>
      SetupTracing E (Tracing cfg) = Inr True \<and> (\<forall>opts. Dial E opts \<noteq> None) \<longrightarrow>
      (\<exists>err. fst (New E cfg) = Inl err) \<and> snd (New E cfg) = [TracingUp]) \<and>
   (worker_Start E \<noteq> None \<longrightarrow> ClientClosed \<notin> set (snd (Start E reason e))) \<and>
   (worker_Start E = None \<longrightarrow>
      monitors_left reason (snd (Start E reason e)) = (if reason = ContextDone then [] else slaEntries e))"
proof (intro conjI impI allI)
  fix err assume "fst (New E cfg) = Inl err"
  then show "list_all (\<lambda>ev. ev = TracingUp) (snd (New E cfg))"
    using New_failure [of E cfg err "snd (New E cfg)"] by (cases "New E cfg") auto
next
  assume a: "TaskQueue cfg \<noteq> '''' \<and> zap_NewProduction E = None \<and> TLS cfg = None \<and> OTLPEndpoint (Tracing cfg) \<noteq> '''' \<and>
      SetupTracing E (Tracing cfg) = Inr True \<and> (\<forall>opts. Dial E opts \<noteq> None)"
  obtain f where dial: "Dial E = (\<lambda>x. Some (f x))"
  proof (rule that)
    show "Dial E = (\<lambda>x. Some (the (Dial E x)))" using a by (metis option.collapse)
  qed
  show "\<exists>err. fst (New E cfg) = Inl err" "snd (New E cfg) = [TracingUp]"
    using a dial by (simp_all add: New_def Let_def)
next
  assume "worker_Start E \<noteq> None"
  then show "ClientClosed \<notin> set (snd (Start E reason e))" by (auto simp: Start_def)
next
  have app: "List.map_filter f (xs @ ys) = List.map_filter f xs @ List.map_filter f ys"
    for f :: "engine_event \<Rightarrow> slaEntry option" and xs ys
    by (simp add: List.map_filter_def)
  have mons: "List.map_filter (\<lambda>ev. case ev of MonitorLaunched m \<Rightarrow> Some m | _ \<Rightarrow> None) (map MonitorLaunched ms) = ms" for ms
    by (induction ms) (simp_all add: List.map_filter_simps)
  assume "worker_Start E = None"
  then show "monitors_left reason (snd (Start E reason e)) = (if reason = ContextDone then [] else slaEntries e)"
    by (auto simp: monitors_left_def Start_def startSLAMonitors_def engine_shutdown_def tracing_down_def Let_def
        app List.map_filter_simps mons split: stop_reason.split option.split)
qed

theorem engine_leaks_witness:
  "snd (New (working_world\<lparr>Dial := (\<lambda>opts. Some (ErrorString ''refused''))\<rparr>) traced_config) = [TracingUp]"
  using engine_leaks [of "working_world\<lparr>Dial := (\<lambda>opts. Some (ErrorString ''refused''))\<rparr>" traced_config ContextDone
      "\<lparr>eg_client = opts, eg_config = traced_config, eg_tracing = True, eg_metricsRegistry = False, slaEntries = []\<rparr>"]
  by (simp add: working_world_def traced_config_def SetupTracing_def)

text \<open>
  The configuration an engine runs with: the task queue is set, host, namespace, shutdown
  timeout and the worker's limits are never zero, whatever the caller set to something else is kept,
  and applying the defaults again changes nothing.
\<close>

theorem engine_config_defaults:
  assumes "New E cfg = (Inr e, evs)"
  shows "let c = eg_config e in
    applyDefaults c = c \<and> TaskQueue c = TaskQueue cfg \<and> TaskQueue c \<noteq> '''' \<and> DrainTimeout e \<noteq> 0 \<and>
    HostPort c \<noteq> '''' \<and> (HostPort cfg \<noteq> '''' \<longrightarrow> HostPort c = HostPort cfg) \<and>
    Namespace c \<noteq> '''' \<and> (Namespace cfg \<noteq> '''' \<longrightarrow> Namespace c = Namespace cfg) \<and>
    (ShutdownTimeout cfg \<noteq> 0 \<longrightarrow> ShutdownTimeout c = ShutdownTimeout cfg) \<and>
    MaxConcurrentActivityTaskPollers (Worker c) \<noteq> 0 \<and> MaxConcurrentWorkflowTaskPollers (Worker c) \<noteq> 0 \<and>
    MaxConcurrentActivityExecutionSize (Worker c) \<noteq> 0"
proof -
  have "eg_config e = applyDefaults cfg" "TaskQueue cfg \<noteq> ''''"
    using New_success [OF assms] by auto
  moreover have "applyDefaults (applyDefaults cfg) = applyDefaults cfg"
    by (rule applyDefaults_complete) (simp_all add: Second_def)
  ultimately show ?thesis
    by (simp add: Let_def DrainTimeout_def Second_def)
qed

theorem engine_config_defaults_witness:
  "\<exists>e evs. New working_world traced_config = (Inr e, evs) \<and> HostPort (eg_config e) \<noteq> '''' \<and> DrainTimeout e \<noteq> 0"
proof -
  obtain e evs where new: "New working_world traced_config = (Inr e, evs)"
    by (simp add: New_def working_world_def traced_config_def SetupTracing_def Let_def)
  then show ?thesis using engine_config_defaults [OF new] by (auto simp: Let_def)
qed

end
