(* ===== verification/EngineProcess.thy ===== *)
theory EngineProcess
  imports EngineLifecycle
begin

text \<open>
  A started engine as a process of several goroutines (\<open>client/shutdown.go\<close>, \<open>client/sla.go\<close>): the
  one that runs \<open>Start\<close>, and one per SLA monitor. They share the client and the context, and their
  turns interleave. \<^theory_text>\<open>EngineLifecycle\<close> and \<^theory_text>\<open>SlaMonitor\<close> describe each on its own; here it is shown
  that together they do exactly that, and what their ends have to do with each other.
\<close>

subsection \<open>The process\<close>

type_synonym poll_response = "go_error + (open_exec \<times> time) list"

text \<open>What happens, and who does it; a poll is made on a client that is open or closed.\<close>

datatype process_event =
    MainDid engine_event
  | MonitorDid nat sla_effect
  | Polled nat bool poll_response

datatype main_phase = Serving | Closing "engine_event list" | Exited

datatype monitor_phase = Launched | Looping "string set" | Gone

record engine_process =
  ctx_done :: bool
  client_open :: bool
  main_at :: main_phase
  monitors_at :: "(slaEntry \<times> monitor_phase) list"
  process_trace :: "process_event list"

text \<open>\<open>Start\<close> up to its \<open>select\<close>: the worker runs, and a goroutine per registered monitor is launched.\<close>

definition startup_events :: "Engine \<Rightarrow> engine_event list" where
  "startup_events e = [WorkerStarted, EngLog Info ''temporal worker started''] @ startSLAMonitors e"

definition process_start :: "Engine \<Rightarrow> engine_process" where
  "process_start e =
     \<lparr>ctx_done = False, client_open = True, main_at = Serving,
      monitors_at = map (\<lambda>entry. (entry, Launched)) (slaEntries e),
      process_trace = map MainDid (startup_events e)\<rparr>"

text \<open>The case of \<open>select\<close> that ran, in the log.\<close>

definition stop_log :: "stop_reason \<Rightarrow> engine_event" where
  "stop_log reason = (case reason of
     ContextDone \<Rightarrow> EngLog Info ''context cancelled, shutting down''
   | SignalReceived sig \<Rightarrow> EngLog Info ''received signal, shutting down'')"

text \<open>The first statements of \<open>runSLAMonitor\<close>, before its loop.\<close>

definition monitor_hello :: "slaEntry \<Rightarrow> sla_effect list" where
  "monitor_hello entry = runSLAMonitor entry []"

inductive process_step :: "engine_world \<Rightarrow> Engine \<Rightarrow> engine_process \<Rightarrow> engine_process \<Rightarrow> bool" for E e where
  cancel: "process_step E e p (p\<lparr>ctx_done := True\<rparr>)"
| stop: "main_at p = Serving \<Longrightarrow> (reason = ContextDone \<Longrightarrow> ctx_done p) \<Longrightarrow>
    process_step E e p (p\<lparr>main_at := Closing (stop_log reason # snd (engine_shutdown E e))\<rparr>)"
| close: "main_at p = Closing (ev # evs) \<Longrightarrow>
    process_step E e p (p\<lparr>main_at := Closing evs, client_open := client_open p \<and> ev \<noteq> ClientClosed,
      process_trace := process_trace p @ [MainDid ev]\<rparr>)"
| return: "main_at p = Closing [] \<Longrightarrow> process_step E e p (p\<lparr>main_at := Exited\<rparr>)"
| begin_monitor: "i < length (monitors_at p) \<Longrightarrow> monitors_at p ! i = (entry, Launched) \<Longrightarrow>
    process_step E e p (p\<lparr>monitors_at := (monitors_at p)[i := (entry, Looping {})],
      process_trace := process_trace p @ map (MonitorDid i) (monitor_hello entry)\<rparr>)"
| poll: "i < length (monitors_at p) \<Longrightarrow> monitors_at p ! i = (entry, Looping alerted) \<Longrightarrow>
    checkSLA entry resp alerted = (alerted', es) \<Longrightarrow>
    process_step E e p (p\<lparr>monitors_at := (monitors_at p)[i := (entry, Looping alerted')],
      process_trace := process_trace p @ Polled i (client_open p) resp # map (MonitorDid i) es\<rparr>)"
| end_monitor: "i < length (monitors_at p) \<Longrightarrow> monitors_at p ! i = (entry, Looping alerted) \<Longrightarrow> ctx_done p \<Longrightarrow>
    process_step E e p (p\<lparr>monitors_at := (monitors_at p)[i := (entry, Gone)]\<rparr>)"

subsection \<open>Reading the trace\<close>

definition main_events :: "process_event list \<Rightarrow> engine_event list" where
  "main_events tr = List.map_filter (\<lambda>ev. case ev of MainDid x \<Rightarrow> Some x | _ \<Rightarrow> None) tr"

definition effects_of :: "nat \<Rightarrow> process_event list \<Rightarrow> sla_effect list" where
  "effects_of i tr = List.map_filter (\<lambda>ev. case ev of MonitorDid j x \<Rightarrow> if j = i then Some x else None | _ \<Rightarrow> None) tr"

definition polls_of :: "nat \<Rightarrow> process_event list \<Rightarrow> poll_response list" where
  "polls_of i tr = List.map_filter (\<lambda>ev. case ev of Polled j b x \<Rightarrow> if j = i then Some x else None | _ \<Rightarrow> None) tr"

lemma trace_reading [simp]:
  "main_events [] = []" "main_events (tr @ tr') = main_events tr @ main_events tr'"
  "main_events (MainDid x # tr) = x # main_events tr"
  "main_events (MonitorDid j y # tr) = main_events tr" "main_events (Polled j b r # tr) = main_events tr"
  "effects_of i [] = []" "effects_of i (tr @ tr') = effects_of i tr @ effects_of i tr'"
  "effects_of i (MainDid x # tr) = effects_of i tr"
  "effects_of i (MonitorDid j y # tr) = (if j = i then y # effects_of i tr else effects_of i tr)"
  "effects_of i (Polled j b r # tr) = effects_of i tr"
  "polls_of i [] = []" "polls_of i (tr @ tr') = polls_of i tr @ polls_of i tr'"
  "polls_of i (MainDid x # tr) = polls_of i tr" "polls_of i (MonitorDid j y # tr) = polls_of i tr"
  "polls_of i (Polled j b r # tr) = (if j = i then r # polls_of i tr else polls_of i tr)"
  by (simp_all add: main_events_def effects_of_def polls_of_def List.map_filter_def)

lemma trace_reading_map [simp]:
  "main_events (map MainDid xs) = xs" "main_events (map (MonitorDid j) ys) = []"
  "effects_of i (map MainDid xs) = []" "effects_of i (map (MonitorDid j) ys) = (if j = i then ys else [])"
  "polls_of i (map MainDid xs) = []" "polls_of i (map (MonitorDid j) ys) = []"
proof -
  show "main_events (map MainDid xs) = xs" "effects_of i (map MainDid xs) = []" "polls_of i (map MainDid xs) = []"
    by (induction xs) simp_all
  show "main_events (map (MonitorDid j) ys) = []" "polls_of i (map (MonitorDid j) ys) = []"
    by (induction ys) simp_all
  show "effects_of i (map (MonitorDid j) ys) = (if j = i then ys else [])"
    by (induction ys) auto
qed

text \<open>The ids a monitor remembers after its polls.\<close>

fun alerted_by :: "slaEntry \<Rightarrow> poll_response list \<Rightarrow> string set \<Rightarrow> string set" where
  "alerted_by entry [] alerted = alerted"
| "alerted_by entry (p # ps) alerted = alerted_by entry ps (fst (checkSLA entry p alerted))"

lemma monitor_polls_append:
  "monitor_polls entry (ps @ qs) alerted = monitor_polls entry ps alerted @ monitor_polls entry qs (alerted_by entry ps alerted)"
  by (induction ps arbitrary: alerted) (simp_all split: prod.split)

lemma alerted_by_append:
  "alerted_by entry (ps @ qs) alerted = alerted_by entry qs (alerted_by entry ps alerted)"
  by (induction ps arbitrary: alerted) simp_all

lemma runSLAMonitor_snoc:
  "runSLAMonitor entry (ps @ [p]) = runSLAMonitor entry ps @ snd (checkSLA entry p (alerted_by entry ps {}))"
  by (simp add: runSLAMonitor_def monitor_polls_append split: prod.split)

subsection \<open>The invariant\<close>

text \<open>What a monitor in some phase has done, given the responses it got.\<close>

fun monitor_ok :: "slaEntry \<Rightarrow> monitor_phase \<Rightarrow> sla_effect list \<Rightarrow> poll_response list \<Rightarrow> bool \<Rightarrow> bool" where
  "monitor_ok entry Launched es ps finished = (es = [] \<and> ps = [])"
| "monitor_ok entry (Looping alerted) es ps finished = (es = runSLAMonitor entry ps \<and> alerted = alerted_by entry ps {})"
| "monitor_ok entry Gone es ps finished = (es = runSLAMonitor entry ps \<and> finished)"

text \<open>What the main goroutine has done and has still to do.\<close>

definition main_ok :: "engine_world \<Rightarrow> Engine \<Rightarrow> main_phase \<Rightarrow> engine_event list \<Rightarrow> bool \<Rightarrow> bool" where
  "main_ok E e phase evs finished \<longleftrightarrow> (case phase of
     Serving \<Rightarrow> evs = startup_events e
   | Closing rest \<Rightarrow> (\<exists>reason. evs @ rest = startup_events e @ stop_log reason # snd (engine_shutdown E e) \<and>
       (reason = ContextDone \<longrightarrow> finished))
   | Exited \<Rightarrow> (\<exists>reason. evs = startup_events e @ stop_log reason # snd (engine_shutdown E e) \<and>
       (reason = ContextDone \<longrightarrow> finished)))"

definition process_inv :: "engine_world \<Rightarrow> Engine \<Rightarrow> engine_process \<Rightarrow> bool" where
  "process_inv E e p \<longleftrightarrow>
     main_ok E e (main_at p) (main_events (process_trace p)) (ctx_done p) \<and>
     client_open p = (ClientClosed \<notin> set (main_events (process_trace p))) \<and>
     map fst (monitors_at p) = slaEntries e \<and>
     (\<forall>i < length (monitors_at p). monitor_ok (fst (monitors_at p ! i)) (snd (monitors_at p ! i))
        (effects_of i (process_trace p)) (polls_of i (process_trace p)) (ctx_done p))"

lemma startup_keeps_client: "ClientClosed \<notin> set (startup_events e)"
  by (auto simp: startup_events_def startSLAMonitors_def)

lemma process_inv_start: "process_inv E e (process_start e)"
  by (simp add: process_inv_def process_start_def main_ok_def startup_keeps_client o_def)

lemma process_invD:
  assumes "process_inv E e p"
  shows "main_ok E e (main_at p) (main_events (process_trace p)) (ctx_done p)"
    and "client_open p = (ClientClosed \<notin> set (main_events (process_trace p)))"
    and "map fst (monitors_at p) = slaEntries e"
    and "i < length (monitors_at p) \<Longrightarrow> monitor_ok (fst (monitors_at p ! i)) (snd (monitors_at p ! i))
        (effects_of i (process_trace p)) (polls_of i (process_trace p)) (ctx_done p)"
  using assms unfolding process_inv_def by blast+

lemma monitor_ok_finished: "monitor_ok entry phase es ps b \<Longrightarrow> monitor_ok entry phase es ps True"
  by (cases phase) auto

lemma main_ok_finished: "main_ok E e phase evs b \<Longrightarrow> main_ok E e phase evs True"
  by (auto simp: main_ok_def split: main_phase.splits)

text \<open>A turn of one monitor leaves the others and the main goroutine as they were.\<close>

lemma monitor_turn_inv:
  assumes "process_inv E e p" and "i < length (monitors_at p)" and "fst (monitors_at p ! i) = entry"
    and "\<And>j. j \<noteq> i \<Longrightarrow> effects_of j evs = [] \<and> polls_of j evs = []" and "main_events evs = []"
    and "monitor_ok entry q (effects_of i (process_trace p) @ effects_of i evs)
      (polls_of i (process_trace p) @ polls_of i evs) (ctx_done p)"
  shows "process_inv E e (p\<lparr>monitors_at := (monitors_at p)[i := (entry, q)], process_trace := process_trace p @ evs\<rparr>)"
proof -
  have "map fst ((monitors_at p)[i := (entry, q)]) = slaEntries e"
    using process_invD(3) [OF assms(1)] assms(2,3) by (metis fst_conv list_update_id map_update nth_map)
  then show ?thesis
    using assms process_invD(1,2) [OF assms(1)] process_invD(4) [OF assms(1)]
    by (auto simp: process_inv_def nth_list_update)
qed

lemma process_step_inv:
  assumes "process_step E e p p'" and inv: "process_inv E e p"
  shows "process_inv E e p'"
  using assms(1)
proof cases
  case cancel
  with process_invD [OF inv] show ?thesis
    by (auto simp: process_inv_def intro: monitor_ok_finished main_ok_finished)
next
  case (stop reason)
  with process_invD [OF inv] show ?thesis
    by (auto simp: process_inv_def main_ok_def)
next
  case (close ev evs)
  have "main_ok E e (Closing evs) (main_events (process_trace p) @ [ev]) (ctx_done p)"
    using process_invD(1) [OF inv] close by (auto simp: main_ok_def)
  with close process_invD(2-4) [OF inv] show ?thesis
    by (auto simp: process_inv_def)
next
  case return
  with process_invD [OF inv] show ?thesis
    by (auto simp: process_inv_def main_ok_def)
next
  case (begin_monitor i entry)
  have "monitor_ok entry Launched (effects_of i (process_trace p)) (polls_of i (process_trace p)) (ctx_done p)"
    using process_invD(4) [OF inv begin_monitor(2)] begin_monitor(3) by simp
  then have "process_inv E e (p\<lparr>monitors_at := (monitors_at p)[i := (entry, Looping {})],
      process_trace := process_trace p @ map (MonitorDid i) (monitor_hello entry)\<rparr>)"
    using begin_monitor(2,3) by (intro monitor_turn_inv [OF inv]) (auto simp: monitor_hello_def)
  with begin_monitor(1) show ?thesis by simp
next
  case (poll i entry alerted resp alerted' es)
  have "monitor_ok entry (Looping alerted) (effects_of i (process_trace p)) (polls_of i (process_trace p)) (ctx_done p)"
    using process_invD(4) [OF inv poll(2)] poll(3) by simp
  then have "process_inv E e (p\<lparr>monitors_at := (monitors_at p)[i := (entry, Looping alerted')],
      process_trace := process_trace p @ Polled i (client_open p) resp # map (MonitorDid i) es\<rparr>)"
    using poll(2-4)
    by (intro monitor_turn_inv [OF inv]) (auto simp: runSLAMonitor_snoc alerted_by_append)
  with poll(1) show ?thesis by simp
next
  case (end_monitor i entry alerted)
  have "monitor_ok entry (Looping alerted) (effects_of i (process_trace p)) (polls_of i (process_trace p)) (ctx_done p)"
    using process_invD(4) [OF inv end_monitor(2)] end_monitor(3) by simp
  then have "process_inv E e (p\<lparr>monitors_at := (monitors_at p)[i := (entry, Gone)], process_trace := process_trace p @ []\<rparr>)"
    using end_monitor(2-4) by (intro monitor_turn_inv [OF inv]) auto
  with end_monitor(1) show ?thesis by simp
qed

lemma reachable_process_inv:
  "(process_step E e)\<^sup>*\<^sup>* (process_start e) p \<Longrightarrow> process_inv E e p"
  by (induction rule: rtranclp_induct) (auto intro: process_inv_start process_step_inv)

subsection \<open>Properties\<close>

lemma Start_events:
  "worker_Start E = None \<Longrightarrow>
    snd (Start E reason e) = startup_events e @ stop_log reason # snd (engine_shutdown E e)"
  by (cases reason) (simp_all add: Start_def startup_events_def stop_log_def Let_def engine_shutdown_def)

text \<open>
  The goroutines of a started engine do not disturb each other: in every interleaving the main
  one has done a part of what \<open>Start\<close> does on its own, and all of it once it has returned; and each
  monitor has done exactly what \<open>runSLAMonitor\<close> does with the responses that monitor got, so that
  its alerts are those of its own polls. A monitor returns only when the context is done, and a stop
  for another reason never ends one.
\<close>

theorem engine_goroutines_independent:
  assumes "worker_Start E = None" and "(process_step E e)\<^sup>*\<^sup>* (process_start e) p"
  shows "(\<exists>reason rest. main_events (process_trace p) @ rest = snd (Start E reason e) \<and>
      (main_at p = Exited \<longrightarrow> rest = [] \<and> (reason = ContextDone \<longrightarrow> ctx_done p))) \<and>
    map fst (monitors_at p) = slaEntries e \<and>
    (\<forall>i < length (slaEntries e). case snd (monitors_at p ! i) of
       Launched \<Rightarrow> effects_of i (process_trace p) = []
     | Looping alerted \<Rightarrow> effects_of i (process_trace p) = runSLAMonitor (slaEntries e ! i) (polls_of i (process_trace p))
     | Gone \<Rightarrow> effects_of i (process_trace p) = runSLAMonitor (slaEntries e ! i) (polls_of i (process_trace p)) \<and> ctx_done p)"
proof (intro conjI allI impI)
  note inv = reachable_process_inv [OF assms(2)]
  show "\<exists>reason rest. main_events (process_trace p) @ rest = snd (Start E reason e) \<and>
      (main_at p = Exited \<longrightarrow> rest = [] \<and> (reason = ContextDone \<longrightarrow> ctx_done p))"
    using process_invD(1) [OF inv]
    by (cases "main_at p") (auto simp: main_ok_def Start_events [OF assms(1)])
  show fsts: "map fst (monitors_at p) = slaEntries e" by (rule process_invD(3) [OF inv])
  fix i assume i: "i < length (slaEntries e)"
  then have "i < length (monitors_at p)" "fst (monitors_at p ! i) = slaEntries e ! i"
    using fsts by (metis length_map, metis length_map nth_map)
  then show "case snd (monitors_at p ! i) of
       Launched \<Rightarrow> effects_of i (process_trace p) = []
     | Looping alerted \<Rightarrow> effects_of i (process_trace p) = runSLAMonitor (slaEntries e ! i) (polls_of i (process_trace p))
     | Gone \<Rightarrow> effects_of i (process_trace p) = runSLAMonitor (slaEntries e ! i) (polls_of i (process_trace p)) \<and> ctx_done p"
    using process_invD(4) [OF inv, of i] by (cases "snd (monitors_at p ! i)") auto
qed

definition monitored_engine :: Engine where
  "monitored_engine =
     \<lparr>eg_client = \<lparr>co_HostPort = ''localhost:7233'', co_Namespace = ''default'', co_Identity = '''', co_TLS = None,
        co_Metrics = False, co_Interceptors = []\<rparr>,
      eg_config = applyDefaults traced_config, eg_tracing = False, eg_metricsRegistry = False,
      slaEntries = [\<lparr>workflowType = ''Loan'', sla_config = \<lparr>WarnAfter = 0, AlertAfter = Hour, AlertFn = Some ''page''\<rparr>\<rparr>]\<rparr>"

theorem engine_goroutines_independent_witness:
  "\<exists>p. (process_step working_world monitored_engine)\<^sup>*\<^sup>* (process_start monitored_engine) p \<and>
    effects_of 0 (process_trace p) = runSLAMonitor (slaEntries monitored_engine ! 0) [] \<and> polls_of 0 (process_trace p) = []"
proof -
  let ?entry = "slaEntries monitored_engine ! 0"
  let ?start = "process_start monitored_engine"
  let ?p = "?start\<lparr>monitors_at := (monitors_at ?start)[0 := (?entry, Looping {})],
      process_trace := process_trace ?start @ map (MonitorDid 0) (monitor_hello ?entry)\<rparr>"
  have "process_step working_world monitored_engine ?start ?p"
    by (rule begin_monitor) (simp_all add: process_start_def monitored_engine_def)
  then have reach: "(process_step working_world monitored_engine)\<^sup>*\<^sup>* ?start ?p" by simp
  have "worker_Start working_world = None" by (simp add: working_world_def)
  from engine_goroutines_independent [OF this reach]
  have "effects_of 0 (process_trace ?p) = runSLAMonitor ?entry (polls_of 0 (process_trace ?p))"
    by (simp add: process_start_def monitored_engine_def)
  moreover have "polls_of 0 (process_trace ?p) = []" by (simp add: process_start_def)
  ultimately show ?thesis using reach by metis
qed

lemma shutdown_runs:
  assumes "main_at p = Closing evs"
  shows "(process_step E e)\<^sup>*\<^sup>* p (p\<lparr>main_at := Exited, client_open := client_open p \<and> ClientClosed \<notin> set evs,
    process_trace := process_trace p @ map MainDid evs\<rparr>)"
  using assms
proof (induction evs arbitrary: p)
  case Nil
  have "process_step E e p (p\<lparr>main_at := Exited\<rparr>)" by (rule process_step.return [OF Nil])
  then show ?case by simp
next
  case (Cons ev evs)
  let ?q = "p\<lparr>main_at := Closing evs, client_open := client_open p \<and> ev \<noteq> ClientClosed,
      process_trace := process_trace p @ [MainDid ev]\<rparr>"
  have "process_step E e p ?q" by (rule process_step.close [OF Cons.prems])
  moreover have "(process_step E e)\<^sup>*\<^sup>* ?q (?q\<lparr>main_at := Exited, client_open := client_open ?q \<and> ClientClosed \<notin> set evs,
    process_trace := process_trace ?q @ map MainDid evs\<rparr>)" by (rule Cons.IH) simp
  moreover have "(client_open p \<and> ev \<noteq> ClientClosed) \<and> ClientClosed \<notin> set evs \<longleftrightarrow>
      client_open p \<and> ClientClosed \<notin> set (ev # evs)" by auto
  ultimately show ?case by simp
qed

text \<open>
  The end of \<open>Start\<close> does not wait for the monitors. Whatever ended it, a monitor may still poll
  after \<open>Start\<close> has returned, on the client that \<open>Start\<close> has closed: after a cancelled context it can
  be in the middle of a round, and after a signal nothing ever tells it to stop.
\<close>

theorem monitors_outlive_engine:
  assumes "i < length (slaEntries e)"
  shows "\<exists>p. (process_step E e)\<^sup>*\<^sup>* (process_start e) p \<and> main_at p = Exited \<and>
    ctx_done p = (reason = ContextDone) \<and> (\<exists>alerted. snd (monitors_at p ! i) = Looping alerted) \<and>
    Polled i False resp \<in> set (process_trace p)"
proof -
  let ?entry = "slaEntries e ! i"
  let ?p0 = "process_start e"
  let ?p1 = "?p0\<lparr>monitors_at := (monitors_at ?p0)[i := (?entry, Looping {})],
      process_trace := process_trace ?p0 @ map (MonitorDid i) (monitor_hello ?entry)\<rparr>"
  let ?p2 = "?p1\<lparr>ctx_done := (reason = ContextDone)\<rparr>"
  let ?down = "stop_log reason # snd (engine_shutdown E e)"
  let ?p3 = "?p2\<lparr>main_at := Closing ?down\<rparr>"
  let ?p4 = "?p3\<lparr>main_at := Exited, client_open := client_open ?p3 \<and> ClientClosed \<notin> set ?down,
    process_trace := process_trace ?p3 @ map MainDid ?down\<rparr>"
  have i: "i < length (monitors_at ?p0)" using assms by (simp add: process_start_def)
  have "process_step E e ?p0 ?p1"
    by (rule process_step.begin_monitor [OF i]) (use assms in \<open>simp add: process_start_def\<close>)
  moreover have "(process_step E e)\<^sup>*\<^sup>* ?p1 ?p2"
    using process_step.cancel [of E e ?p1]
    by (cases "reason = ContextDone") (auto simp: process_start_def)
  moreover have "process_step E e ?p2 ?p3"
    by (rule process_step.stop) (simp_all add: process_start_def)
  moreover have "(process_step E e)\<^sup>*\<^sup>* ?p3 ?p4" by (rule shutdown_runs) simp
  ultimately have reach: "(process_step E e)\<^sup>*\<^sup>* ?p0 ?p4"
    by (meson converse_rtranclp_into_rtranclp rtranclp_trans)
  obtain alerted' es where sla: "checkSLA ?entry resp {} = (alerted', es)" by fastforce
  have closed: "\<not> client_open ?p4" by (simp add: engine_shutdown_def)
  let ?p5 = "?p4\<lparr>monitors_at := (monitors_at ?p4)[i := (?entry, Looping alerted')],
      process_trace := process_trace ?p4 @ Polled i (client_open ?p4) resp # map (MonitorDid i) es\<rparr>"
  have "process_step E e ?p4 ?p5"
    by (rule process_step.poll [OF _ _ sla]) (use i in simp_all)
  with reach have "(process_step E e)\<^sup>*\<^sup>* ?p0 ?p5" by (rule rtranclp.rtrancl_into_rtrancl)
  moreover have "main_at ?p5 = Exited" "ctx_done ?p5 = (reason = ContextDone)"
    "snd (monitors_at ?p5 ! i) = Looping alerted'" "Polled i False resp \<in> set (process_trace ?p5)"
    using i closed by simp_all
  ultimately show ?thesis by blast
qed

theorem monitors_outlive_engine_witness:
  "\<exists>p. (process_step working_world monitored_engine)\<^sup>*\<^sup>* (process_start monitored_engine) p \<and> main_at p = Exited \<and>
    \<not> ctx_done p \<and> Polled 0 False (Inr []) \<in> set (process_trace p)"
  using monitors_outlive_engine [of 0 monitored_engine working_world "SignalReceived ''terminated''" "Inr []"]
  by (auto simp: monitored_engine_def)

end
