(* ===== verification/Observability.thy ===== *)
theory Observability
  imports SdkTypes "HOL-Library.State_Monad"
begin

text \<open>
  \<open>observability/logging.go\<close> and \<open>observability/metrics.go\<close>: the adapters that the engine hands to
  the Temporal client, from the SDK's logger to zap and from its metrics handler to Prometheus.
  zap and the Prometheus client are not under src/: each is a record of the calls the adapters
  make.
\<close>

subsection \<open>The logger\<close>

text \<open>\<open>zap.Any\<close> and the four methods of \<open>*zap.Logger\<close>; \<open>'f\<close> is a zap field.\<close>

record ('f, 'st) zap =
  zap_Any :: "string \<Rightarrow> gval \<Rightarrow> 'f"
  zap_Debug :: "string \<Rightarrow> 'f list \<Rightarrow> 'st \<Rightarrow> 'st"
  zap_Info :: "string \<Rightarrow> 'f list \<Rightarrow> 'st \<Rightarrow> 'st"
  zap_Warn :: "string \<Rightarrow> 'f list \<Rightarrow> 'st \<Rightarrow> 'st"
  zap_Error :: "string \<Rightarrow> 'f list \<Rightarrow> 'st \<Rightarrow> 'st"

text \<open>The key of a pair: \<open>key, ok := keyvals[i].(string)\<close>.\<close>

definition field_key :: "gval \<Rightarrow> string" where
  "field_key k = (case k of GStr s \<Rightarrow> s | _ \<Rightarrow> ''unknown'')"

text \<open>The loop of \<open>toFields\<close>, with \<open>i\<close> and the fields appended so far.\<close>

function toFields_loop ::
    "('f, 'st) zap \<Rightarrow> gval list \<Rightarrow> nat \<Rightarrow> 'f list \<Rightarrow> 'f list" where
  "toFields_loop Z keyvals i fs =
     (if i + 1 < length keyvals
      then toFields_loop Z keyvals (i + 2)
        (fs @ [zap_Any Z (field_key (keyvals ! i)) (keyvals ! (i + 1))])
      else fs)"
  by pat_completeness auto
termination
  by (relation "measure (\<lambda>(Z, keyvals, i, fs). length keyvals - i)") auto

declare toFields_loop.simps [simp del]

definition toFields :: "('f, 'st) zap \<Rightarrow> gval list \<Rightarrow> 'f list" where
  "toFields Z keyvals =
     (if length keyvals = 0 then []
      else (let fs = toFields_loop Z keyvals 0 [] in
        if length keyvals mod 2 \<noteq> 0
        then fs @ [zap_Any Z ''extra'' (keyvals ! (length keyvals - 1))]
        else fs))"

definition zapLogger_Debug :: "('f, 'st) zap \<Rightarrow> string \<Rightarrow> gval list \<Rightarrow> 'st \<Rightarrow> 'st" where
  "zapLogger_Debug Z msg keyvals = zap_Debug Z msg (toFields Z keyvals)"

definition zapLogger_Info :: "('f, 'st) zap \<Rightarrow> string \<Rightarrow> gval list \<Rightarrow> 'st \<Rightarrow> 'st" where
  "zapLogger_Info Z msg keyvals = zap_Info Z msg (toFields Z keyvals)"

definition zapLogger_Warn :: "('f, 'st) zap \<Rightarrow> string \<Rightarrow> gval list \<Rightarrow> 'st \<Rightarrow> 'st" where
  "zapLogger_Warn Z msg keyvals = zap_Warn Z msg (toFields Z keyvals)"

definition zapLogger_Error :: "('f, 'st) zap \<Rightarrow> string \<Rightarrow> gval list \<Rightarrow> 'st \<Rightarrow> 'st" where
  "zapLogger_Error Z msg keyvals = zap_Error Z msg (toFields Z keyvals)"

text \<open>The fields as structural recursion over the pairs.\<close>

fun pair_fields :: "('f, 'st) zap \<Rightarrow> gval list \<Rightarrow> 'f list" where
  "pair_fields Z (k # v # rest) = zap_Any Z (field_key k) v # pair_fields Z rest"
| "pair_fields Z kvs = []"

lemma length_pair_fields: "length (pair_fields Z kvs) = length kvs div 2"
  by (induction Z kvs rule: pair_fields.induct) simp_all

lemma toFields_loop_pairs:
  "toFields_loop Z keyvals i fs = fs @ pair_fields Z (drop i keyvals)"
proof (induction Z keyvals i fs rule: toFields_loop.induct)
  case (1 Z keyvals i fs)
  show ?case
  proof (cases "i + 1 < length keyvals")
    case True
    then have "drop i keyvals = keyvals ! i # keyvals ! (i + 1) # drop (i + 2) keyvals"
      by (simp add: Cons_nth_drop_Suc)
    with True "1.IH" show ?thesis by (subst toFields_loop.simps) simp
  next
    case False
    then have "length (drop i keyvals) div 2 = 0" by auto
    then have "pair_fields Z (drop i keyvals) = []"
      using length_pair_fields [of Z "drop i keyvals"] by simp
    with False show ?thesis by (subst toFields_loop.simps) simp
  qed
qed

lemma toFields_pairs:
  "toFields Z kvs = pair_fields Z kvs @ (if odd (length kvs) then [zap_Any Z ''extra'' (last kvs)] else [])"
  by (cases "kvs = []")
    (auto simp: toFields_def toFields_loop_pairs Let_def last_conv_nth odd_iff_mod_2_eq_one)

text \<open>How a caller passes key-value pairs: \<open>"k1", v1, "k2", v2\<close>.\<close>

fun keyvals_of :: "(string \<times> gval) list \<Rightarrow> gval list" where
  "keyvals_of [] = []"
| "keyvals_of ((k, v) # kvs) = GStr k # v # keyvals_of kvs"

lemma length_keyvals_of [simp]: "length (keyvals_of kvs) = 2 * length kvs"
  by (induction kvs rule: keyvals_of.induct) simp_all

lemma pair_fields_keyvals_of:
  "pair_fields Z (keyvals_of kvs @ rest) = map (\<lambda>(k, v). zap_Any Z k v) kvs @ pair_fields Z rest"
  by (induction kvs rule: keyvals_of.induct) (simp_all add: field_key_def)

lemma pair_fields_nth:
  "pair_fields Z args = map (\<lambda>i. zap_Any Z (field_key (args ! (2 * i))) (args ! (2 * i + 1))) [0..<length args div 2]"
proof (induction Z args rule: pair_fields.induct)
  case (1 Z k v rest)
  have "[0..<length (k # v # rest) div 2] = 0 # map Suc [0..<length rest div 2]"
    by (simp add: upt_conv_Cons map_Suc_upt del: upt_Suc)
  with 1 show ?case by (simp add: comp_def)
qed simp_all

text \<open>
  C39. What the log adapter makes of any list of arguments, well formed or not: argument \<open>2 i + 1\<close> is the
  value of field \<open>i\<close>, whose key is argument \<open>2 i\<close> if that is a string; a key that is no string is itself
  not logged, its field is called "unknown"; a last argument without a partner is the value of a field
  "extra"; and there are no other fields. So no value is lost, and well-formed pairs become exactly
  their fields, in order.
\<close>

theorem log_fields_roundtrip:
  "toFields Z args =
     map (\<lambda>i. zap_Any Z (case args ! (2 * i) of GStr s \<Rightarrow> s | _ \<Rightarrow> ''unknown'') (args ! (2 * i + 1)))
       [0..<length args div 2] @
     (if odd (length args) then [zap_Any Z ''extra'' (last args)] else []) \<and>
   toFields Z (keyvals_of kvs) = map (\<lambda>(k, v). zap_Any Z k v) kvs"
  using pair_fields_keyvals_of [of Z kvs "[]"]
  by (simp add: toFields_pairs pair_fields_nth [of Z args] field_key_def)

subsection \<open>The metrics handler\<close>

text \<open>
  The calls made to the Prometheus client: \<open>'m\<close> is a collector (a counter, gauge or histogram),
  \<open>'g\<close> a registry. \<open>Counter.Add\<close> may panic.
\<close>

record ('m, 'g, 'st) prometheus =
  NewCounter :: "string \<Rightarrow> ('st, 'm) state"
  NewGauge :: "string \<Rightarrow> ('st, 'm) state"
  NewHistogram :: "string \<Rightarrow> ('st, 'm) state"
  NewRegistry :: "('st, 'g) state"
  Register :: "'g \<Rightarrow> 'm \<Rightarrow> ('st, go_error option) state"
  Counter_Add :: "'m \<Rightarrow> rat \<Rightarrow> ('st, (string, unit) outcome) state"
  Gauge_Set :: "'m \<Rightarrow> f64 \<Rightarrow> ('st, unit) state"
  Observer_Observe :: "'m \<Rightarrow> rat \<Rightarrow> ('st, unit) state"

text \<open>
  \<open>prometheusMetricsHandler\<close>. The three maps are filled by the constructor and only read
  afterwards, so that handlers may share them.
\<close>

record ('m, 'g) prometheusMetricsHandler =
  counters :: "string \<rightharpoonup> 'm"
  gauges :: "string \<rightharpoonup> 'm"
  histograms :: "string \<rightharpoonup> 'm"
  registry :: 'g
  tags :: "string \<rightharpoonup> string"

definition metric_names :: "string list" where
  "metric_names =
     [''temporal_workflow_started_total'', ''temporal_workflow_completed_total'',
      ''temporal_workflow_failed_total'', ''temporal_activity_started_total'',
      ''temporal_activity_completed_total'', ''temporal_activity_failed_total'']"

definition latency_name :: string where
  "latency_name = ''temporal_activity_execution_latency_seconds''"

fun register_counters ::
    "('m, 'g, 'st) prometheus \<Rightarrow> string list \<Rightarrow> ('m, 'g) prometheusMetricsHandler \<Rightarrow>
     ('st, ('m, 'g) prometheusMetricsHandler) state" where
  "register_counters P [] h = State_Monad.return h"
| "register_counters P (name # names) h =
     do {
       c \<leftarrow> NewCounter P name;
       Register P (registry h) c;
       register_counters P names (h\<lparr>counters := (counters h)(name \<mapsto> c)\<rparr>)
     }"

definition registerMetrics ::
    "('m, 'g, 'st) prometheus \<Rightarrow> ('m, 'g) prometheusMetricsHandler \<Rightarrow>
     ('st, ('m, 'g) prometheusMetricsHandler) state" where
  "registerMetrics P h =
     do {
       h \<leftarrow> register_counters P metric_names h;
       latency \<leftarrow> NewHistogram P latency_name;
       Register P (registry h) latency;
       State_Monad.return (h\<lparr>histograms := (histograms h)(latency_name \<mapsto> latency)\<rparr>)
     }"

definition NewPrometheusMetricsHandler ::
    "('m, 'g, 'st) prometheus \<Rightarrow> 'g option \<Rightarrow> ('st, ('m, 'g) prometheusMetricsHandler) state" where
  "NewPrometheusMetricsHandler P reg =
     do {
       g \<leftarrow> (case reg of None \<Rightarrow> NewRegistry P | Some g \<Rightarrow> State_Monad.return g);
       registerMetrics P \<lparr>counters = Map.empty, gauges = Map.empty, histograms = Map.empty,
         registry = g, tags = Map.empty\<rparr>
     }"

definition WithTags ::
    "(string \<rightharpoonup> string) \<Rightarrow> ('m, 'g) prometheusMetricsHandler \<Rightarrow> ('m, 'g) prometheusMetricsHandler" where
  "WithTags ts h =
     \<lparr>counters = counters h, gauges = gauges h, histograms = histograms h, registry = registry h,
      tags = tags h ++ ts\<rparr>"

definition handler_Counter ::
    "('m, 'g, 'st) prometheus \<Rightarrow> ('m, 'g) prometheusMetricsHandler \<Rightarrow> string \<Rightarrow> ('st, 'm) state" where
  "handler_Counter P h name =
     (case counters h name of Some c \<Rightarrow> State_Monad.return c | None \<Rightarrow> NewCounter P name)"

definition handler_Gauge ::
    "('m, 'g, 'st) prometheus \<Rightarrow> ('m, 'g) prometheusMetricsHandler \<Rightarrow> string \<Rightarrow> ('st, 'm) state" where
  "handler_Gauge P h name =
     (case gauges h name of Some g \<Rightarrow> State_Monad.return g | None \<Rightarrow> NewGauge P name)"

definition handler_Timer ::
    "('m, 'g, 'st) prometheus \<Rightarrow> ('m, 'g) prometheusMetricsHandler \<Rightarrow> string \<Rightarrow> ('st, 'm) state" where
  "handler_Timer P h name =
     (case histograms h name of Some o' \<Rightarrow> State_Monad.return o' | None \<Rightarrow> NewHistogram P name)"

text \<open>
  The wrappers around one metric. \<open>rnd\<close> is the rounding of float64 arithmetic; nothing depends on
  it. \<open>Duration.Seconds\<close> adds whole seconds and the fraction.
\<close>

definition promCounter_Inc ::
    "('m, 'g, 'st) prometheus \<Rightarrow> (rat \<Rightarrow> rat) \<Rightarrow> 'm \<Rightarrow> int \<Rightarrow> ('st, (string, unit) outcome) state" where
  "promCounter_Inc P rnd c delta = Counter_Add P c (rnd (of_int delta))"

definition promGauge_Update :: "('m, 'g, 'st) prometheus \<Rightarrow> 'm \<Rightarrow> f64 \<Rightarrow> ('st, unit) state" where
  "promGauge_Update P g v = Gauge_Set P g v"

definition duration_Seconds :: "(rat \<Rightarrow> rat) \<Rightarrow> duration \<Rightarrow> rat" where
  "duration_Seconds rnd d =
     (let sec = go_div d Second; nsec = d - Second * sec
      in rnd (rnd (of_int sec) + rnd (rnd (of_int nsec) / 1000000000)))"

definition promTimer_Record ::
    "('m, 'g, 'st) prometheus \<Rightarrow> (rat \<Rightarrow> rat) \<Rightarrow> 'm \<Rightarrow> duration \<Rightarrow> ('st, unit) state" where
  "promTimer_Record P rnd o' d = Observer_Observe P o' (duration_Seconds rnd d)"

subsection \<open>What the Prometheus client documents\<close>

text \<open>
  \<open>registered g\<close> are the collectors a registry gathers, \<open>current\<close> what a collector has recorded,
  \<open>amount\<close> the value of a counter in it. A new collector has its name and belongs to no registry; registering it succeeds
  unless one with that name is there; recording on one collector changes no other and no registry;
  a counter counts up and panics on a negative amount.
\<close>

definition creates_documented ::
    "('g \<Rightarrow> 'st \<Rightarrow> 'm set) \<Rightarrow> ('m \<Rightarrow> 'st \<Rightarrow> 'v) \<Rightarrow> ('m \<Rightarrow> string) \<Rightarrow> (string \<Rightarrow> ('st, 'm) state) \<Rightarrow> bool" where
  "creates_documented registered current metric_name new \<longleftrightarrow>
     (\<forall>name s m s'. run_state (new name) s = (m, s') \<longrightarrow>
        metric_name m = name \<and> (\<forall>g. registered g s' = registered g s \<and> m \<notin> registered g s) \<and>
        (\<forall>g. \<forall>m' \<in> registered g s. current m' s' = current m' s))"

definition records_documented ::
    "('g \<Rightarrow> 'st \<Rightarrow> 'm set) \<Rightarrow> ('m \<Rightarrow> 'st \<Rightarrow> 'v) \<Rightarrow> ('m \<Rightarrow> ('st, 'r) state) \<Rightarrow> bool" where
  "records_documented registered current op \<longleftrightarrow>
     (\<forall>m s r s'. run_state (op m) s = (r, s') \<longrightarrow>
        (\<forall>g. registered g s' = registered g s) \<and> (\<forall>m'. m' \<noteq> m \<longrightarrow> current m' s' = current m' s))"

definition prometheus_documented ::
    "('m, 'g, 'st) prometheus \<Rightarrow> ('g \<Rightarrow> 'st \<Rightarrow> 'm set) \<Rightarrow> ('m \<Rightarrow> 'st \<Rightarrow> 'v) \<Rightarrow> ('v \<Rightarrow> rat) \<Rightarrow>
     ('m \<Rightarrow> string) \<Rightarrow> bool" where
  "prometheus_documented P registered current amount metric_name \<longleftrightarrow>
     creates_documented registered current metric_name (NewCounter P) \<and>
     creates_documented registered current metric_name (NewGauge P) \<and>
     creates_documented registered current metric_name (NewHistogram P) \<and>
     (\<forall>x. records_documented registered current (\<lambda>c. Counter_Add P c x)) \<and>
     (\<forall>v. records_documented registered current (\<lambda>m. Gauge_Set P m v)) \<and>
     (\<forall>x. records_documented registered current (\<lambda>m. Observer_Observe P m x)) \<and>
     (\<forall>s g s'. run_state (NewRegistry P) s = (g, s') \<longrightarrow> registered g s' = {}) \<and>
     (\<forall>g m s e s'. run_state (Register P g m) s = (e, s') \<longrightarrow>
        registered g s' = (if metric_name m \<in> metric_name ` registered g s then registered g s
                           else insert m (registered g s))) \<and>
     (\<forall>c x s r s'. run_state (Counter_Add P c x) s = (r, s') \<longrightarrow>
        (if 0 \<le> x then r = Returned () \<and> amount (current c s') = amount (current c s) + x
         else (\<exists>msg. r = Panicked msg) \<and> current c s' = current c s))"

lemma creates_documentedD:
  assumes "creates_documented registered current metric_name new" and "run_state (new name) s = (m, s')"
  shows "metric_name m = name" "registered g s' = registered g s" "m \<notin> registered g s"
    "m' \<in> registered g s \<Longrightarrow> current m' s' = current m' s"
  using assms unfolding creates_documented_def by blast+

lemma records_documentedD:
  assumes "records_documented registered current op" and "run_state (op m) s = (r, s')"
  shows "registered g s' = registered g s" "m' \<noteq> m \<Longrightarrow> current m' s' = current m' s"
  using assms unfolding records_documented_def by blast+

lemma prometheus_documented_parts:
  assumes "prometheus_documented P registered current amount metric_name"
  shows "creates_documented registered current metric_name (NewCounter P)"
    and "creates_documented registered current metric_name (NewGauge P)"
    and "creates_documented registered current metric_name (NewHistogram P)"
    and "records_documented registered current (\<lambda>c. Counter_Add P c x)"
    and "records_documented registered current (\<lambda>m. Gauge_Set P m v)"
    and "records_documented registered current (\<lambda>m. Observer_Observe P m x)"
    and "run_state (NewRegistry P) s = (g, s') \<Longrightarrow> registered g s' = {}"
    and "run_state (Counter_Add P c x) s = (r, s') \<Longrightarrow> 0 \<le> x \<Longrightarrow>
      r = Returned () \<and> amount (current c s') = amount (current c s) + x"
    and "run_state (Counter_Add P c x) s = (r, s') \<Longrightarrow> x < 0 \<Longrightarrow>
      (\<exists>msg. r = Panicked msg) \<and> current c s' = current c s"
  using assms unfolding prometheus_documented_def by (simp_all add: not_le [symmetric])

lemma Register_documentedD:
  assumes "prometheus_documented P registered current amount metric_name"
    and "run_state (Register P g m) s = (e, s')" and "metric_name m \<notin> metric_name ` registered g s"
  shows "registered g s' = insert m (registered g s)"
  using assms unfolding prometheus_documented_def by metis

text \<open>What a scrape of a registry returns.\<close>

definition scrape :: "('g \<Rightarrow> 'st \<Rightarrow> 'm set) \<Rightarrow> ('m \<Rightarrow> 'st \<Rightarrow> 'v) \<Rightarrow> 'g \<Rightarrow> 'st \<Rightarrow> ('m \<times> 'v) set" where
  "scrape registered current g s = (\<lambda>m. (m, current m s)) ` registered g s"

lemma scrape_cong:
  assumes "registered g s' = registered g s" and "\<And>m. m \<in> registered g s \<Longrightarrow> current m s' = current m s"
  shows "scrape registered current g s' = scrape registered current g s"
  using assms by (simp add: scrape_def)

subsection \<open>The invariant of a handler\<close>

definition handler_ok ::
    "('g \<Rightarrow> 'st \<Rightarrow> 'm set) \<Rightarrow> ('m \<Rightarrow> string) \<Rightarrow> ('m, 'g) prometheusMetricsHandler \<Rightarrow> 'st \<Rightarrow> bool" where
  "handler_ok registered metric_name h s \<longleftrightarrow>
     dom (counters h) = set metric_names \<and> dom (histograms h) = {latency_name} \<and> gauges h = Map.empty \<and>
     (\<forall>name c. counters h name = Some c \<or> histograms h name = Some c \<longrightarrow>
        c \<in> registered (registry h) s \<and> metric_name c = name)"

lemma handler_ok_WithTags [simp]:
  "handler_ok registered metric_name (WithTags ts h) s = handler_ok registered metric_name h s"
  by (simp add: handler_ok_def WithTags_def)

lemma register_counters_ok:
  assumes doc: "prometheus_documented P registered current amount metric_name"
    and "distinct names" and "\<forall>name \<in> set names. name \<notin> metric_name ` registered (registry h) s"
    and "run_state (register_counters P names h) s = (h', s')"
  shows "h' = h\<lparr>counters := counters h'\<rparr> \<and>
    (\<forall>name. name \<notin> set names \<longrightarrow> counters h' name = counters h name) \<and>
    (\<forall>name \<in> set names. \<exists>c \<in> registered (registry h) s'. counters h' name = Some c \<and> metric_name c = name) \<and>
    registered (registry h) s \<subseteq> registered (registry h) s' \<and>
    metric_name ` registered (registry h) s' = metric_name ` registered (registry h) s \<union> set names"
  using assms(2-4)
proof (induction names arbitrary: h s)
  case Nil
  then show ?case by simp
next
  case (Cons name names)
  obtain c s1 where c: "run_state (NewCounter P name) s = (c, s1)" by fastforce
  obtain e s2 where e: "run_state (Register P (registry h) c) s1 = (e, s2)" by fastforce
  let ?h = "h\<lparr>counters := (counters h)(name \<mapsto> c)\<rparr>"
  have new: "metric_name c = name" "registered (registry h) s1 = registered (registry h) s"
    using creates_documentedD [OF prometheus_documented_parts(1) [OF doc] c] by simp_all
  then have reg: "registered (registry h) s2 = insert c (registered (registry h) s)"
    using Register_documentedD [OF doc e] Cons.prems(2) by auto
  have run: "run_state (register_counters P names ?h) s2 = (h', s')"
    using Cons.prems(3) c e by simp
  have "\<forall>n \<in> set names. n \<notin> metric_name ` registered (registry ?h) s2"
    using Cons.prems(1,2) new(1) reg by auto
  from Cons.IH [OF _ this run] Cons.prems(1)
  have IH: "h' = ?h\<lparr>counters := counters h'\<rparr>"
    "\<And>n. n \<notin> set names \<Longrightarrow> counters h' n = counters ?h n"
    "\<And>n. n \<in> set names \<Longrightarrow> \<exists>c \<in> registered (registry h) s'. counters h' n = Some c \<and> metric_name c = n"
    "registered (registry h) s2 \<subseteq> registered (registry h) s'"
    "metric_name ` registered (registry h) s' = metric_name ` registered (registry h) s2 \<union> set names"
    by auto
  have "counters h' name = Some c" using IH(2) [of name] Cons.prems(1) by simp
  moreover have "c \<in> registered (registry h) s'" using IH(4) reg by auto
  ultimately show ?case
    using IH new(1) reg by (auto simp: image_iff)
qed

lemma metric_names_facts: "distinct metric_names" "latency_name \<notin> set metric_names"
  by (simp_all add: metric_names_def latency_name_def)

lemma new_handler_run:
  assumes "run_state (NewPrometheusMetricsHandler P reg) s = (h, s1)"
  obtains g s2 h2 s3 latency s4 e where
    "(case reg of None \<Rightarrow> run_state (NewRegistry P) s | Some g \<Rightarrow> (g, s)) = (g, s2)"
    "run_state (register_counters P metric_names \<lparr>counters = Map.empty, gauges = Map.empty,
       histograms = Map.empty, registry = g, tags = Map.empty\<rparr>) s2 = (h2, s3)"
    "run_state (NewHistogram P latency_name) s3 = (latency, s4)"
    "run_state (Register P (registry h2) latency) s4 = (e, s1)"
    "h = h2\<lparr>histograms := (histograms h2)(latency_name \<mapsto> latency)\<rparr>"
  using assms
  by (cases reg) (auto simp: NewPrometheusMetricsHandler_def registerMetrics_def split: prod.splits)

text \<open>
  A new handler's registry gathers exactly the seven metrics the code declares, each under its
  name, when the registry given to it is empty, as the engine's is; scoping the handler with tags
  keeps this. With a nil registry it makes one of its own, not the process's default registry.
\<close>

theorem new_handler_registers_declared_metrics:
  assumes doc: "prometheus_documented P registered current amount metric_name"
    and run: "run_state (NewPrometheusMetricsHandler P reg) s = (h, s1)"
    and unused: "case reg of None \<Rightarrow> True | Some g \<Rightarrow> registered g s = {}"
  shows "handler_ok registered metric_name (WithTags ts h) s1 \<and>
    registry (WithTags ts h) = (case reg of None \<Rightarrow> fst (run_state (NewRegistry P) s) | Some g \<Rightarrow> g) \<and>
    metric_name ` registered (registry h) s1 = insert latency_name (set metric_names)"
proof -
  from run obtain g s2 h2 s3 latency s4 e where
    g: "(case reg of None \<Rightarrow> run_state (NewRegistry P) s | Some g \<Rightarrow> (g, s)) = (g, s2)" and
    loop: "run_state (register_counters P metric_names \<lparr>counters = Map.empty, gauges = Map.empty,
       histograms = Map.empty, registry = g, tags = Map.empty\<rparr>) s2 = (h2, s3)" and
    lat: "run_state (NewHistogram P latency_name) s3 = (latency, s4)" and
    reg: "run_state (Register P (registry h2) latency) s4 = (e, s1)" and
    h: "h = h2\<lparr>histograms := (histograms h2)(latency_name \<mapsto> latency)\<rparr>"
    by (rule new_handler_run)
  have empty: "registered g s2 = {}"
    using g unused prometheus_documented_parts(7) [OF doc] by (cases reg) auto
  let ?h0 = "\<lparr>counters = Map.empty, gauges = Map.empty, histograms = Map.empty, registry = g, tags = Map.empty\<rparr>"
  have L: "h2 = ?h0\<lparr>counters := counters h2\<rparr>"
      "\<And>name. name \<notin> set metric_names \<Longrightarrow> counters h2 name = None"
      "\<And>name. name \<in> set metric_names \<Longrightarrow>
         \<exists>c \<in> registered g s3. counters h2 name = Some c \<and> metric_name c = name"
      "metric_name ` registered g s3 = set metric_names"
    using register_counters_ok [OF doc metric_names_facts(1) _ loop] empty by simp_all
  have h2: "registry h2 = g" "gauges h2 = Map.empty" "histograms h2 = Map.empty"
    by (subst L(1), simp)+
  note new = creates_documentedD [OF prometheus_documented_parts(3) [OF doc] lat]
  have "registered g s1 = insert latency (registered g s3)"
    using Register_documentedD [OF doc reg] h2(1) new(1) new(2) [of g] L(4) metric_names_facts(2) by simp
  moreover have "dom (counters h2) = set metric_names"
    using L(2,3) by (auto simp: dom_def) (metis option.distinct(1))
  ultimately have facts: "registered g s1 = insert latency (registered g s3)"
      "dom (counters h2) = set metric_names" by blast+
  have "handler_ok registered metric_name h s1"
    unfolding handler_ok_def
  proof (intro conjI allI impI)
    fix name c
    assume "counters h name = Some c \<or> histograms h name = Some c"
    then consider "counters h2 name = Some c" | "name = latency_name" "c = latency"
      using h h2(3) by (auto split: if_splits)
    then have "c \<in> registered g s1 \<and> metric_name c = name"
    proof cases
      case 1
      with facts(2) L(3) [of name] have "c \<in> registered g s3 \<and> metric_name c = name"
        by (metis domI option.inject)
      with facts(1) show ?thesis by simp
    next
      case 2
      with facts(1) new(1) show ?thesis by simp
    qed
    then show "c \<in> registered (registry h) s1" "metric_name c = name"
      using h h2(1) by simp_all
  qed (use h h2 facts(2) in simp_all)
  moreover have "registry (WithTags ts h) = (case reg of None \<Rightarrow> fst (run_state (NewRegistry P) s) | Some g \<Rightarrow> g)"
    using g h h2(1) by (simp add: WithTags_def split: option.splits)
  moreover have "metric_name ` registered (registry h) s1 = insert latency_name (set metric_names)"
    using facts(1) L(4) new(1) h h2(1) by simp
  ultimately show ?thesis by simp
qed

lemma fresh_recording_is_lost:
  assumes "creates_documented registered current metric_name new" and "records_documented registered current op"
  shows "scrape registered current g (snd (run_state (new name \<bind> op) s)) = scrape registered current g s"
proof (rule scrape_cong)
  obtain m s1 where m: "run_state (new name) s = (m, s1)" by fastforce
  obtain r s2 where r: "run_state (op m) s1 = (r, s2)" by fastforce
  note new = creates_documentedD [OF assms(1) m] and rec = records_documentedD [OF assms(2) r]
  show "registered g (snd (run_state (new name \<bind> op) s)) = registered g s"
    using m r new(2) rec(1) by simp
  fix m' assume m': "m' \<in> registered g s"
  with new(3) [of g] have "m' \<noteq> m" by blast
  then show "current m' (snd (run_state (new name \<bind> op) s)) = current m' s"
    using m r m' new(4) rec(2) by simp
qed

text \<open>
  C38. Which SDK metrics reach the registry. A count for one of the six declared counters is added to
  that gathered counter and to nothing else; every other counter, every gauge without exception,
  and every timer but the declared latency is recorded on a throw-away collector, and no scrape of
  any registry ever shows it.
\<close>

theorem only_declared_metrics_reach_registry:
  assumes doc: "prometheus_documented P registered current amount metric_name"
    and ok: "handler_ok registered metric_name h s" and amount: "0 \<le> rnd (of_int delta)"
  shows "(name \<in> set metric_names \<longrightarrow>
      (\<exists>c \<in> registered (registry h) s. \<exists>s'. metric_name c = name \<and>
        run_state (do { c \<leftarrow> handler_Counter P h name; promCounter_Inc P rnd c delta }) s = (Returned (), s') \<and>
        amount (current c s') = amount (current c s) + rnd (of_int delta) \<and>
        (\<forall>c'. c' \<noteq> c \<longrightarrow> current c' s' = current c' s))) \<and>
    (name \<notin> set metric_names \<longrightarrow> scrape registered current g
        (snd (run_state (do { c \<leftarrow> handler_Counter P h name; promCounter_Inc P rnd c delta }) s)) =
      scrape registered current g s) \<and>
    scrape registered current g
        (snd (run_state (do { x \<leftarrow> handler_Gauge P h name; promGauge_Update P x v }) s)) =
      scrape registered current g s \<and>
    (name \<noteq> latency_name \<longrightarrow> scrape registered current g
        (snd (run_state (do { x \<leftarrow> handler_Timer P h name; promTimer_Record P rnd x d }) s)) =
      scrape registered current g s)"
proof (intro conjI impI)
  note parts = prometheus_documented_parts [OF doc]
  assume "name \<in> set metric_names"
  then obtain c where c: "counters h name = Some c" "c \<in> registered (registry h) s" "metric_name c = name"
    using ok unfolding handler_ok_def by blast
  obtain r s' where add: "run_state (Counter_Add P c (rnd (of_int delta))) s = (r, s')" by fastforce
  show "\<exists>c \<in> registered (registry h) s. \<exists>s'. metric_name c = name \<and>
        run_state (do { c \<leftarrow> handler_Counter P h name; promCounter_Inc P rnd c delta }) s = (Returned (), s') \<and>
        amount (current c s') = amount (current c s) + rnd (of_int delta) \<and>
        (\<forall>c'. c' \<noteq> c \<longrightarrow> current c' s' = current c' s)"
    using c add parts(8) [OF add amount] records_documentedD(2) [OF parts(4) add]
    by (intro bexI [of _ c] exI [of _ s']) (auto simp: handler_Counter_def promCounter_Inc_def)
next
  note parts = prometheus_documented_parts [OF doc]
  assume "name \<notin> set metric_names"
  then have "counters h name = None" using ok by (auto simp: handler_ok_def)
  then show "scrape registered current g
      (snd (run_state (do { c \<leftarrow> handler_Counter P h name; promCounter_Inc P rnd c delta }) s)) =
    scrape registered current g s"
    unfolding handler_Counter_def promCounter_Inc_def by (simp del: run_state_bind add: fresh_recording_is_lost [OF parts(1,4)])
next
  note parts = prometheus_documented_parts [OF doc]
  have "gauges h name = None" using ok by (simp add: handler_ok_def)
  then show "scrape registered current g
      (snd (run_state (do { x \<leftarrow> handler_Gauge P h name; promGauge_Update P x v }) s)) =
    scrape registered current g s"
    unfolding handler_Gauge_def promGauge_Update_def by (simp del: run_state_bind add: fresh_recording_is_lost [OF parts(2,5)])
next
  note parts = prometheus_documented_parts [OF doc]
  assume "name \<noteq> latency_name"
  then have "histograms h name = None" using ok by (auto simp: handler_ok_def)
  then show "scrape registered current g
      (snd (run_state (do { x \<leftarrow> handler_Timer P h name; promTimer_Record P rnd x d }) s)) =
    scrape registered current g s"
    unfolding handler_Timer_def promTimer_Record_def by (simp del: run_state_bind add: fresh_recording_is_lost [OF parts(3,6)])
qed

subsection \<open>A client that behaves as documented\<close>

text \<open>Collectors are numbered and named; a registry is known by the pairs it belongs to.\<close>

record prom_world =
  next_id :: nat
  members :: "(nat \<times> nat \<times> string) list"
  readings :: "nat \<times> string \<Rightarrow> rat"

definition prom_registered :: "nat \<Rightarrow> prom_world \<Rightarrow> (nat \<times> string) set" where
  "prom_registered g s = {m. (g, m) \<in> set (members s)}"

definition new_collector :: "string \<Rightarrow> (prom_world, nat \<times> string) state" where
  "new_collector name = State (\<lambda>s.
     let i = Suc (fold max (map (fst \<circ> snd) (members s)) (next_id s))
     in ((i, name), s\<lparr>next_id := i\<rparr>))"

definition prom_client :: "(nat \<times> string, nat, prom_world) prometheus" where
  "prom_client =
     \<lparr>NewCounter = new_collector, NewGauge = new_collector, NewHistogram = new_collector,
      NewRegistry = State (\<lambda>s. (Suc (fold max (map fst (members s)) 0), s)),
      Register = (\<lambda>g m. State (\<lambda>s. if snd m \<in> snd ` prom_registered g s
        then (Some (ErrorString ''duplicate metrics collector registration attempted''), s)
        else (None, s\<lparr>members := (g, m) # members s\<rparr>))),
      Counter_Add = (\<lambda>m x. State (\<lambda>s. if 0 \<le> x
        then (Returned (), s\<lparr>readings := (readings s)(m := readings s m + x)\<rparr>)
        else (Panicked ''counter cannot decrease in value'', s))),
      Gauge_Set = (\<lambda>m v. State (\<lambda>s. ((), s\<lparr>readings := (readings s)(m := (case v of Fin x \<Rightarrow> x | _ \<Rightarrow> 0))\<rparr>))),
      Observer_Observe = (\<lambda>m x. State (\<lambda>s. ((), s\<lparr>readings := (readings s)(m := readings s m + x)\<rparr>)))\<rparr>"

lemma fold_max_ge: "(n :: nat) \<le> fold max xs n \<and> (\<forall>x \<in> set xs. x \<le> fold max xs n)"
  by (induction xs arbitrary: n) (auto intro: order_trans [of _ "max _ _"], (meson max.bounded_iff)+)

lemma new_collector_documented:
  "creates_documented prom_registered (\<lambda>m s. readings s m) snd new_collector"
proof -
  have fresh: "(g, Suc (fold max (map (fst \<circ> snd) (members s)) (next_id s)), name) \<notin> set (members s)"
    for g name and s :: prom_world
  proof
    assume "(g, Suc (fold max (map (fst \<circ> snd) (members s)) (next_id s)), name) \<in> set (members s)"
    then have "Suc (fold max (map (fst \<circ> snd) (members s)) (next_id s)) \<in> set (map (fst \<circ> snd) (members s))"
      by (force simp: image_iff)
    with fold_max_ge [of "next_id s" "map (fst \<circ> snd) (members s)"] show False by (metis Suc_n_not_le_n)
  qed
  show ?thesis
    unfolding creates_documented_def new_collector_def prom_registered_def Let_def
    using fresh by simp
qed

lemma prom_client_documented:
  "prometheus_documented prom_client prom_registered (\<lambda>m s. readings s m) (\<lambda>x. x) snd"
proof -
  have "g \<le> fold max (map fst (members s)) 0" if "(g, m) \<in> set (members s)" for g m and s :: prom_world
    using fold_max_ge [of 0 "map fst (members s)"] that by force
  then have reg: "prom_registered (Suc (fold max (map fst (members s)) 0)) s = {}" for s
    by (force simp: prom_registered_def)
  have ins: "prom_registered g (s\<lparr>members := (g, m) # members s\<rparr>) = insert m (prom_registered g s)" for g m s
    by (auto simp: prom_registered_def)
  show ?thesis
    by (auto simp: prometheus_documented_def prom_client_def new_collector_documented records_documented_def reg ins
        split: if_splits) (auto simp: prom_registered_def)
qed

theorem new_handler_registers_declared_metrics_witness:
  "\<exists>h s1. run_state (NewPrometheusMetricsHandler prom_client None) \<lparr>next_id = 0, members = [], readings = (\<lambda>m. 0)\<rparr> = (h, s1) \<and>
     snd ` prom_registered (registry h) s1 = insert latency_name (set metric_names)"
proof -
  obtain h s1 where run: "run_state (NewPrometheusMetricsHandler prom_client None)
      \<lparr>next_id = 0, members = [], readings = (\<lambda>m. 0)\<rparr> = (h, s1)"
    by fastforce
  with new_handler_registers_declared_metrics [OF prom_client_documented run] show ?thesis by auto
qed

definition sample_handler :: "(nat \<times> string, nat) prometheusMetricsHandler" where
  "sample_handler =
     \<lparr>counters = (\<lambda>n. if n \<in> set metric_names then Some (0, n) else None), gauges = Map.empty,
      histograms = [latency_name \<mapsto> (0, latency_name)], registry = 1, tags = Map.empty\<rparr>"

definition sample_world :: prom_world where
  "sample_world = \<lparr>next_id = 0, members = map (\<lambda>n. (1, 0, n)) (latency_name # metric_names), readings = (\<lambda>m. 0)\<rparr>"

theorem only_declared_metrics_reach_registry_witness:
  "scrape prom_registered (\<lambda>m s. readings s m) 1
     (snd (run_state (do { x \<leftarrow> handler_Gauge prom_client sample_handler ''temporal_worker_task_slots_available'';
                           promGauge_Update prom_client x (Fin 7) }) sample_world)) =
   scrape prom_registered (\<lambda>m s. readings s m) 1 sample_world"
proof -
  have "handler_ok prom_registered snd sample_handler sample_world"
    by (auto simp: handler_ok_def sample_handler_def sample_world_def prom_registered_def split: if_splits)
  from only_declared_metrics_reach_registry [OF prom_client_documented this, of "\<lambda>x. x" 1] show ?thesis by simp
qed

end
