(* ===== verification/Facade.thy ===== *)
theory Facade
  imports IdempotencyKeys IdempotencyBackends PanicRecovery SagaRollback WorkflowStateTracker Versioning
    Approval Scheduler Parallel AuditTrail EngineLifecycle
begin

text \<open>
  \<open>temporalcommon.go\<close>: the package a consuming project imports. It adds nothing of its own; every
  variable is bound to, and every function returns the call of, the one of the same name in
  \<open>activity\<close>, \<open>workflow\<close> or \<open>client\<close>. So each is an abbreviation, each type alias is
  a type synonym, and what is proved of a component
  holds of the name a project calls it by.
\<close>

subsection \<open>Idempotent execution\<close>

abbreviation temporalcommon_NewInMemoryIdempotencyStore where
  "temporalcommon_NewInMemoryIdempotencyStore \<equiv> NewInMemoryIdempotencyStore"

abbreviation temporalcommon_NewRedisIdempotencyStore where
  "temporalcommon_NewRedisIdempotencyStore \<equiv> NewRedisIdempotencyStore"

abbreviation temporalcommon_ExecuteIdempotent where
  "temporalcommon_ExecuteIdempotent \<equiv> ExecuteIdempotent"

abbreviation temporalcommon_ExecuteIdempotentWithTTL where
  "temporalcommon_ExecuteIdempotentWithTTL \<equiv> ExecuteIdempotentWithTTL"

subsection \<open>The engine\<close>

abbreviation temporalcommon_New where
  "temporalcommon_New \<equiv> New"

abbreviation temporalcommon_StartOrAttach where
  "temporalcommon_StartOrAttach \<equiv> StartOrAttach"

abbreviation temporalcommon_StartOrAttachWithOptions where
  "temporalcommon_StartOrAttachWithOptions \<equiv> StartOrAttachWithOptions"

subsection \<open>Activity options\<close>

abbreviation temporalcommon_WithFinancialAPIOptions where
  "temporalcommon_WithFinancialAPIOptions \<equiv> WithFinancialAPIOptions"

abbreviation temporalcommon_WithNotificationOptions where
  "temporalcommon_WithNotificationOptions \<equiv> WithNotificationOptions"

abbreviation temporalcommon_WithInternalServiceOptions where
  "temporalcommon_WithInternalServiceOptions \<equiv> WithInternalServiceOptions"

abbreviation temporalcommon_WithLongRunningOptions where
  "temporalcommon_WithLongRunningOptions \<equiv> WithLongRunningOptions"

abbreviation temporalcommon_NewOptionsBuilder where
  "temporalcommon_NewOptionsBuilder \<equiv> NewOptionsBuilder"

subsection \<open>Errors, keys and panics\<close>

abbreviation temporalcommon_NewRetryableError where
  "temporalcommon_NewRetryableError \<equiv> NewRetryableError"

abbreviation temporalcommon_NewBusinessError where
  "temporalcommon_NewBusinessError \<equiv> NewBusinessError"

abbreviation temporalcommon_NewCompensationError where
  "temporalcommon_NewCompensationError \<equiv> NewCompensationError"

abbreviation temporalcommon_IsBusinessError where
  "temporalcommon_IsBusinessError \<equiv> IsBusinessError"

abbreviation temporalcommon_IsCompensationError where
  "temporalcommon_IsCompensationError \<equiv> IsCompensationError"

abbreviation temporalcommon_IdempotencyKey where
  "temporalcommon_IdempotencyKey \<equiv> IdempotencyKey"

abbreviation temporalcommon_IdempotencyKeyNoRetry where
  "temporalcommon_IdempotencyKeyNoRetry \<equiv> IdempotencyKeyNoRetry"

abbreviation temporalcommon_WithPanicRecovery where
  "temporalcommon_WithPanicRecovery \<equiv> WithPanicRecovery"

subsection \<open>Sagas\<close>

abbreviation temporalcommon_NewSaga where
  "temporalcommon_NewSaga \<equiv> NewSaga"

abbreviation temporalcommon_WithDLQHandler where
  "temporalcommon_WithDLQHandler \<equiv> WithDLQHandler"

abbreviation temporalcommon_NewActivityDLQHandler where
  "temporalcommon_NewActivityDLQHandler \<equiv> NewActivityDLQHandler"

abbreviation temporalcommon_NewActivityDLQHandlerWithOptions where
  "temporalcommon_NewActivityDLQHandlerWithOptions \<equiv> NewActivityDLQHandlerWithOptions"

subsection \<open>State, versions, approvals\<close>

abbreviation temporalcommon_QueryCurrentState where
  "temporalcommon_QueryCurrentState \<equiv> QueryCurrentState"

abbreviation temporalcommon_NewWorkflowState where
  "temporalcommon_NewWorkflowState \<equiv> NewWorkflowState"

abbreviation temporalcommon_NewChangeSet where
  "temporalcommon_NewChangeSet \<equiv> NewChangeSet"

abbreviation temporalcommon_WaitForApproval where
  "temporalcommon_WaitForApproval \<equiv> WaitForApproval"

abbreviation temporalcommon_ApprovalSignalName where
  "temporalcommon_ApprovalSignalName \<equiv> ApprovalSignalName"

subsection \<open>Schedules and fan-out\<close>

abbreviation temporalcommon_CreateSchedule where
  "temporalcommon_CreateSchedule \<equiv> CreateSchedule"

abbreviation temporalcommon_DeleteSchedule where
  "temporalcommon_DeleteSchedule \<equiv> DeleteSchedule"

abbreviation temporalcommon_ExecuteParallel where
  "temporalcommon_ExecuteParallel \<equiv> ExecuteParallel"

abbreviation temporalcommon_ExecuteParallelBestEffort where
  "temporalcommon_ExecuteParallelBestEffort \<equiv> ExecuteParallelBestEffort"

subsection \<open>The audit trail\<close>

abbreviation temporalcommon_AuditKindStep where
  "temporalcommon_AuditKindStep \<equiv> AuditKindStep"

abbreviation temporalcommon_AuditKindApproval where
  "temporalcommon_AuditKindApproval \<equiv> AuditKindApproval"

abbreviation temporalcommon_AuditKindCompensation where
  "temporalcommon_AuditKindCompensation \<equiv> AuditKindCompensation"

abbreviation temporalcommon_AuditKindStageChange where
  "temporalcommon_AuditKindStageChange \<equiv> AuditKindStageChange"

abbreviation temporalcommon_AuditKindCustom where
  "temporalcommon_AuditKindCustom \<equiv> AuditKindCustom"

abbreviation temporalcommon_WithAuditTrail where
  "temporalcommon_WithAuditTrail \<equiv> WithAuditTrail"

abbreviation temporalcommon_NewActivityAuditWriter where
  "temporalcommon_NewActivityAuditWriter \<equiv> NewActivityAuditWriter"

abbreviation temporalcommon_NewActivityAuditWriterWithOptions where
  "temporalcommon_NewActivityAuditWriterWithOptions \<equiv> NewActivityAuditWriterWithOptions"

abbreviation temporalcommon_AuditStep where
  "temporalcommon_AuditStep \<equiv> AuditStep"

abbreviation temporalcommon_AuditApproval where
  "temporalcommon_AuditApproval \<equiv> AuditApproval"

abbreviation temporalcommon_AuditCompensation where
  "temporalcommon_AuditCompensation \<equiv> AuditCompensation"

abbreviation temporalcommon_AuditStageChange where
  "temporalcommon_AuditStageChange \<equiv> AuditStageChange"

abbreviation temporalcommon_AuditCustom where
  "temporalcommon_AuditCustom \<equiv> AuditCustom"

subsection \<open>Types\<close>

text \<open>
  A type alias of Go is the type itself, and so is a synonym. The alias of the state tracker names the
  tracker with the store of its maps, and that of the silent audit writer its only value.
\<close>

type_synonym 'st temporalcommon_IdempotencyStore = "'st IdempotencyStore"
type_synonym temporalcommon_Config = "Config"
type_synonym temporalcommon_TLSConfig = "TLSConfig"
type_synonym temporalcommon_MetricsConfig = "MetricsConfig"
type_synonym temporalcommon_WorkerConfig = "WorkerConfig"
type_synonym temporalcommon_Engine = "Engine"
type_synonym 'w temporalcommon_Saga = "'w Saga"
type_synonym 'w temporalcommon_SagaOption = "'w SagaOption"
type_synonym 'w temporalcommon_CompensationDLQHandler = "'w CompensationDLQHandler"
type_synonym temporalcommon_CompensationFailureEvent = "CompensationFailureEvent"
type_synonym temporalcommon_WorkflowStateSnapshot = "WorkflowStateSnapshot"
type_synonym temporalcommon_ChangeSet = "ChangeSet"
type_synonym temporalcommon_ApprovalRequest = "ApprovalRequest"
type_synonym temporalcommon_ApprovalResult = "ApprovalResult"
type_synonym temporalcommon_ScheduleOptions = "ScheduleOptions"
type_synonym temporalcommon_WorkflowHandle = "WorkflowHandle"
type_synonym temporalcommon_SLAConfig = "SLAConfig"
type_synonym temporalcommon_SLABreachEvent = "SLABreachEvent"
type_synonym temporalcommon_ActivityCall = "ActivityCall"
type_synonym temporalcommon_ParallelResult = "ParallelResult"
type_synonym temporalcommon_AuditEventKind = "AuditEventKind"
type_synonym temporalcommon_AuditEntry = "AuditEntry"
type_synonym 'w temporalcommon_AuditWriter = "'w AuditWriter"
type_synonym temporalcommon_WorkflowState = tracker

abbreviation temporalcommon_NoOpAuditWriter where
  "temporalcommon_NoOpAuditWriter \<equiv> NoOpAuditWriter"

end
