(* ===== verification/ExampleWorker.thy ===== *)
theory ExampleWorker
  imports ExampleActivities Facade
begin

text \<open>
  The two programs around the example workflows: the simulated activities of
  \<open>examples/payment-saga/workflow.go\<close>, run with the payment saga end to end, and the worker of
  \<open>examples/loan-disbursement/cmd/main.go\<close>.
\<close>

subsection \<open>The payment saga's activities\<close>

definition DebitResult :: "string \<Rightarrow> gval" where
  "DebitResult txID = GStruct ''DebitResult'' [(''TxID'', GStr txID)]"

definition DebitActivity :: "gval \<Rightarrow> activity_run" where
  "DebitActivity input =
     (Inr (DebitResult (''debit-'' @ str_field ''PaymentID'' input)), [])"

definition CreditActivity :: "gval \<Rightarrow> activity_run" where
  "CreditActivity input = (Inl (temporalcommon_NewRetryableError ''credit service unavailable'' None), [])"

definition ReverseDebitActivity :: "gval \<Rightarrow> activity_run" where
  "ReverseDebitActivity txID = (Inr GNil, [ActLog Info ''reversing debit'' [(''txID'', txID)]])"

definition payment_worker :: "gofunc \<Rightarrow> gval list \<Rightarrow> go_error + gval" where
  "payment_worker fn as =
     (case as of
        [a] \<Rightarrow>
          fst (if fn = ''DebitActivity'' then DebitActivity a
               else if fn = ''CreditActivity'' then CreditActivity a
               else if fn = ''ReverseDebitActivity'' then ReverseDebitActivity a
               else (Inl (ForeignError ''activity is not registered'' None), []))
      | _ \<Rightarrow> Inl (ForeignError ''wrong number of arguments'' None))"

lemma payment_worker_debit [simp]:
  "payment_worker ''DebitActivity'' [payment_val input] =
     Inr (DebitResult (''debit-'' @ PaymentID input))"
  by (simp add: payment_worker_def DebitActivity_def payment_val_def field_defs)

lemma payment_worker_credit [simp]:
  "payment_worker ''CreditActivity'' [a] = Inl (NewRetryableError ''credit service unavailable'' None)"
  by (simp add: payment_worker_def CreditActivity_def)

lemma payment_answer:
  "fst (run_state (PaymentSagaWorkflow (with_worker payment_worker render S) c input) s) =
     Some (Some (WrapError ''credit failed: ''
       (let e = NewRetryableError ''credit service unavailable'' None in ForeignError (render e) (Some e))))"
proof -
  let ?W = "with_worker payment_worker render S"
  define after where "after cc fn as u = snd (run_state (run_activity ?W cc fn as) u)" for cc :: ctx and fn as u
  have run: "run_state (run_activity ?W cc fn as) u =
      (case payment_worker fn as of Inl e \<Rightarrow> Inl (ForeignError (render e) (Some e)) | Inr v \<Rightarrow> Inr v,
       after cc fn as u)" for cc :: ctx and fn as u
    using run_activity_with_worker [of payment_worker render S cc fn as u] by (simp add: after_def prod_eq_iff)
  show ?thesis
    by (simp add: PaymentSagaWorkflow_def fst_defer_compensate payment_body_def Let_def run)
qed

text \<open>
  The demonstration does what it says, if its activities are handed their first argument as an
  activity's context: whatever the SDK does otherwise, the debit goes through, the credit fails, the
  failure is the result, still recognisable as a retryable error, and exactly the debit that was made,
  "debit-" and the payment's id, is reversed.
\<close>

theorem payment_end_to_end:
  fixes S :: "'w sdk"
  shows "let W = with_worker payment_worker render S; es = appended (PaymentSagaWorkflow W c input) s in
    (\<exists>err. fst (run_state (PaymentSagaWorkflow W c input) s) = Some (Some (WrapError ''credit failed: '' err)) \<and>
       (\<exists>app. as_application_error err = Some app \<and> \<not> ae_NonRetryable app \<and>
          ae_Message app = ''credit service unavailable'')) \<and>
    activities es = [''DebitActivity'', ''CreditActivity'', ''ReverseDebitActivity''] \<and>
    started is_comp es = [(''ReverseDebitActivity'', [GStr (''debit-'' @ PaymentID input)])]"
proof -
  let ?W = "with_worker payment_worker render S"
  have "\<exists>d f w. activities (appended (PaymentSagaWorkflow ?W c input) s) =
        [''DebitActivity'', ''CreditActivity'', ''ReverseDebitActivity''] \<and>
      started is_comp (appended (PaymentSagaWorkflow ?W c input) s) =
        [(''ReverseDebitActivity'', [GStr (str_field ''TxID'' d)])] \<and>
      f_fn f = ''DebitActivity'' \<and> f_args f = [payment_val input] \<and> fst (sdk_get ?W f w) = Inr d"
    using payment_outcomes_lemma [of ?W c input s]
  proof (elim disjE)
    assume "\<exists>e. fst (run_state (PaymentSagaWorkflow ?W c input) s) = Some (Some (WrapError ''debit failed: '' e)) \<and>
      activities (appended (PaymentSagaWorkflow ?W c input) s) = [''DebitActivity''] \<and>
      started is_comp (appended (PaymentSagaWorkflow ?W c input) s) = []"
    then show ?thesis unfolding payment_answer by simp
  next
    assume "fst (run_state (PaymentSagaWorkflow ?W c input) s) = Some None \<and>
      activities (appended (PaymentSagaWorkflow ?W c input) s) = [''DebitActivity'', ''CreditActivity''] \<and>
      started is_comp (appended (PaymentSagaWorkflow ?W c input) s) = []"
    then show ?thesis unfolding payment_answer by simp
  qed blast
  then show ?thesis
    by (auto simp: payment_answer Let_def str_field_def field_of_def NewRetryableError_def DebitResult_def)
qed

text \<open>
  But the activities are declared with a \<open>workflow.Context\<close>. The SDK supplies a first parameter
  only when it is a \<open>context.Context\<close>; it counts the others against the arguments of the call, and a
  call with a wrong number of them fails without running the activity.
\<close>

datatype go_param = ContextContext | WorkflowContext | ValueParam string

definition payment_params :: "gofunc \<Rightarrow> go_param list option" where
  "payment_params = [''DebitActivity'' \<mapsto> [WorkflowContext, ValueParam ''PaymentInput''],
     ''CreditActivity'' \<mapsto> [WorkflowContext, ValueParam ''PaymentInput''],
     ''ReverseDebitActivity'' \<mapsto> [WorkflowContext, ValueParam ''string'']]"

definition arguments_expected :: "go_param list \<Rightarrow> nat" where
  "arguments_expected ps = (case ps of ContextContext # rest \<Rightarrow> length rest | _ \<Rightarrow> length ps)"

definition arguments_checked :: "(gofunc \<Rightarrow> go_param list option) \<Rightarrow> 'w sdk \<Rightarrow> bool" where
  "arguments_checked params S \<longleftrightarrow>
     (\<forall>f ps w. params (f_fn f) = Some ps \<and> length (f_args f) \<noteq> arguments_expected ps \<longrightarrow>
        (\<exists>e. fst (sdk_get S f w) = Inl e))"

text \<open>So under such an SDK the example never gets to its rollback: it ends at the debit.\<close>

theorem payment_debit_is_refused:
  assumes "arguments_checked payment_params S"
  shows "\<exists>e. fst (run_state (PaymentSagaWorkflow S c input) s) = Some (Some (WrapError ''debit failed: '' e)) \<and>
    activities (appended (PaymentSagaWorkflow S c input) s) = [''DebitActivity''] \<and>
    started is_comp (appended (PaymentSagaWorkflow S c input) s) = []"
proof -
  have refused: "\<exists>e. fst (run_state (run_activity S cc ''DebitActivity'' [a]) u) = Inl e" for cc :: ctx and a u
    using assms run_activity_get [of S cc "''DebitActivity''" "[a]" u]
    by (force simp: arguments_checked_def payment_params_def arguments_expected_def)
  have "\<exists>e. fst (run_state (PaymentSagaWorkflow S c input) s) = Some (Some (WrapError ''debit failed: '' e))"
    using refused [of "WithFinancialAPIOptions c" "payment_val input" s]
    by (auto simp: PaymentSagaWorkflow_def fst_defer_compensate payment_body_def Let_def split: prod.split)
  with payment_outcomes_lemma [of S c input s] show ?thesis by auto
qed

theorem payment_debit_is_refused_witness:
  "\<exists>e. fst (run_state (PaymentSagaWorkflow (sample_sdk (\<lambda>fn. True)) \<lparr>ctx_opts = None\<rparr>
      \<lparr>PaymentID = ''p1'', FromAcct = ''a'', ToAcct = ''b'', pay_Amount = Fin 5\<rparr>) sample_wf) =
    Some (Some (WrapError ''debit failed: '' e))"
proof -
  have "arguments_checked payment_params (sample_sdk (\<lambda>fn. True))"
    by (simp add: arguments_checked_def sample_sdk_def)
  from payment_debit_is_refused [OF this] show ?thesis by blast
qed

subsection \<open>The loan worker\<close>

definition loan_TaskQueue :: string where
  "loan_TaskQueue = ''loan-disbursement''"

definition main_config :: Config where
  "main_config =
     \<lparr>HostPort = ''localhost:7233'', Namespace = ''default'', TaskQueue = loan_TaskQueue, Identity = '''',
      TLS = None, Metrics = \<lparr>Enabled = True\<rparr>,
      Tracing = \<lparr>OTLPEndpoint = '''', ServiceName = '''', ServiceVersion = '''', Insecure = False\<rparr>,
      Worker = \<lparr>MaxConcurrentActivityTaskPollers = 0, MaxConcurrentWorkflowTaskPollers = 0,
        MaxConcurrentActivityExecutionSize = 0\<rparr>, ShutdownTimeout = 0, Interceptors = []\<rparr>"

text \<open>How the process ends: \<open>main\<close> returns, or \<open>log.Fatalf\<close> prints a message and exits.\<close>

datatype main_end = MainReturned | Fatalf string

definition register_loan :: "Engine \<Rightarrow> engine_event list" where
  "register_loan e =
     RegisterWorkflow ''LoanDisbursementWorkflow'' e @
     RegisterActivity ''KYCCheckActivity'' e @
     RegisterActivity ''ReserveFundsActivity'' e @
     RegisterActivity ''DisbursementActivity'' e @
     RegisterActivity ''NotifyBorrowerActivity'' e @
     RegisterActivity ''ReleaseReservationActivity'' e"

text \<open>The context is \<open>context.Background()\<close>, which is never done: only a signal ends the wait.\<close>

definition main :: "app_text \<Rightarrow> engine_world \<Rightarrow> string \<Rightarrow> main_end \<times> engine_event list" where
  "main tx E sig =
     (case temporalcommon_New E main_config of
        (Inl err, evs) \<Rightarrow> (Fatalf (''create engine: '' @ error_text tx err), evs)
      | (Inr engine, evs) \<Rightarrow>
          (let evs = evs @ register_loan engine in
           case Start E (SignalReceived sig) engine of
             (Some err, evs') \<Rightarrow> (Fatalf (''engine stopped: '' @ error_text tx err), evs @ evs')
           | (None, evs') \<Rightarrow> (MainReturned, evs @ evs')))"

definition registered_activities :: "engine_event list \<Rightarrow> gofunc list" where
  "registered_activities evs =
     List.map_filter (\<lambda>ev. case ev of RegisteredActivity a \<Rightarrow> Some a | _ \<Rightarrow> None) evs"

lemma main_up:
  assumes "zap_NewProduction E = None" and "\<And>opts. Dial E opts = None"
  shows "\<exists>opts e. New E main_config = (Inr e, [Dialed opts, WorkerNew loan_TaskQueue (Worker (applyDefaults main_config))]) \<and>
    slaEntries e = [] \<and> eg_tracing e = False"
  using assms by (simp add: New_def main_config_def Let_def loan_TaskQueue_def)

lemma registered_activities_simps [simp]:
  "registered_activities [] = []"
  "registered_activities (RegisteredActivity a # evs) = a # registered_activities evs"
  "registered_activities (RegisteredWorkflow w # evs) = registered_activities evs"
  "registered_activities (evs @ evs') = registered_activities evs @ registered_activities evs'"
  by (simp_all add: registered_activities_def List.map_filter_def)

text \<open>The run of \<open>main\<close>, when it gets as far as starting the worker.\<close>

lemma main_started:
  assumes "WorkerStarted \<in> set (snd (main tx E sig))"
  obtains e evs where "New E main_config = (Inr e, evs)" "worker_Start E = None"
    "takeWhile (\<lambda>ev. ev \<noteq> WorkerStarted) (snd (main tx E sig)) = evs @ register_loan e"
    "main tx E sig = (MainReturned, evs @ register_loan e @ snd (Start E (SignalReceived sig) e))"
proof -
  obtain r evs where new: "New E main_config = (r, evs)" by fastforce
  note quiet = New_quiet [OF new]
  have reg: "WorkerStarted \<notin> set (register_loan e)" for e
    by (simp add: register_loan_def RegisterWorkflow_def RegisterActivity_def)
  from assms new quiet obtain e where r: "r = Inr e"
    by (cases r) (auto simp: main_def)
  have started: "worker_Start E = None"
    using assms new r quiet reg by (auto simp: main_def Start_def Let_def split: option.splits)
  then obtain down where run: "Start E (SignalReceived sig) e = (None, WorkerStarted # down)"
    by (simp add: Start_def engine_shutdown_def Let_def)
  then have m: "main tx E sig = (MainReturned, evs @ register_loan e @ snd (Start E (SignalReceived sig) e))"
    using new r by (simp add: main_def Let_def)
  have "takeWhile (\<lambda>ev. ev \<noteq> WorkerStarted) (evs @ register_loan e @ WorkerStarted # rest) = evs @ register_loan e" for rest
    using quiet reg [of e] by (simp add: takeWhile_append2 takeWhile_append)
  with run m have "takeWhile (\<lambda>ev. ev \<noteq> WorkerStarted) (snd (main tx E sig)) = evs @ register_loan e" by auto
  with new r started m show ?thesis by (intro that) auto
qed

text \<open>
  C22. The worker can run what it is started for: whenever \<open>main\<close> reaches the point of polling for
  work, it polls the queue \<open>loan-disbursement\<close>, it has registered the loan workflow, and every
  activity that any execution of that workflow ever schedules, compensations included, whatever its
  input, its activities' answers and the approver do, was registered before.
\<close>

theorem worker_serves_its_workflow:
  assumes "WorkerStarted \<in> set (snd (main tx E sig))" and "selector_documented S"
  shows "let before = takeWhile (\<lambda>ev. ev \<noteq> WorkerStarted) (snd (main tx E sig)) in
    RegisteredWorkflow ''LoanDisbursementWorkflow'' \<in> set before \<and>
    (\<exists>w. WorkerNew ''loan-disbursement'' w \<in> set before) \<and>
    set (activities (appended (LoanDisbursementWorkflow S recv fmt c input) s)) \<subseteq>
      set (registered_activities before)"
proof -
  obtain e evs where m: "New E main_config = (Inr e, evs)"
    "takeWhile (\<lambda>ev. ev \<noteq> WorkerStarted) (snd (main tx E sig)) = evs @ register_loan e"
    by (rule main_started [OF assms(1)])
  let ?five = "{''KYCCheckActivity'', ''ReserveFundsActivity'', ''DisbursementActivity'',
      ''NotifyBorrowerActivity'', ''ReleaseReservationActivity''}"
  let ?es = "appended (LoanDisbursementWorkflow S recv fmt c input) s"
  have five: "as = [k] \<or> as = [k, f] \<or> as = [k, f, d, r] \<or> as = [k, f, d, n] \<Longrightarrow> set as \<subseteq> {k, f, d, n, r}"
    for as and k f d n r :: gofunc
    by auto
  have acts: "set (activities ?es) \<subseteq> ?five"
  proof (rule five)
    show "activities ?es = [''KYCCheckActivity''] \<or> activities ?es = [''KYCCheckActivity'', ''ReserveFundsActivity''] \<or>
        activities ?es = [''KYCCheckActivity'', ''ReserveFundsActivity'', ''DisbursementActivity'', ''ReleaseReservationActivity''] \<or>
        activities ?es = [''KYCCheckActivity'', ''ReserveFundsActivity'', ''DisbursementActivity'', ''NotifyBorrowerActivity'']"
      using loan_outcomes_lemma [OF assms(2), of recv fmt c input s]
      unfolding Let_def loan_stopped_def loan_rolled_back_def loan_disbursed_def by blast
  qed
  have reg: "set (registered_activities (register_loan e)) = ?five"
    "RegisteredWorkflow ''LoanDisbursementWorkflow'' \<in> set (register_loan e)"
    by (simp_all only: register_loan_def RegisterWorkflow_def RegisterActivity_def append_Cons append_Nil
        registered_activities_simps list.set insertI1)
  obtain w where queue: "WorkerNew ''loan-disbursement'' w \<in> set evs"
    using New_worker(1) [OF m(1)] by (simp add: main_config_def loan_TaskQueue_def)
  show ?thesis
    unfolding m(2) Let_def registered_activities_simps set_append reg(1)
  proof (intro conjI)
    show "RegisteredWorkflow ''LoanDisbursementWorkflow'' \<in> set evs \<union> set (register_loan e)"
      using reg(2) by (rule UnI2)
    show "\<exists>w. WorkerNew ''loan-disbursement'' w \<in> set evs \<union> set (register_loan e)"
      using UnI1 [OF queue] by (rule exI)
    show "set (activities ?es) \<subseteq> set (registered_activities evs) \<union> ?five"
      using acts by (rule le_supI2)
  qed
qed

theorem worker_serves_its_workflow_witness:
  "set (activities (appended (LoanDisbursementWorkflow happy_sdk (\<lambda>r w. (r, w)) (\<lambda>x. '''') sample_ctx
     \<lparr>LoanID = ''l-1'', BorrowerID = ''b-1'', loan_Amount = Fin 5000, AccountNumber = ''a'', RequiresApproval = False\<rparr>) sample_wf)) \<subseteq>
   set (registered_activities (takeWhile (\<lambda>ev. ev \<noteq> WorkerStarted) (snd (main (\<lambda>m t n c. m) working_world ''SIGTERM''))))"
proof -
  have "WorkerStarted \<in> set (snd (main (\<lambda>m t n c. m) working_world ''SIGTERM''))"
    using main_up [of working_world]
    by (auto simp: main_def working_world_def Start_def engine_shutdown_def Let_def)
  moreover have "selector_documented happy_sdk"
    by (simp add: selector_documented_def happy_sdk_def sample_sdk_def)
  ultimately show ?thesis
    by (rule worker_serves_its_workflow [unfolded Let_def, THEN conjunct2, THEN conjunct2])
qed

end
