(* ===== verification/TestHelpers.thy ===== *)
theory TestHelpers
  imports ExampleWorkflows
begin

text \<open>
  \<open>testing/environment.go\<close>, \<open>testing/assertions.go\<close> and \<open>testing/mock.go\<close>: what the test environment
  records of a run, what its assertions accept, and which calls the mock builder makes. The SDK's
  test environment calls the installed listener once per started activity, with its type name.
\<close>

subsection \<open>The environment\<close>

text \<open>Which of the two listeners is installed: the one of \<open>NewTestEnvironment\<close> or its replacement.\<close>

datatype listener = DefaultListener | TrackingListener

text \<open>
  The SDK's \<open>TestWorkflowEnvironment\<close>, of an unknown type \<open>'e\<close>: executing a workflow calls the
  installed listener with the names of the activities it starts.
\<close>

record 'e test_sdk =
  tsdk_New :: 'e
  tsdk_ExecuteWorkflow :: "gofunc \<Rightarrow> gval list \<Rightarrow> 'e \<Rightarrow> string list \<times> 'e"
  tsdk_GetWorkflowResult :: "'e \<Rightarrow> go_error + gval"
  tsdk_GetWorkflowError :: "'e \<Rightarrow> go_error option"
  tsdk_RegisterDelayedCallback :: "('e \<Rightarrow> 'e) \<Rightarrow> duration \<Rightarrow> 'e \<Rightarrow> 'e"
  tsdk_AssertExpectations :: "'e \<Rightarrow> string option"

record 'e TestEnvironment =
  sdk_env :: 'e
  listener :: listener
  executedActivities :: "string list"
  compensationOrder :: "string list"

definition NewTestEnvironment :: "'e test_sdk \<Rightarrow> 'e TestEnvironment" where
  "NewTestEnvironment T = \<lparr>sdk_env = tsdk_New T, listener = DefaultListener, executedActivities = [], compensationOrder = []\<rparr>"

definition TrackCompensations :: "'e TestEnvironment \<Rightarrow> 'e TestEnvironment" where
  "TrackCompensations te = te\<lparr>listener := TrackingListener\<rparr>"

definition on_activity_started :: "string \<Rightarrow> 'e TestEnvironment \<Rightarrow> 'e TestEnvironment" where
  "on_activity_started name te =
     (case listener te of
        DefaultListener \<Rightarrow> te\<lparr>executedActivities := executedActivities te @ [name]\<rparr>
      | TrackingListener \<Rightarrow>
          te\<lparr>executedActivities := executedActivities te @ [name],
             compensationOrder := compensationOrder te @ [name]\<rparr>)"

text \<open>A run that starts the activities \<open>names\<close>.\<close>

definition after_run :: "string list \<Rightarrow> 'e TestEnvironment \<Rightarrow> 'e TestEnvironment" where
  "after_run names te = fold on_activity_started names te"

lemma after_run_fields [simp]:
  "listener (after_run names te) = listener te" "sdk_env (after_run names te) = sdk_env te"
  "executedActivities (after_run names te) = executedActivities te @ names"
  "compensationOrder (after_run names te) =
     compensationOrder te @ (if listener te = TrackingListener then names else [])"
  by (induction names arbitrary: te)
    (simp_all add: after_run_def on_activity_started_def split: listener.split)

lemma new_environment_fields [simp]:
  "sdk_env (NewTestEnvironment T) = tsdk_New T" "sdk_env (TrackCompensations te) = sdk_env te"
  "listener (NewTestEnvironment T) = DefaultListener" "executedActivities (NewTestEnvironment T) = []"
  "compensationOrder (NewTestEnvironment T) = []" "listener (TrackCompensations te) = TrackingListener"
  "executedActivities (TrackCompensations te) = executedActivities te"
  "compensationOrder (TrackCompensations te) = compensationOrder te"
  by (simp_all add: NewTestEnvironment_def TrackCompensations_def)

text \<open>The methods that hand over to the SDK's environment.\<close>

definition te_Env :: "'e TestEnvironment \<Rightarrow> 'e" where
  "te_Env te = sdk_env te"

definition te_ExecuteWorkflow ::
    "'e test_sdk \<Rightarrow> gofunc \<Rightarrow> gval list \<Rightarrow> 'e TestEnvironment \<Rightarrow> 'e TestEnvironment" where
  "te_ExecuteWorkflow T workflowFn as te =
     (case tsdk_ExecuteWorkflow T workflowFn as (sdk_env te) of
        (names, e') \<Rightarrow> after_run names (te\<lparr>sdk_env := e'\<rparr>))"

definition te_GetResult :: "'e test_sdk \<Rightarrow> 'e TestEnvironment \<Rightarrow> go_error + gval" where
  "te_GetResult T te = tsdk_GetWorkflowResult T (sdk_env te)"

definition te_GetError :: "'e test_sdk \<Rightarrow> 'e TestEnvironment \<Rightarrow> go_error option" where
  "te_GetError T te = tsdk_GetWorkflowError T (sdk_env te)"

definition te_RegisterDelayedCallback ::
    "'e test_sdk \<Rightarrow> ('e \<Rightarrow> 'e) \<Rightarrow> duration \<Rightarrow> 'e TestEnvironment \<Rightarrow> 'e TestEnvironment" where
  "te_RegisterDelayedCallback T callback d te =
     te\<lparr>sdk_env := tsdk_RegisterDelayedCallback T callback d (sdk_env te)\<rparr>"

text \<open>The answer is the message with which the mock's expectations fail the test.\<close>

definition te_Cleanup :: "'e test_sdk \<Rightarrow> 'e TestEnvironment \<Rightarrow> string option" where
  "te_Cleanup T te = tsdk_AssertExpectations T (sdk_env te)"

lemma te_ExecuteWorkflow_fields:
  assumes "tsdk_ExecuteWorkflow T wfn as (sdk_env te) = (names, e')"
  shows "sdk_env (te_ExecuteWorkflow T wfn as te) = e'"
    and "executedActivities (te_ExecuteWorkflow T wfn as te) = executedActivities te @ names"
    and "compensationOrder (te_ExecuteWorkflow T wfn as te) =
      compensationOrder te @ (if listener te = TrackingListener then names else [])"
  by (simp_all add: te_ExecuteWorkflow_def assms)

subsection \<open>The assertions\<close>

text \<open>\<open>strings.LastIndex\<close> of a one-byte string, and \<open>strings.Contains\<close>.\<close>

fun go_LastIndex :: "char \<Rightarrow> string \<Rightarrow> nat option" where
  "go_LastIndex c [] = None"
| "go_LastIndex c (x # xs) =
     (case go_LastIndex c xs of Some i \<Rightarrow> Some (Suc i) | None \<Rightarrow> if x = c then Some 0 else None)"

fun starts_with :: "string \<Rightarrow> string \<Rightarrow> bool" where
  "starts_with s [] = True"
| "starts_with [] (y # ys) = False"
| "starts_with (x # xs) (y # ys) = (x = y \<and> starts_with xs ys)"

fun go_Contains :: "string \<Rightarrow> string \<Rightarrow> bool" where
  "go_Contains [] sub = (sub = [])"
| "go_Contains (x # xs) sub = (starts_with (x # xs) sub \<or> go_Contains xs sub)"

text \<open>\<open>full\<close> is the name \<open>runtime.FuncForPC\<close> gives the function.\<close>

definition activityName :: "string \<Rightarrow> string" where
  "activityName full =
     (case go_LastIndex (CHR ''.'') full of Some idx \<Rightarrow> drop (idx + 1) full | None \<Rightarrow> full)"

text \<open>The verb \<open>%v\<close> on a slice of strings.\<close>

fun join_spaces :: "string list \<Rightarrow> string" where
  "join_spaces [] = []"
| "join_spaces [x] = x"
| "join_spaces (x # xs) = x @ '' '' @ join_spaces xs"

definition show_slice :: "string list \<Rightarrow> string" where
  "show_slice xs = ''['' @ join_spaces xs @ '']''"

definition te_String :: "'e TestEnvironment \<Rightarrow> string" where
  "te_String te = ''executed activities: '' @ show_slice (executedActivities te) @
     [CHR 0x0A] @ ''compensation order: '' @ show_slice (compensationOrder te)"

text \<open>An assertion's outcome is the message of its \<open>t.Errorf\<close>, or None when it passes.\<close>

fun mentions :: "string list \<Rightarrow> string \<Rightarrow> bool" where
  "mentions [] name = False"
| "mentions (executed # rest) name = (if executed = name then True else mentions rest name)"

definition AssertActivityCalled :: "string \<Rightarrow> 'e TestEnvironment \<Rightarrow> string option" where
  "AssertActivityCalled fn te =
     (let name = activityName fn in
      if mentions (executedActivities te) name then None
      else Some (''expected activity '' @ go_quote name @ '' to be called, but it was not'' @ [CHR 0x0A] @ te_String te))"

definition AssertActivityNotCalled :: "string \<Rightarrow> 'e TestEnvironment \<Rightarrow> string option" where
  "AssertActivityNotCalled fn te =
     (let name = activityName fn in
      if mentions (executedActivities te) name
      then Some (''expected activity '' @ go_quote name @ '' NOT to be called, but it was'' @ [CHR 0x0A] @ te_String te)
      else None)"

text \<open>The loop over the expected names, with their index; the recorded ones are long enough.\<close>

fun order_mismatch :: "string list \<Rightarrow> nat \<Rightarrow> string list \<Rightarrow> string option" where
  "order_mismatch got i [] = None"
| "order_mismatch got i (want # rest) =
     (if got ! i \<noteq> want
      then Some (''compensation order['' @ show_nat i @ '']: expected '' @ go_quote want @ '', got '' @
        go_quote (got ! i) @ [CHR 0x0A] @ ''full order: '' @ show_slice got)
      else order_mismatch got (i + 1) rest)"

definition AssertCompensationOrder :: "string list \<Rightarrow> 'e TestEnvironment \<Rightarrow> string option" where
  "AssertCompensationOrder fns te =
     (if fns = [] then None
      else (let expected = map activityName fns; got = compensationOrder te in
        if length got < length expected
        then Some (''compensation order: expected '' @ show_nat (length expected) @ '' steps '' @ show_slice expected @
          '', got '' @ show_nat (length got) @ '' steps '' @ show_slice got)
        else order_mismatch got 0 expected))"

definition AssertWorkflowCompleted ::
    "'e test_sdk \<Rightarrow> app_text \<Rightarrow> 'e TestEnvironment \<Rightarrow> string option" where
  "AssertWorkflowCompleted T tx te =
     (case te_GetError T te of
        None \<Rightarrow> None
      | Some err \<Rightarrow> Some (''expected workflow to complete successfully, got error: '' @ error_text tx err))"

definition AssertWorkflowFailed ::
    "'e test_sdk \<Rightarrow> app_text \<Rightarrow> string \<Rightarrow> 'e TestEnvironment \<Rightarrow> string option" where
  "AssertWorkflowFailed T tx msgContains te =
     (case te_GetError T te of
        None \<Rightarrow> Some ''expected workflow to fail, but it completed successfully''
      | Some e \<Rightarrow>
          if msgContains \<noteq> '''' \<and> \<not> go_Contains (error_text tx e) msgContains
          then Some (''expected workflow error to contain '' @ go_quote msgContains @ '', got: '' @ error_text tx e)
          else None)"

fun count_calls :: "string \<Rightarrow> string list \<Rightarrow> nat" where
  "count_calls name [] = 0"
| "count_calls name (executed # rest) = (if executed = name then 1 else 0) + count_calls name rest"

definition ActivityCallCount :: "string \<Rightarrow> 'e TestEnvironment \<Rightarrow> nat" where
  "ActivityCallCount fn te = count_calls (activityName fn) (executedActivities te)"

lemma go_LastIndex_None: "go_LastIndex c s = None \<longleftrightarrow> c \<notin> set s"
  by (induction s) (auto split: option.splits)

lemma go_split_several: "c \<in> set s \<Longrightarrow> tl (go_split c s) \<noteq> []"
  by (induction s) (auto split: list.split)

lemma go_LastIndex_split: "last (go_split c s) = (case go_LastIndex c s of Some i \<Rightarrow> drop (i + 1) s | None \<Rightarrow> s)"
proof (induction s)
  case (Cons x s)
  show ?case
  proof (cases "c \<in> set s")
    case True
    then obtain i where i: "go_LastIndex c s = Some i" using go_LastIndex_None [of c s] by auto
    obtain p q qs where "go_split c s = p # q # qs"
      using go_split_several [OF True] by (cases "go_split c s"; cases "tl (go_split c s)") auto
    with Cons i show ?thesis by simp
  next
    case False
    then have "go_LastIndex c s = None" "go_split c s = [s]"
      by (simp_all add: go_LastIndex_None go_split_no_sep)
    then show ?thesis by simp
  qed
qed simp

text \<open>The short name is the last dot-separated part, the one the SLA monitors use.\<close>

lemma activityName_split: "activityName full = last (go_split (CHR ''.'') full)"
  by (simp add: activityName_def go_LastIndex_split)

lemma mentions_iff: "mentions xs name \<longleftrightarrow> name \<in> set xs"
  by (induction xs) auto

lemma count_calls_eq: "count_calls name xs = count_list xs name"
  by (induction xs) auto

lemma order_mismatch_None:
  "i + length expected \<le> length got \<Longrightarrow>
    order_mismatch got i expected = None \<longleftrightarrow> take (length expected) (drop i got) = expected"
proof (induction expected arbitrary: i)
  case (Cons want rest)
  then have "drop i got = got ! i # drop (Suc i) got" by (simp add: Cons_nth_drop_Suc)
  with Cons show ?case by simp
qed simp

lemma AssertCompensationOrder_None:
  "AssertCompensationOrder fns te = None \<longleftrightarrow> (\<exists>rest. compensationOrder te = map activityName fns @ rest)"
proof (cases "length fns \<le> length (compensationOrder te)")
  case True
  have "take (length fns) (compensationOrder te) = map activityName fns \<longleftrightarrow>
      (\<exists>rest. compensationOrder te = map activityName fns @ rest)"
    by (metis append_eq_conv_conj append_take_drop_id length_map)
  with True show ?thesis
    using order_mismatch_None [of 0 "map activityName fns" "compensationOrder te"]
    by (auto simp: AssertCompensationOrder_def Let_def)
next
  case False
  then show ?thesis by (auto simp: AssertCompensationOrder_def Let_def)
qed

subsection \<open>The mock builder\<close>

text \<open>
  The expectation that \<open>OnActivity\<close> returns is known by the activity, its argument matchers and the
  methods called on it, in order. \<open>methods\<close> are the methods it has: \<open>MethodByName\<close> finds no other.
\<close>

datatype matcher = Anything | Exactly gval
datatype mock_arg = MockValue gval | MockFn gofunc | MockNil

record MockCall =
  mock_fn :: gofunc
  mock_args :: "matcher list"
  fn_outs :: "gval list"
  invoked :: "(string \<times> mock_arg list) list"

definition MockActivity :: "gofunc \<Rightarrow> nat \<Rightarrow> gval list \<Rightarrow> matcher list \<Rightarrow> MockCall" where
  "MockActivity fn numIn zeros as =
     \<lparr>mock_fn = fn, mock_args = (if length as = 0 then replicate numIn Anything else as),
      fn_outs = zeros, invoked = []\<rparr>"

definition mock_invoke :: "string set \<Rightarrow> string \<Rightarrow> mock_arg list \<Rightarrow> MockCall \<Rightarrow> MockCall" where
  "mock_invoke methods name as mc =
     (if name \<notin> methods then mc else mc\<lparr>invoked := invoked mc @ [(name, as)]\<rparr>)"

definition mock_Return :: "string set \<Rightarrow> mock_arg list \<Rightarrow> MockCall \<Rightarrow> MockCall" where
  "mock_Return methods as = mock_invoke methods ''Return'' as"

text \<open>
  \<open>fn_outs\<close> are the zero values of the activity's results, the error included. With no result at
  all, \<open>returnArgs[numOut-1]\<close> is out of range.
\<close>

definition mock_ReturnError :: "string set \<Rightarrow> go_error option \<Rightarrow> MockCall \<Rightarrow> (string, MockCall) outcome" where
  "mock_ReturnError methods err mc =
     (let numOut = length (fn_outs mc) in
      if numOut = 0 then Panicked ''runtime error: index out of range [-1]''
      else Returned (mock_invoke methods ''Return''
        (map MockValue (take (numOut - 1) (fn_outs mc)) @
         [case err of None \<Rightarrow> MockNil | Some e \<Rightarrow> MockValue (GErr e)]) mc))"

definition mock_Once :: "string set \<Rightarrow> MockCall \<Rightarrow> MockCall" where
  "mock_Once methods = mock_invoke methods ''Once'' []"

definition mock_Times :: "string set \<Rightarrow> int \<Rightarrow> MockCall \<Rightarrow> MockCall" where
  "mock_Times methods n = mock_invoke methods ''Times'' [MockValue (GInt n)]"

definition mock_Maybe :: "string set \<Rightarrow> MockCall \<Rightarrow> MockCall" where
  "mock_Maybe methods = mock_invoke methods ''Maybe'' []"

definition mock_RunFn :: "string set \<Rightarrow> gofunc \<Rightarrow> MockCall \<Rightarrow> MockCall" where
  "mock_RunFn methods fn = mock_invoke methods ''Return'' [MockFn fn]"

lemma mock_ReturnError_outs:
  assumes "fn_outs mc \<noteq> []" and "''Return'' \<in> methods"
  shows "\<exists>mc' as. mock_ReturnError methods err mc = Returned mc' \<and>
    invoked mc' = invoked mc @ [(''Return'', as)] \<and> length as = length (fn_outs mc) \<and>
    last as = (case err of None \<Rightarrow> MockNil | Some e \<Rightarrow> MockValue (GErr e))"
  using assms by (auto simp: mock_ReturnError_def mock_invoke_def Let_def)

subsection \<open>Properties\<close>

text \<open>
  What the assertions on a run accept. \<open>AssertActivityCalled\<close>, its negation and the call count
  answer what their names say, with either listener. \<open>AssertCompensationOrder\<close> does not: with the
  listener \<open>NewTestEnvironment\<close> installs "to support" it no compensation is ever recorded, so that
  it fails for every expectation; after \<open>TrackCompensations\<close> it compares with the first activities
  of the run, forward steps included, not with its compensations.
\<close>

theorem test_assertions_meaning:
  assumes "tsdk_ExecuteWorkflow T wfn as (tsdk_New T) = (names, e')"
  shows "let te = te_ExecuteWorkflow T wfn as (NewTestEnvironment T);
             te' = te_ExecuteWorkflow T wfn as (TrackCompensations (NewTestEnvironment T)) in
   (AssertActivityCalled fn te = None) = (activityName fn \<in> set names) \<and>
   (AssertActivityCalled fn te' = None) = (activityName fn \<in> set names) \<and>
   (AssertActivityNotCalled fn te = None) = (activityName fn \<notin> set names) \<and>
   ActivityCallCount fn te = count_list names (activityName fn) \<and>
   (AssertWorkflowCompleted T tx te = None) = (tsdk_GetWorkflowError T e' = None) \<and>
   (AssertWorkflowFailed T tx '''' te = None) = (tsdk_GetWorkflowError T e' \<noteq> None) \<and>
   (AssertCompensationOrder fns te = None) = (fns = []) \<and>
   (AssertCompensationOrder fns te' = None) = (\<exists>rest. names = map activityName fns @ rest)"
  using te_ExecuteWorkflow_fields [of T wfn as "NewTestEnvironment T"]
    te_ExecuteWorkflow_fields [of T wfn as "TrackCompensations (NewTestEnvironment T)"] assms
  by (auto simp: Let_def AssertActivityCalled_def AssertActivityNotCalled_def ActivityCallCount_def
      AssertWorkflowCompleted_def AssertWorkflowFailed_def te_GetError_def
      mentions_iff count_calls_eq AssertCompensationOrder_None split: option.split)

text \<open>A test environment that starts the activities of a given list, and fails the workflow or not.\<close>

definition sample_test_sdk :: "string list \<Rightarrow> go_error option \<Rightarrow> bool test_sdk" where
  "sample_test_sdk names err =
     \<lparr>tsdk_New = False, tsdk_ExecuteWorkflow = (\<lambda>fn as ran. (names, True)),
      tsdk_GetWorkflowResult = (\<lambda>ran. case err of None \<Rightarrow> Inr GNil | Some e \<Rightarrow> Inl e),
      tsdk_GetWorkflowError = (\<lambda>ran. if ran then err else None),
      tsdk_RegisterDelayedCallback = (\<lambda>f d ran. ran), tsdk_AssertExpectations = (\<lambda>ran. None)\<rparr>"

theorem test_assertions_meaning_witness:
  "let T = sample_test_sdk [''DebitActivity'', ''ReverseDebitActivity''] None;
       te = te_ExecuteWorkflow T ''PaymentSagaWorkflow'' [] (NewTestEnvironment T) in
    AssertActivityCalled ''paymentsaga.DebitActivity'' te = None \<and>
    AssertCompensationOrder [''paymentsaga.ReverseDebitActivity''] te \<noteq> None"
proof -
  let ?T = "sample_test_sdk [''DebitActivity'', ''ReverseDebitActivity''] None"
  have run: "tsdk_ExecuteWorkflow ?T ''PaymentSagaWorkflow'' [] (tsdk_New ?T) =
      ([''DebitActivity'', ''ReverseDebitActivity''], True)"
    by (simp add: sample_test_sdk_def)
  have "activityName ''paymentsaga.DebitActivity'' = ''DebitActivity''" by (simp add: activityName_def)
  with test_assertions_meaning [OF run, of "''paymentsaga.DebitActivity''" "\<lambda>m t n c. m"
      "[''paymentsaga.ReverseDebitActivity'']"]
  show ?thesis by (simp add: Let_def)
qed

text \<open>
  So the documented use fails on the repository's own saga: the debit is reversed, and a test that
  asserts exactly that as the compensation order is refused with both listeners.
\<close>

theorem payment_reversal_not_asserted:
  "let names = activities (appended (PaymentSagaWorkflow S c input) s);
       reversal = [''paymentsaga.ReverseDebitActivity''] in
   AssertCompensationOrder reversal (after_run names (NewTestEnvironment T)) \<noteq> None \<and>
   AssertCompensationOrder reversal (after_run names (TrackCompensations (NewTestEnvironment T))) \<noteq> None"
proof -
  have "\<exists>rest. activities (appended (PaymentSagaWorkflow S c input) s) = ''DebitActivity'' # rest"
    using payment_outcomes_lemma [of S c input s] by (elim disjE exE conjE) simp_all
  moreover have "activityName ''paymentsaga.ReverseDebitActivity'' = ''ReverseDebitActivity''"
    by (simp add: activityName_def)
  ultimately show ?thesis by (auto simp: Let_def AssertCompensationOrder_None)
qed

end
