(* ===== verification/Spec2Isabelle.thy ===== *)
theory Spec2Isabelle
  imports ActivityErrors IdempotencyKeys IdempotencyBackends IdempotentConcurrency StoreLocks StoreEquivalence
    ActivityDeduplication ActivityOptions BuilderSlices ActivityRetries
    PanicRecovery RecoveredIdempotency SagaRollback Parallel Approval WorkflowStateTracker AuditTrail Versioning Scheduler
    ExampleWorkflows SagaPattern ExampleActivities StartOrAttaching SlaMonitor EngineLifecycle EngineProcess Observability
    Facade ExampleWorker TestHelpers
begin

text \<open>
  A verification development for temporal-common, a Go library of building blocks for workflows on
  the Temporal platform.

  \<^bold>\<open>The program.\<close> Workflow code (package workflow) runs deterministically and asks the Temporal SDK
  to run activities; activity code (package activity) does the work and may be retried; an engine
  (package client) connects a process to the server. The parts meet in the examples: a workflow
  builds a saga, runs activities under a preset of options, registers a compensation after each
  step, waits for an approval, and defers the rollback.

  \<^bold>\<open>What is a parameter.\<close> The Temporal SDK and server, zap, Prometheus, the OTLP
  exporter and Redis are not part of the repository. What workflow code asks of the SDK is the
  record \<open>sdk\<close> of WorkflowEnv over an unknown state, which every call may change; the
  outcome of an activity, the choice of a selector, a version are whatever the record says.
  Properties that need more name it: \<open>selector_documented\<close> (Select runs one of its
  cases), \<open>versions_documented\<close>, \<open>server_documented\<close>,
  \<open>redis_documented\<close>, \<open>redis_expiring\<close>, \<open>arguments_checked\<close>,
  \<open>retries_documented\<close> and \<open>other_failures_documented\<close> (what the server
  does with an attempt that failed with an application error, and with any other),
  \<open>prometheus_documented\<close>, \<open>documented_retry_rule\<close>; each has an instance in
  a witness.

  \<^bold>\<open>Theories, in the order they build on each other.\<close> Prelude: collections of
  rewrite rules, list lemmas, the state monad. GoLib: Go's standard library as far as it is used
  (time, formatting, \<open>strings.Split\<close>, error chains, floats). SdkTypes: activity
  options, contexts, dynamic values, log levels. ActivityErrors (activity/errors.go),
  IdempotencyKeys (activity/idempotency.go), IdempotentExecution and IdempotencyBackends
  (activity/idempotency_store.go: the locale \<open>idempotency_store\<close> of what any store is,
  \<open>reliable_store\<close> of what a correct one promises, and the in-memory and Redis stores
  that interpret them), IdempotentConcurrency (the same file: overlapping calls of
  \<open>ExecuteIdempotentWithTTL\<close> on one store, as an interleaving of atomic turns, with the
  locale \<open>atomic_store\<close>), StoreLocks (the in-memory store under its RWMutex, turn by
  turn), StoreEquivalence (the locale \<open>interchangeable_stores\<close> of two stores that
  agree; the in-memory store against itself and against Redis), ActivityDeduplication (the keys of
  idempotency.go with \<open>ExecuteIdempotent\<close>, over deliveries of attempts),
  ActivityOptions (activity/options.go and activity/builder.go), BuilderSlices (activity/builder.go
  over the slices and arrays of Go), PanicRecovery (activity/recover.go), RecoveredIdempotency
  (recover.go around an activity that goes through \<open>ExecuteIdempotent\<close>, whose body may
  panic). WorkflowEnv: a workflow execution as a state with a history of events; the predicates that
  read a history (\<open>started\<close>, \<open>failures\<close>, \<open>under\<close>,
  \<open>activities\<close>, \<open>worst_level\<close>); the calculus of what an operation appends.
  Compensation, Dlq and SagaRollback (workflow/saga.go, workflow/dlq.go): the record
  \<open>Saga\<close>, its operations, \<open>Compensate\<close> with its loop, and the locales
  \<open>dlq_handler\<close> and \<open>delivering_dlq_handler\<close> of what a handler owes the
  rollback, interpreted on the handlers of the library, on none, and on one that panics.
  ActivityRetries: the options of activity/options.go, activity/builder.go and workflow/saga.go
  under a server that retries, with the saga's rollback and with keys and store. Parallel
  (workflow/parallel.go), Approval (workflow/approval.go), WorkflowStateTracker (workflow/state.go,
  its Go maps in an explicit store), AuditTrail (workflow/audit.go, the locale
  \<open>audit_writer\<close> and both writers), Versioning (workflow/versioning.go), Scheduler
  (workflow/scheduler.go). ExampleWorkflows (examples/payment-saga/workflow.go,
  examples/loan-disbursement/workflow.go): whole workflows with their deferred rollback.
  SagaPattern: the usage that the comments of workflow/saga.go document, for any list of steps, of
  which the payment saga is one. ExampleActivities (examples/loan-disbursement/activities.go): the
  simulated activities, and the loan workflow run with them. ExampleWorker
  (examples/payment-saga/workflow.go, examples/loan-disbursement/cmd/main.go): the payment
  activities, run with their saga, and the loan worker's main function. TestHelpers
  (testing/environment.go, testing/assertions.go, testing/mock.go): what the test environment
  records and what its assertions accept, over the SDK's environment as a parameter.
  StartOrAttaching (client/start.go), SlaMonitor (client/sla.go), EngineLifecycle (client/config.go,
  client/engine.go, client/shutdown.go, client/health.go, observability/tracing.go): what the engine
  acquires and releases is a list of events. EngineProcess (client/engine.go, client/shutdown.go,
  client/sla.go): the process of a started engine, whose main goroutine and monitors interleave.
  Observability (observability/logging.go, observability/metrics.go): the adapters to zap and
  Prometheus. Facade (temporalcommon.go): each name of the package as an abbreviation, or a type
  synonym, of the one it forwards to.

  \<^bold>\<open>How state and effects are modelled.\<close> Structs are records with the source's
  field names (with a prefix where two structs share one), errors are values of
  \<open>go_error\<close>, Go's panics are the constructor \<open>Panicked\<close>, a workflow that
  stays blocked for ever is None. Loops are structural recursions: \<open>compensate_from\<close>
  over the position of the step, \<open>select_all\<close> over the number of \<open>Select\<close>
  calls, which is the number of activities; \<open>toFields_loop\<close> by the distance to the end;
  no fuel is needed, and every definition is total but one: the server's retry loop, which may go on
  for ever, has an optional result, and what is claimed of activities that end includes that they
  do. A call of \<open>ExecuteIdempotentWithTTL\<close> that overlaps others is a machine of at most
  three turns, and an execution of several is any list of turns and of steps of the rest of the
  world. A method of the in-memory store is a machine of at most four turns (lock, read the clock,
  touch the map, unlock), and a process of them any interleaving. float64 rounding in the metrics
  adapter is an arbitrary function. Durations and instants are integers of nanoseconds; the only
  arithmetic that can leave int64, the subtraction of two instants, saturates as in Go.

  \<^bold>\<open>What the lemmas show.\<close> The saga: a rollback runs the registered steps in
  reverse order, one at a time, each once, whatever fails, and reports each failure once; its log
  level tells whether it was complete. Parallel batches start everything first and return one result
  per activity; a business code can be found in their error only if one activity failed. Approvals
  come only from a signal. Idempotent execution: a recorded result is returned by every retry within
  its time to live; no error of a store is ever returned, but bytes that it claims to have found and
  that decode are believed. Under every interleaving of overlapping calls each call returns after
  three turns, the whole ends, results are genuine, and nothing runs again once it is recorded; but
  every call that asked before the first record runs its body. Without overlap the machine is the
  code. The in-memory store under its lock is linearizable, free of races and of deadlocks, which is
  why its operations are single steps elsewhere; with positive times to live calls cannot tell it
  from a Redis server that expires keys as documented. With the stable key an activity whose
  attempts do not overlap takes effect once, and under a preset it also ends, whichever responses
  are lost. Compensations are retried until they succeed, so that a rollback only ever reports
  cancellations and errors that forbid a retry. Builders of options behave as values although they
  share slices. A workflow written in the documented saga pattern is all or nothing, and returns the
  error of its failed step, whatever the rollback meets. The tracker is a refinement of plain
  values. Recovered activities that are not variadic do not panic, not even under a nil context, and
  all keep their types. The loan workflow ends in one of three ways, and reserves money only after
  its checks, in their order; its worker has registered every activity the workflow can schedule.
  The engine releases what it took once its worker has started, and nothing when that fails. The
  goroutines of an engine do not disturb each other. A workflow over its threshold is alerted by the
  first poll that is due, if that poll lists it. Other properties and the findings record where the
  code does not do what its comments and documents say: a permanently failed compensation is not the
  workflow's result, the pivot of a saga has no effect, \<open>NoRetry\<close> is cut off after five
  minutes, builders given one slice with room to spare overwrite each other, a second
  \<open>Compensate\<close> repeats the first, approvals ignore their id, \<open>SetMeta\<close>
  moves the time of the last stage, \<open>AlreadyRunning\<close> is never reported, the poll
  interval of SLA monitors is constant, keys with slashes collide, wrapped activities lose their
  names, overlapping attempts at one key both execute, a retry under the per-attempt key executes
  again, two runs of one workflow id share their keys, a time to live of zero means at once in
  memory and never on Redis, the payment activities take a context that the SDK does not supply,
  workflows behind the first page of the list are never alerted, monitors outlive their engine,
  gauges never reach the metrics registry, and the compensation order assertion of the test helpers
  compares with all activities.

  \<^bold>\<open>What is not modelled.\<close> What the SDK, the server, zap, Prometheus and Redis
  do, beyond the named hypotheses. The body of an activity changes the state it shares with others
  in one step, and so does a poll of an SLA monitor. A workflow's own execution takes the final
  outcome of an activity from the SDK; that there may be none is said of the retry loop only.
\<close>

end
